(* ===== verification/Prelude.thy ===== *)
theory Prelude
  imports Complex_Main "HOL-Library.Word" "HOL-Library.AList"
begin

text \<open>
  The shared vocabulary of the development: the machine integers of the Rust sources, big-endian
  byte strings (what \<^verbatim>\<open>BufMut::put_u16\<close>, \<^verbatim>\<open>put_u32\<close> and \<^verbatim>\<open>from_be_bytes\<close> do), the
  \<^verbatim>\<open>slice::chunks\<close> iterator, time, and the collections of rewrite rules that the component theories extend.

  Sizes and lengths (\<^verbatim>\<open>usize\<close>) are \<open>nat\<close>: every one of them is the length of something held in
  memory. Casts such as \<^verbatim>\<open>as u16\<close> are written out as \<open>of_nat\<close>, which wraps as the cast does.
\<close>

unbundle bit_operations_syntax

named_theorems wire_simps \<open>unfolding rules for the byte codecs\<close>
named_theorems hm_defs \<open>definitions of the hash map operations\<close>

type_synonym u8 = "8 word"
type_synonym u16 = "16 word"
type_synonym u32 = "32 word"
type_synonym u64 = "64 word"
type_synonym bytes = "u8 list"

section \<open>Big-endian integers\<close>

definition put_u16 :: "u16 \<Rightarrow> bytes" where
  "put_u16 x = [ucast (drop_bit 8 x), ucast x]"

definition put_u32 :: "u32 \<Rightarrow> bytes" where
  "put_u32 x = [ucast (drop_bit 24 x), ucast (drop_bit 16 x), ucast (drop_bit 8 x), ucast x]"

definition u16_from_be :: "u8 \<Rightarrow> u8 \<Rightarrow> u16" where
  "u16_from_be a b = push_bit 8 (ucast a) OR ucast b"

definition u32_from_be :: "u8 \<Rightarrow> u8 \<Rightarrow> u8 \<Rightarrow> u8 \<Rightarrow> u32" where
  "u32_from_be a b c d =
     push_bit 24 (ucast a) OR push_bit 16 (ucast b) OR push_bit 8 (ucast c) OR ucast d"

lemma length_put_u16 [simp]: "length (put_u16 x) = 2"
  by (simp add: put_u16_def)

lemma length_put_u32 [simp]: "length (put_u32 x) = 4"
  by (simp add: put_u32_def)

lemma u16_from_be_put [simp]: "u16_from_be (ucast (drop_bit 8 x)) (ucast x) = x"
  unfolding u16_from_be_def
  by (rule bit_word_eqI) (auto simp: bit_simps not_le not_less)

lemma u32_from_be_put [simp]:
  "u32_from_be (ucast (drop_bit 24 x)) (ucast (drop_bit 16 x)) (ucast (drop_bit 8 x)) (ucast x) = x"
proof (rule bit_word_eqI)
  fix n :: nat
  assume "n < LENGTH(32)"
  then have n: "n < 32" by simp
  consider "n < 8" | "8 \<le> n" "n < 16" | "16 \<le> n" "n < 24" | "24 \<le> n" by linarith
  then show "bit (u32_from_be (ucast (drop_bit 24 x)) (ucast (drop_bit 16 x))
      (ucast (drop_bit 8 x)) (ucast x)) n \<longleftrightarrow> bit x n"
    using n by cases (auto simp: u32_from_be_def bit_simps)
qed

lemma u8_bit_high [simp]: "8 \<le> n \<Longrightarrow> \<not> bit (x :: u8) n"
  using bit_imp_le_length[of x n] by auto

lemma put_u16_from_be [simp]: "put_u16 (u16_from_be a b) = [a, b]"
  unfolding u16_from_be_def put_u16_def
  by (auto intro!: bit_word_eqI simp: bit_simps)

lemma put_u32_from_be [simp]: "put_u32 (u32_from_be a b c d) = [a, b, c, d]"
  unfolding u32_from_be_def put_u32_def
  by (auto intro!: bit_word_eqI simp: bit_simps)

lemma unat_of_nat_u32 [simp]: "n < 2 ^ 32 \<Longrightarrow> unat (of_nat n :: u32) = n"
  by (simp add: unat_of_nat take_bit_nat_eq_self)

lemma unat_of_nat_u16 [simp]: "n < 2 ^ 16 \<Longrightarrow> unat (of_nat n :: u16) = n"
  by (simp add: unat_of_nat take_bit_nat_eq_self)

lemma unat_u16_less: "unat (x :: u16) < 2 ^ 16"
  using unsigned_less[of x] by simp

lemma unat_u8_less: "unat (x :: u8) < 2 ^ 8"
  using unsigned_less[of x] by simp

section \<open>Slices in chunks\<close>

text \<open>
  \<^verbatim>\<open>xs.chunks(n)\<close>: consecutive pieces of \<open>n\<close> elements, the last one possibly shorter. The
  standard library panics on \<open>n = 0\<close>; the sources only pass positive constants, and the
  definition stops there with no chunk.
\<close>

function chunks :: "nat \<Rightarrow> 'a list \<Rightarrow> 'a list list" where
  "chunks n xs = (if n = 0 \<or> xs = [] then [] else take n xs # chunks n (drop n xs))"
  by pat_completeness auto
termination
  by (relation "measure (\<lambda>(n, xs). length xs)") auto

declare chunks.simps [simp del]

lemma chunks_Nil [simp]: "chunks n [] = []"
  by (simp add: chunks.simps)

lemma chunks_step: "0 < n \<Longrightarrow> xs \<noteq> [] \<Longrightarrow> chunks n xs = take n xs # chunks n (drop n xs)"
  by (subst chunks.simps) simp

lemma concat_chunks [simp]: "0 < n \<Longrightarrow> concat (chunks n xs) = xs"
proof (induction n xs rule: chunks.induct)
  case (1 n xs)
  then show ?case by (cases "xs = []") (simp_all add: chunks_step)
qed

lemma chunks_bound: "c \<in> set (chunks n xs) \<Longrightarrow> c \<noteq> [] \<and> length c \<le> n"
proof (induction n xs rule: chunks.induct)
  case (1 n xs)
  show ?case
  proof (cases "n = 0 \<or> xs = []")
    case True
    with 1 show ?thesis by (simp add: chunks.simps)
  next
    case False
    with 1 show ?thesis by (auto simp: chunks_step)
  qed
qed

lemma chunks_eq_Nil_iff: "0 < n \<Longrightarrow> chunks n xs = [] \<longleftrightarrow> xs = []"
  by (cases "xs = []") (simp_all add: chunks_step)

text \<open>The number of chunks is the length divided by the chunk size, rounded up (\<^verbatim>\<open>div_ceil\<close>).\<close>

definition div_ceil :: "nat \<Rightarrow> nat \<Rightarrow> nat" where
  "div_ceil a b = a div b + (if a mod b = 0 then 0 else 1)"

lemma div_ceil_le_iff: "0 < b \<Longrightarrow> div_ceil a b \<le> k \<longleftrightarrow> a \<le> k * b"
proof -
  assume b: "0 < b"
  have a: "a = a div b * b + a mod b" by simp
  show ?thesis
  proof
    assume "div_ceil a b \<le> k"
    then have "(a div b + (if a mod b = 0 then 0 else 1)) * b \<le> k * b"
      by (simp add: div_ceil_def)
    moreover have "a \<le> (a div b + (if a mod b = 0 then 0 else 1)) * b"
      using mod_less_divisor[OF b, of a] div_mult_mod_eq[of a b]
      by (simp only: add_mult_distrib split: if_splits) linarith
    ultimately show "a \<le> k * b" by (rule order_trans[rotated])
  next
    assume le: "a \<le> k * b"
    have "a div b * b < k * b" if "0 < a mod b"
      using that le a by linarith
    moreover have "a div b \<le> k"
      using le b by (metis div_le_mono nonzero_mult_div_cancel_right not_less_zero)
    ultimately show "div_ceil a b \<le> k"
      using b by (auto simp: div_ceil_def Suc_le_eq)
  qed
qed

lemma length_chunks: "0 < n \<Longrightarrow> length (chunks n xs) = div_ceil (length xs) n"
proof (induction n xs rule: chunks.induct)
  case (1 n xs)
  show ?case
  proof (cases "xs = []")
    case True
    then show ?thesis by (simp add: div_ceil_def)
  next
    case False
    with 1 have step: "length (chunks n xs) = Suc (div_ceil (length xs - n) n)"
      by (simp add: chunks_step)
    show ?thesis
    proof (cases "length xs \<le> n")
      case True
      with False step 1(2) show ?thesis
        by (cases "length xs = n") (auto simp: div_ceil_def)
    next
      case gt: False
      with step 1(2) show ?thesis
        by (simp add: div_ceil_def le_div_geq le_mod_geq)
    qed
  qed
qed

section \<open>Time\<close>

text \<open>Instants and durations are numbers of nanoseconds.\<close>

definition secs :: "nat \<Rightarrow> nat" where "secs n = n * 1000000000"

end
