(* ===== verification/Qcp_Wire.thy ===== *)
theory Qcp_Wire
  imports Prelude
begin

text \<open>
  The wire format of the QCP transport (\<^verbatim>\<open>cross233-qcp/src/lib.rs\<close>, the section ``Wire
  format''): the constants, the stream classes, the packet and its two codecs.
\<close>

section \<open>Constants\<close>

definition MAGIC :: bytes where
  [wire_simps]: "MAGIC = [0x51, 0x43, 0x50, 0x31]"

definition HEADER_LEN :: nat where
  [wire_simps]: "HEADER_LEN = 18"

definition MAX_PACKET :: nat where
  [wire_simps]: "MAX_PACKET = 1400"

definition MAX_PAYLOAD :: nat where
  [wire_simps]: "MAX_PAYLOAD = MAX_PACKET - HEADER_LEN"

definition MAX_FRAGMENT_COUNT :: nat where
  [wire_simps]: "MAX_FRAGMENT_COUNT = 8192"

definition FLAG_SYN :: u8 where [wire_simps]: "FLAG_SYN = 0x01"
definition FLAG_ACK :: u8 where [wire_simps]: "FLAG_ACK = 0x02"
definition FLAG_DATA :: u8 where [wire_simps]: "FLAG_DATA = 0x04"
definition FLAG_FIN :: u8 where [wire_simps]: "FLAG_FIN = 0x08"
definition FLAG_PING :: u8 where [wire_simps]: "FLAG_PING = 0x10"
definition FLAG_PONG :: u8 where [wire_simps]: "FLAG_PONG = 0x20"

section \<open>Stream classes and packets\<close>

datatype stream = Realtime | Critical | Batch

definition stream_as_u8 :: "stream \<Rightarrow> u8" where
  "stream_as_u8 s = (case s of Realtime \<Rightarrow> 1 | Critical \<Rightarrow> 2 | Batch \<Rightarrow> 3)"

definition stream_from_u8 :: "u8 \<Rightarrow> stream" where
  "stream_from_u8 v = (if v = 1 then Realtime else if v = 2 then Critical else Batch)"

record packet =
  flags :: u8
  stream_of :: stream
  msg_id :: u32
  frag_index :: u16
  frag_total :: u16
  payload :: bytes

definition has_flag :: "packet \<Rightarrow> u8 \<Rightarrow> bool" where
  "has_flag p f \<longleftrightarrow> flags p AND f \<noteq> 0"

section \<open>Codecs\<close>

definition encode :: "packet \<Rightarrow> bytes" where
  "encode p = MAGIC @ [flags p] @ [stream_as_u8 (stream_of p)] @ put_u32 (msg_id p)
     @ put_u16 (frag_index p) @ put_u16 (frag_total p)
     @ put_u32 (of_nat (length (payload p))) @ payload p"

definition decode :: "bytes \<Rightarrow> packet option" where
  "decode buf =
     (if length buf < HEADER_LEN \<or> take 4 buf \<noteq> MAGIC then None
      else
        let fl = buf ! 4;
            st = stream_from_u8 (buf ! 5);
            mid = u32_from_be (buf ! 6) (buf ! 7) (buf ! 8) (buf ! 9);
            fi = u16_from_be (buf ! 10) (buf ! 11);
            ft = u16_from_be (buf ! 12) (buf ! 13);
            len = unat (u32_from_be (buf ! 14) (buf ! 15) (buf ! 16) (buf ! 17))
        in if len > MAX_PAYLOAD \<or> length buf \<noteq> HEADER_LEN + len then None
           else if fl AND FLAG_DATA \<noteq> 0
             \<and> (ft = 0 \<or> fi \<ge> ft \<or> unat ft > MAX_FRAGMENT_COUNT) then None
           else Some \<lparr>flags = fl, stream_of = st, msg_id = mid, frag_index = fi, frag_total = ft,
                      payload = take len (drop HEADER_LEN buf)\<rparr>)"

section \<open>Correctness of the codecs\<close>

lemma MAX_PAYLOAD_eq: "MAX_PAYLOAD = 1382"
  by (simp add: wire_simps)

lemma MAX_PAYLOAD_pos [simp]: "0 < MAX_PAYLOAD"
  by (simp add: MAX_PAYLOAD_eq)

lemma stream_from_as [simp]: "stream_from_u8 (stream_as_u8 s) = s"
  by (cases s) (simp_all add: stream_as_u8_def stream_from_u8_def)

lemma stream_as_from: "v \<in> {1, 2, 3} \<Longrightarrow> stream_as_u8 (stream_from_u8 v) = v"
  by (auto simp: stream_as_u8_def stream_from_u8_def)

text \<open>What the receiving side may assume of a packet: the payload fits, and a data packet names a
  fragment within a total between 1 and \<^const>\<open>MAX_FRAGMENT_COUNT\<close>.\<close>

definition packet_wf :: "packet \<Rightarrow> bool" where
  "packet_wf p \<longleftrightarrow> length (payload p) \<le> MAX_PAYLOAD \<and>
     (has_flag p FLAG_DATA \<longrightarrow>
        frag_index p < frag_total p \<and> unat (frag_total p) \<le> MAX_FRAGMENT_COUNT)"

lemma length_encode [simp]: "length (encode p) = HEADER_LEN + length (payload p)"
  by (simp add: encode_def wire_simps)

text \<open>The shape of an encoded packet, byte by byte: what \<^const>\<open>decode\<close> indexes.\<close>

lemma encode_bytes:
  "encode p = [0x51, 0x43, 0x50, 0x31, flags p, stream_as_u8 (stream_of p),
     ucast (drop_bit 24 (msg_id p)), ucast (drop_bit 16 (msg_id p)),
     ucast (drop_bit 8 (msg_id p)), ucast (msg_id p),
     ucast (drop_bit 8 (frag_index p)), ucast (frag_index p),
     ucast (drop_bit 8 (frag_total p)), ucast (frag_total p),
     ucast (drop_bit 24 (of_nat (length (payload p)) :: u32)),
     ucast (drop_bit 16 (of_nat (length (payload p)) :: u32)),
     ucast (drop_bit 8 (of_nat (length (payload p)) :: u32)),
     ucast (of_nat (length (payload p)) :: u32)] @ payload p"
  by (simp add: encode_def MAGIC_def put_u32_def put_u16_def)

lemma decode_encode_iff:
  assumes "length (payload p) < 2 ^ 32"
  shows "decode (encode p) = (if packet_wf p then Some p else None)"
proof -
  have "take 4 (encode p) = MAGIC" by (simp add: encode_bytes MAGIC_def)
  moreover have "drop HEADER_LEN (encode p) = payload p"
    by (simp add: encode_bytes HEADER_LEN_def)
  moreover have "unat (of_nat (length (payload p)) :: u32) = length (payload p)"
    using assms by simp
  ultimately show ?thesis
    unfolding decode_def
    by (auto simp: encode_bytes[of p] Let_def packet_wf_def has_flag_def HEADER_LEN_def not_le
        not_less simp flip: linorder_not_le)
qed

text \<open>\<^bold>\<open>C1\<close>: round trip of the wire format. Every well-formed packet survives \<open>encode\<close>
  followed by \<open>decode\<close> unchanged.\<close>

theorem decode_encode: "packet_wf p \<Longrightarrow> decode (encode p) = Some p"
  by (subst decode_encode_iff) (simp_all add: packet_wf_def MAX_PAYLOAD_eq)

theorem decode_encode_witness:
  "packet_wf \<lparr>flags = FLAG_DATA, stream_of = Critical, msg_id = 7, frag_index = 1,
      frag_total = 3, payload = [1, 2, 3]\<rparr>
   \<and> decode (encode \<lparr>flags = FLAG_DATA, stream_of = Critical, msg_id = 7, frag_index = 1,
      frag_total = 3, payload = [1, 2, 3]\<rparr>)
     = Some \<lparr>flags = FLAG_DATA, stream_of = Critical, msg_id = 7, frag_index = 1,
      frag_total = 3, payload = [1, 2, 3]\<rparr>"
proof -
  have wf: "packet_wf \<lparr>flags = FLAG_DATA, stream_of = Critical, msg_id = 7, frag_index = 1,
      frag_total = 3, payload = [1, 2, 3]\<rparr>"
    by (simp add: packet_wf_def has_flag_def wire_simps)
  show ?thesis using wf decode_encode[OF wf] by simp
qed

lemma header_split:
  assumes "18 \<le> length b"
  obtains x0 x1 x2 x3 x4 x5 x6 x7 x8 x9
    x10 x11 x12 x13 x14 x15 x16 x17 rest
  where "b = [x0, x1, x2, x3, x4, x5, x6, x7, x8, x9,
    x10, x11, x12, x13, x14, x15, x16, x17] @ rest"
  using assms by (auto simp: numeral_eq_Suc Suc_le_length_iff)

text \<open>What \<open>decode\<close> accepts is a well-formed packet, and it is the canonical encoding of
  that packet except for the stream byte, where every value other than 1 and 2 reads as
  \<open>Batch\<close>.\<close>

theorem decode_sound:
  assumes "decode b = Some p"
  shows "packet_wf p \<and> encode p = b[5 := stream_as_u8 (stream_of p)]"
proof -
  from assms have len: "18 \<le> length b"
    by (auto simp: decode_def HEADER_LEN_def split: if_splits)
  obtain x0 x1 x2 x3 x4 x5 x6 x7 x8 x9
    x10 x11 x12 x13 x14 x15 x16 x17 rest
    where b: "b = [x0, x1, x2, x3, x4, x5, x6, x7, x8, x9,
    x10, x11, x12, x13, x14, x15, x16, x17] @ rest"
    by (rule header_split[OF len])
  let ?len = "unat (u32_from_be x14 x15 x16 x17)"
  from assms have magic: "[x0, x1, x2, x3] = MAGIC"
    by (auto simp: b decode_def split: if_splits)
  with assms have p: "p = \<lparr>flags = x4, stream_of = stream_from_u8 x5,
      msg_id = u32_from_be x6 x7 x8 x9, frag_index = u16_from_be x10 x11,
      frag_total = u16_from_be x12 x13, payload = rest\<rparr>"
    and size: "?len \<le> MAX_PAYLOAD" "length rest = ?len"
    and wf: "x4 AND FLAG_DATA \<noteq> 0 \<Longrightarrow> u16_from_be x10 x11 < u16_from_be x12 x13
       \<and> unat (u16_from_be x12 x13) \<le> MAX_FRAGMENT_COUNT"
    by (auto simp: b decode_def HEADER_LEN_def Let_def not_le not_less split: if_splits)
  have "packet_wf p"
    using p size wf by (auto simp: packet_wf_def has_flag_def)
  moreover have "encode p = b[5 := stream_as_u8 (stream_of p)]"
    unfolding encode_def magic[symmetric] by (simp add: p b size)
  ultimately show ?thesis ..
qed

theorem decode_sound_witness:
  "\<exists>p. decode [0x51, 0x43, 0x50, 0x31, 2, 9, 0, 0, 0, 5, 0, 0, 0, 0, 0, 0, 0, 0] = Some p \<and> packet_wf p
     \<and> encode p = [0x51, 0x43, 0x50, 0x31, 2, 3, 0, 0, 0, 5, 0, 0, 0, 0, 0, 0, 0, 0]"
proof -
  let ?b = "[0x51, 0x43, 0x50, 0x31, 2, 9, 0, 0, 0, 5, 0, 0, 0, 0, 0, 0, 0, 0] :: bytes"
  let ?p = "\<lparr>flags = 2, stream_of = Batch, msg_id = 5, frag_index = 0, frag_total = 0, payload = []\<rparr>"
  have d: "decode ?b = Some ?p"
    by (simp add: decode_def wire_simps Let_def stream_from_u8_def u32_from_be_def u16_from_be_def)
  show ?thesis
    using d decode_sound[OF d] by (auto simp: stream_as_u8_def)
qed

end
