(* ===== verification/Hash_Map.thy ===== *)
theory Hash_Map
  imports Prelude
begin

text \<open>
  The standard library's \<^verbatim>\<open>HashMap\<close> (and \<^verbatim>\<open>BTreeMap\<close>, where no order is read), as an
  association list with distinct keys. The list order stands for the iteration order, which the
  standard library leaves unspecified: a theorem that holds for every such list holds for every
  iteration order.

  The contract the components rely on is the locale \<open>dictionary\<close>; it is interpreted on the
  association list below, and the size laws that the components use are proved once inside it.
\<close>

type_synonym ('k, 'v) hmap = "('k \<times> 'v) list"

definition hm_get :: "('k, 'v) hmap \<Rightarrow> 'k \<Rightarrow> 'v option" where
  [hm_defs]: "hm_get m k = map_of m k"

definition hm_insert :: "'k \<Rightarrow> 'v \<Rightarrow> ('k, 'v) hmap \<Rightarrow> ('k, 'v) hmap" where
  [hm_defs]: "hm_insert k v m = AList.update k v m"

definition hm_remove :: "'k \<Rightarrow> ('k, 'v) hmap \<Rightarrow> ('k, 'v) hmap" where
  [hm_defs]: "hm_remove k m = filter (\<lambda>(k', _). k' \<noteq> k) m"

definition hm_contains :: "('k, 'v) hmap \<Rightarrow> 'k \<Rightarrow> bool" where
  [hm_defs]: "hm_contains m k \<longleftrightarrow> hm_get m k \<noteq> None"

definition hm_retain :: "('k \<Rightarrow> 'v \<Rightarrow> bool) \<Rightarrow> ('k, 'v) hmap \<Rightarrow> ('k, 'v) hmap" where
  [hm_defs]: "hm_retain P m = filter (\<lambda>(k, v). P k v) m"

definition hm_len :: "('k, 'v) hmap \<Rightarrow> nat" where
  [hm_defs]: "hm_len m = length m"

definition hm_wf :: "('k, 'v) hmap \<Rightarrow> bool" where
  [hm_defs]: "hm_wf m \<longleftrightarrow> distinct (map fst m)"

section \<open>The contract\<close>

locale dictionary =
  fixes empty :: 'm
    and get :: "'m \<Rightarrow> 'k \<Rightarrow> 'v option"
    and insert :: "'k \<Rightarrow> 'v \<Rightarrow> 'm \<Rightarrow> 'm"
    and remove :: "'k \<Rightarrow> 'm \<Rightarrow> 'm"
    and len :: "'m \<Rightarrow> nat"
    and wf :: "'m \<Rightarrow> bool"
  assumes wf_empty: "wf empty"
    and wf_insert: "wf m \<Longrightarrow> wf (insert k v m)"
    and wf_remove: "wf m \<Longrightarrow> wf (remove k m)"
    and get_empty: "get empty k = None"
    and get_insert: "wf m \<Longrightarrow> get (insert k v m) k' = (if k' = k then Some v else get m k')"
    and get_remove: "wf m \<Longrightarrow> get (remove k m) k' = (if k' = k then None else get m k')"
    and finite_dom: "finite (dom (get m))"
    and len_card: "wf m \<Longrightarrow> len m = card (dom (get m))"
begin

lemma dom_insert: "wf m \<Longrightarrow> dom (get (insert k v m)) = Set.insert k (dom (get m))"
  by (auto simp: dom_def get_insert)

lemma dom_remove: "wf m \<Longrightarrow> dom (get (remove k m)) = dom (get m) - {k}"
  by (auto simp: dom_def get_remove)

lemma len_insert_new: "wf m \<Longrightarrow> get m k = None \<Longrightarrow> len (insert k v m) = Suc (len m)"
  by (simp add: len_card wf_insert dom_insert card_insert_if finite_dom domIff)

lemma len_insert_old: "wf m \<Longrightarrow> get m k = Some v' \<Longrightarrow> len (insert k v m) = len m"
  by (simp add: len_card wf_insert dom_insert insert_absorb domI)

lemma len_insert_le: "wf m \<Longrightarrow> len (insert k v m) \<le> Suc (len m)"
  by (cases "get m k") (simp_all add: len_insert_new len_insert_old)

lemma len_remove: "wf m \<Longrightarrow> get m k = Some v \<Longrightarrow> Suc (len (remove k m)) = len m"
  by (metis len_card wf_remove dom_remove domI finite_dom card_Suc_Diff1)

lemma len_remove_none: "wf m \<Longrightarrow> get m k = None \<Longrightarrow> len (remove k m) = len m"
  by (simp add: len_card wf_remove dom_remove domIff)

lemma len_remove_le: "wf m \<Longrightarrow> len (remove k m) \<le> len m"
  by (simp add: len_card wf_remove dom_remove finite_dom card_mono)

lemma len_pos: "wf m \<Longrightarrow> get m k = Some v \<Longrightarrow> 0 < len m"
  by (auto simp: len_card finite_dom card_gt_0_iff)

end

section \<open>The association list meets the contract\<close>

lemma hm_wf_Nil [simp]: "hm_wf []"
  by (simp add: hm_wf_def)

lemma hm_get_Nil [simp]: "hm_get [] k = None"
  by (simp add: hm_get_def)

lemma hm_get_insert [simp]: "hm_get (hm_insert k v m) k' = (if k' = k then Some v else hm_get m k')"
  by (simp add: hm_get_def hm_insert_def update_conv')

lemma hm_get_remove [simp]: "hm_get (hm_remove k m) k' = (if k' = k then None else hm_get m k')"
  unfolding hm_get_def hm_remove_def by (induction m) auto

lemma hm_wf_insert [simp]: "hm_wf m \<Longrightarrow> hm_wf (hm_insert k v m)"
  by (simp add: hm_wf_def hm_insert_def distinct_update)

lemma hm_wf_filter: "hm_wf m \<Longrightarrow> hm_wf (filter P m)"
  unfolding hm_wf_def by (rule distinct_map_filter)

lemma hm_wf_remove [simp]: "hm_wf m \<Longrightarrow> hm_wf (hm_remove k m)"
  by (simp add: hm_remove_def hm_wf_filter)

lemma hm_wf_retain [simp]: "hm_wf m \<Longrightarrow> hm_wf (hm_retain P m)"
  by (simp add: hm_retain_def hm_wf_filter)

lemma hm_get_retain:
  "hm_wf m \<Longrightarrow> hm_get (hm_retain P m) k = (case hm_get m k of None \<Rightarrow> None
     | Some v \<Rightarrow> if P k v then Some v else None)"
  unfolding hm_get_def hm_retain_def hm_wf_def
  by (induction m) (auto split: option.splits dest: map_of_SomeD simp: rev_image_eqI)

lemma hm_len_dom: "hm_wf m \<Longrightarrow> hm_len m = card (dom (hm_get m))"
proof -
  assume "hm_wf m"
  then have "card (set (map fst m)) = length (map fst m)"
    unfolding hm_wf_def by (rule distinct_card)
  moreover have "dom (hm_get m) = set (map fst m)"
    by (simp add: dom_map_of_conv_image_fst hm_get_def [abs_def])
  ultimately show ?thesis by (simp add: hm_len_def)
qed

interpretation hm: dictionary "[] :: ('k, 'v) hmap" hm_get hm_insert hm_remove hm_len hm_wf
proof unfold_locales
  show "finite (dom (hm_get m))" for m :: "('k, 'v) hmap"
    by (simp add: hm_get_def [abs_def] finite_dom_map_of)
qed (simp_all add: hm_len_dom)

lemma hm_get_in_set: "hm_get m k = Some v \<Longrightarrow> (k, v) \<in> set m"
  by (simp add: hm_get_def map_of_SomeD)

lemma hm_get_iff_set: "hm_wf m \<Longrightarrow> hm_get m k = Some v \<longleftrightarrow> (k, v) \<in> set m"
  by (simp add: hm_get_def hm_wf_def)

lemma hm_contains_iff: "hm_contains m k \<longleftrightarrow> (\<exists>v. hm_get m k = Some v)"
  by (simp add: hm_contains_def)

lemma hm_len_Nil [simp]: "hm_len [] = 0"
  by (simp add: hm_len_def)

lemma hm_len_remove_le [simp]: "hm_len (hm_remove k m) \<le> hm_len m"
  by (simp add: hm_len_def hm_remove_def)

end
