(* ===== verification/Qcp_Core.thy ===== *)
theory Qcp_Core
  imports Qcp_Wire Hash_Map
begin

text \<open>
  The per-connection state machine of the QCP transport (\<^verbatim>\<open>cross233-qcp/src/lib.rs\<close>, from
  ``Per-connection core state'' to ``Public connection handle''). \<^verbatim>\<open>Core\<close> and the
  \<^verbatim>\<open>CoreState\<close> behind its mutex are one record: every operation below is one critical section, or
  a composition of critical sections that is named as such. Unbounded channels are lists, oldest
  message first; their receivers are alive, so a send succeeds. A \<^verbatim>\<open>Notify\<close> keeps no permit
  under \<^verbatim>\<open>notify_waiters\<close>, so its state is only the log of the wake-ups.

  Instants and durations are nanoseconds; \<^verbatim>\<open>duration_since\<close> saturates at zero, as subtraction on
  \<open>nat\<close> does. The \<^verbatim>\<open>f64\<close> estimates are exact reals. A panic (an index out of range) is a value.
\<close>

named_theorems core_defs \<open>definitions of the core's operations\<close>

type_synonym instant = nat
type_synonym duration = nat

definition from_millis :: "nat \<Rightarrow> duration" where
  "from_millis n = n * 1000000"

section \<open>State\<close>

definition MAX_ASSEMBLERS :: nat where "MAX_ASSEMBLERS = 256"
definition MIN_CWND :: nat where "MIN_CWND = 2"
definition INITIAL_CWND :: nat where "INITIAL_CWND = 32"
definition MAX_CWND :: nat where "MAX_CWND = 4096"
definition INITIAL_SS_THRESH :: nat where "INITIAL_SS_THRESH = 256"
definition MIN_RTO_MS :: nat where "MIN_RTO_MS = 50"
definition MAX_RTO_MS :: nat where "MAX_RTO_MS = 2000"
definition KEEPALIVE_INTERVAL_MS :: nat where "KEEPALIVE_INTERVAL_MS = 1000"
definition DEAD_TIMEOUT_MS :: nat where "DEAD_TIMEOUT_MS = 8000"
definition MAX_RETRANSMIT :: nat where "MAX_RETRANSMIT = 15"
definition MAX_DELIVERED :: nat where "MAX_DELIVERED = 65536"

lemmas const_defs = MAX_ASSEMBLERS_def MIN_CWND_def INITIAL_CWND_def MAX_CWND_def
  INITIAL_SS_THRESH_def MIN_RTO_MS_def MAX_RTO_MS_def KEEPALIVE_INTERVAL_MS_def
  DEAD_TIMEOUT_MS_def MAX_RETRANSMIT_def MAX_DELIVERED_def

datatype qcp_error =
    Io string
  | Timeout
  | Closed
  | Handshake string
  | TooLarge nat nat
  | ConnectionFailed string

datatype panic = IndexOutOfBounds

datatype notify = WindowNotify | FinNotify | HandshakedNotify | CloseNotify

record inflight =
  if_data :: bytes
  if_stream :: stream
  if_frags :: u16
  sent_at :: instant
  retransmitted :: bool

record assembler =
  frags :: "bytes option list"
  got :: nat

record core =
  in_flight :: "(u32, inflight) hmap"
  assemblers :: "(u32, assembler) hmap"
  delivered :: "(u32, unit) hmap"
  deliver_tx :: "(bytes \<times> u8) list"
  next_msg_id :: u32
  last_realtime :: u32
  cwnd :: nat
  ssthresh :: nat
  ca_ack :: nat
  srtt_ms :: real
  rttvar_ms :: real
  rto :: duration
  rtt_init :: bool
  retrans :: "(u32, nat) hmap"
  fin_received :: bool
  dead :: bool
  dead_reason :: "string option"
  last_activity :: instant
  handshaked :: bool
  closed :: bool
  data_tx :: "bytes list"
  ctrl_tx :: "bytes list"
  woken :: "notify list"

definition new_core :: "nat \<Rightarrow> duration \<Rightarrow> instant \<Rightarrow> core" where
  "new_core window rto0 now = \<lparr>
     in_flight = [], assemblers = [], delivered = [], deliver_tx = [],
     next_msg_id = 1, last_realtime = 0,
     cwnd = (if window = 0 then INITIAL_CWND else min window MAX_CWND),
     ssthresh = (if window = 0 then INITIAL_SS_THRESH else min (window * 2) MAX_CWND),
     ca_ack = 0, srtt_ms = 100, rttvar_ms = 50, rto = rto0, rtt_init = False, retrans = [],
     fin_received = False, dead = False, dead_reason = None, last_activity = now,
     handshaked = False, closed = False, data_tx = [], ctrl_tx = [], woken = []\<rparr>"

section \<open>Effects\<close>

definition notify_waiters :: "notify \<Rightarrow> core \<Rightarrow> core" where
  [core_defs]: "notify_waiters w c = c\<lparr>woken := woken c @ [w]\<rparr>"

definition send_ctrl :: "packet \<Rightarrow> core \<Rightarrow> core" where
  [core_defs]: "send_ctrl p c = c\<lparr>ctrl_tx := ctrl_tx c @ [encode p]\<rparr>"

definition deliver :: "bytes \<Rightarrow> stream \<Rightarrow> core \<Rightarrow> core" where
  [core_defs]: "deliver m s c = c\<lparr>deliver_tx := deliver_tx c @ [(m, stream_as_u8 s)]\<rparr>"

definition control_packet :: "u8 \<Rightarrow> stream \<Rightarrow> u32 \<Rightarrow> packet" where
  "control_packet fl s mid =
     \<lparr>flags = fl, stream_of = s, msg_id = mid, frag_index = 0, frag_total = 0, payload = []\<rparr>"

section \<open>Round-trip time, liveness, pump\<close>

definition update_rto :: "duration \<Rightarrow> core \<Rightarrow> core" where
  "update_rto sample st =
     (let s = real sample / 1000000;
          st1 = (if \<not> rtt_init st
                 then st\<lparr>srtt_ms := s, rttvar_ms := s / 2, rtt_init := True\<rparr>
                 else (let diff = srtt_ms st - s
                       in st\<lparr>srtt_ms := srtt_ms st + 1/8 * diff,
                             rttvar_ms := (1 - 1/4) * rttvar_ms st + 1/4 * \<bar>diff\<bar>\<rparr>));
          rto_ms = max (real MIN_RTO_MS) (min (real MAX_RTO_MS) (srtt_ms st1 + 4 * rttvar_ms st1))
      in st1\<lparr>rto := from_millis (nat \<lfloor>rto_ms\<rfloor>)\<rparr>)"

definition mark_dead :: "string \<Rightarrow> core \<Rightarrow> core" where
  [core_defs]: "mark_dead reason c =
     notify_waiters WindowNotify (c\<lparr>dead := True, dead_reason := Some reason, closed := True\<rparr>)"

text \<open>One turn of the liveness loop: the new core, and whether the loop goes on.\<close>

definition liveness_tick :: "instant \<Rightarrow> core \<Rightarrow> core \<times> bool" where
  "liveness_tick now c =
     (if closed c then (c, False)
      else
        let idle = now - last_activity c;
            c1 = (if from_millis DEAD_TIMEOUT_MS \<le> idle
                  then mark_dead ''peer idle timeout'' c else c);
            should_ping = (if from_millis DEAD_TIMEOUT_MS \<le> idle then False
                           else from_millis KEEPALIVE_INTERVAL_MS \<le> idle)
        in if closed c1 then (notify_waiters CloseNotify c1, False)
           else if should_ping then (send_ctrl (control_packet FLAG_PING Batch 0) c1, True)
           else (c1, True))"

text \<open>One turn of the outbound pump: control packets first, then data.\<close>

definition pump_step :: "core \<Rightarrow> (bytes \<times> core) option" where
  "pump_step c =
     (case ctrl_tx c of
        p # ps \<Rightarrow> Some (p, c\<lparr>ctrl_tx := ps\<rparr>)
      | [] \<Rightarrow> (case data_tx c of
                 p # ps \<Rightarrow> Some (p, c\<lparr>data_tx := ps\<rparr>)
               | [] \<Rightarrow> None))"

section \<open>Inbound packets\<close>

definition grow_window :: "core \<Rightarrow> core" where
  "grow_window c =
     (if cwnd c < ssthresh c then c\<lparr>cwnd := min (cwnd c + 1) MAX_CWND\<rparr>
      else if ca_ack c + 1 \<ge> cwnd c
           then c\<lparr>ca_ack := 0, cwnd := min (cwnd c + 1) MAX_CWND\<rparr>
           else c\<lparr>ca_ack := ca_ack c + 1\<rparr>)"

definition handle_ack :: "instant \<Rightarrow> packet \<Rightarrow> core \<Rightarrow> core" where
  "handle_ack now p c =
     (let c1 = (case hm_get (in_flight c) (msg_id p) of
                  None \<Rightarrow> c
                | Some infl \<Rightarrow>
                    let c2 = c\<lparr>in_flight := hm_remove (msg_id p) (in_flight c)\<rparr>;
                        c3 = (if \<not> retransmitted infl then update_rto (now - sent_at infl) c2
                              else c2);
                        c4 = c3\<lparr>retrans := hm_remove (msg_id p) (retrans c3)\<rparr>
                    in grow_window c4)
      in notify_waiters WindowNotify (c1\<lparr>last_activity := now\<rparr>))"

definition handle_realtime :: "packet \<Rightarrow> core \<Rightarrow> core" where
  "handle_realtime p c =
     (if msg_id p - last_realtime c < 0x80000000 \<or> last_realtime c = 0
      then deliver (payload p) (stream_of p) (c\<lparr>last_realtime := msg_id p\<rparr>)
      else c)"

definition flatten_frags :: "bytes option list \<Rightarrow> bytes" where
  "flatten_frags fs = concat (map (\<lambda>f. case f of None \<Rightarrow> [] | Some b \<Rightarrow> b) fs)"

definition complete_message :: "packet \<Rightarrow> core \<Rightarrow> core" where
  "complete_message p c =
     (let ack = control_packet FLAG_ACK (stream_of p) (msg_id p)
      in if hm_contains (delivered c) (msg_id p) then send_ctrl ack c
         else
           let msg = (case hm_get (assemblers c) (msg_id p) of
                        None \<Rightarrow> [] | Some a \<Rightarrow> flatten_frags (frags a));
               dl = hm_insert (msg_id p) () (delivered c);
               dl' = (if hm_len dl > MAX_DELIVERED then [] else dl)
           in send_ctrl ack
                (deliver msg (stream_of p)
                  (c\<lparr>assemblers := hm_remove (msg_id p) (assemblers c), delivered := dl'\<rparr>)))"

definition handle_reliable :: "packet \<Rightarrow> core \<Rightarrow> panic + core" where
  "handle_reliable p c =
     (let total = unat (frag_total p); i = unat (frag_index p)
      in if \<not> hm_contains (assemblers c) (msg_id p) \<and> hm_len (assemblers c) \<ge> MAX_ASSEMBLERS
         then Inr c
         else
           let asm = (case hm_get (assemblers c) (msg_id p) of
                        Some a \<Rightarrow> a | None \<Rightarrow> \<lparr>frags = replicate total None, got = 0\<rparr>)
           in if i \<ge> length (frags asm) then Inl IndexOutOfBounds
              else
                let asm' = (if frags asm ! i = None
                            then asm\<lparr>frags := (frags asm)[i := Some (payload p)],
                                     got := got asm + 1\<rparr>
                            else asm);
                    c1 = c\<lparr>assemblers := hm_insert (msg_id p) asm' (assemblers c)\<rparr>
                in if got asm' = total then Inr (complete_message p c1) else Inr c1)"

definition handle_packet :: "instant \<Rightarrow> packet \<Rightarrow> core \<Rightarrow> panic + core" where
  "handle_packet now p c0 =
     (if closed c0 then Inr c0
      else
        let c = c0\<lparr>last_activity := now\<rparr>
        in if has_flag p FLAG_SYN
           then Inr (notify_waiters HandshakedNotify (c\<lparr>handshaked := True\<rparr>))
           else if has_flag p FLAG_FIN
           then Inr (notify_waiters CloseNotify (notify_waiters FinNotify
                  (notify_waiters WindowNotify (c\<lparr>fin_received := True, closed := True\<rparr>))))
           else if has_flag p FLAG_PING
           then Inr (send_ctrl (control_packet FLAG_PONG (stream_of p) (msg_id p)) c)
           else if has_flag p FLAG_PONG then Inr c
           else if has_flag p FLAG_ACK then Inr (handle_ack now p c)
           else if \<not> has_flag p FLAG_DATA then Inr c
           else (case stream_of p of
                   Realtime \<Rightarrow> Inr (handle_realtime p c)
                 | _ \<Rightarrow> handle_reliable p c))"

section \<open>Outbound data\<close>

text \<open>The data packets of one message (the loops of \<^verbatim>\<open>send_frags\<close> and of the real-time branch of
  \<^verbatim>\<open>send_stream\<close>): indices and total are cast to \<^verbatim>\<open>u16\<close>.\<close>

definition fragments :: "u32 \<Rightarrow> bytes \<Rightarrow> stream \<Rightarrow> packet list" where
  "fragments mid data s =
     (let cs = chunks MAX_PAYLOAD data; total = of_nat (length cs)
      in map (\<lambda>(i, ch). \<lparr>flags = FLAG_DATA, stream_of = s, msg_id = mid, frag_index = of_nat i,
                         frag_total = total, payload = ch\<rparr>) (enumerate 0 cs))"

definition send_frags :: "u32 \<Rightarrow> bytes \<Rightarrow> stream \<Rightarrow> core \<Rightarrow> core" where
  "send_frags mid data s c = c\<lparr>data_tx := data_tx c @ map encode (fragments mid data s)\<rparr>"

section \<open>Retransmission\<close>

definition retrans_count :: "core \<Rightarrow> u32 \<Rightarrow> nat" where
  "retrans_count c mid = (case hm_get (retrans c) mid of None \<Rightarrow> 0 | Some n \<Rightarrow> n)"

definition retransmit_due :: "instant \<Rightarrow> core \<Rightarrow> (u32 \<times> inflight) list" where
  "retransmit_due now c = filter (\<lambda>(mid, infl). rto c \<le> now - sent_at infl) (in_flight c)"

definition retransmit_collect :: "instant \<Rightarrow> core \<Rightarrow> (u32 \<times> inflight) list \<times> bool" where
  "retransmit_collect now c =
     (let due = retransmit_due now c
      in (filter (\<lambda>(mid, infl). \<not> retrans_count c mid + 1 > MAX_RETRANSMIT) due,
          list_ex (\<lambda>(mid, infl). retrans_count c mid + 1 > MAX_RETRANSMIT) due))"

definition retransmit_one :: "instant \<Rightarrow> u32 \<times> inflight \<Rightarrow> core \<Rightarrow> core" where
  "retransmit_one now e c0 =
     (let (mid, infl0) = e;
          c = send_frags mid (if_data infl0) (if_stream infl0) c0;
          c1 = (case hm_get (in_flight c) mid of
                  None \<Rightarrow> c
                | Some infl \<Rightarrow> c\<lparr>in_flight := hm_insert mid (infl\<lparr>sent_at := now, retransmitted := True\<rparr>)
                                            (in_flight c)\<rparr>)
      in c1\<lparr>retrans := hm_insert mid (retrans_count c1 mid + 1) (retrans c1),
            ssthresh := max (cwnd c1 div 2) MIN_CWND, cwnd := MIN_CWND, ca_ack := 0\<rparr>)"

text \<open>One round of the retransmit loop with no packet handled in between: the new core, and
  whether the loop goes on.\<close>

definition retransmit_round :: "instant \<Rightarrow> core \<Rightarrow> core \<times> bool" where
  "retransmit_round now c =
     (if closed c then (c, False)
      else
        let (to_resend, give_up) = retransmit_collect now c
        in if give_up
           then (notify_waiters CloseNotify (mark_dead ''max retransmit exceeded'' c), False)
           else let c1 = fold (retransmit_one now) to_resend c in (c1, \<not> closed c1))"

section \<open>The connection handle\<close>

datatype send_outcome = SendErr qcp_error | SendBlocked | SendOk core

definition closed_error :: "core \<Rightarrow> qcp_error option" where
  "closed_error c =
     (if closed c then Some Closed
      else if dead c then Some (ConnectionFailed (case dead_reason c of
             None \<Rightarrow> ''connection dead'' | Some r \<Rightarrow> r))
      else None)"

text \<open>The congestion gate of a reliable send: an error, space, or a wait for \<^verbatim>\<open>window_notify\<close>.\<close>

datatype gate = GateErr qcp_error | GateWait | GatePass

definition send_gate :: "core \<Rightarrow> gate" where
  "send_gate c =
     (case closed_error c of
        Some e \<Rightarrow> GateErr e
      | None \<Rightarrow> if hm_len (in_flight c) < cwnd c \<and> \<not> dead c then GatePass else GateWait)"

definition alloc_msg_id :: "core \<Rightarrow> u32 \<times> core" where
  "alloc_msg_id c =
     (let n = next_msg_id c + 1
      in (next_msg_id c, c\<lparr>next_msg_id := (if n = 0 then 1 else n)\<rparr>))"

definition send_commit :: "instant \<Rightarrow> bytes \<Rightarrow> stream \<Rightarrow> core \<Rightarrow> send_outcome" where
  "send_commit now data s c0 =
     (case closed_error c0 of
        Some e \<Rightarrow> SendErr e
      | None \<Rightarrow>
          let (mid, c) = alloc_msg_id c0
          in case s of
               Realtime \<Rightarrow> SendOk (send_frags mid data Realtime c)
             | _ \<Rightarrow> SendOk (send_frags mid data s
                 (c\<lparr>in_flight := hm_insert mid
                      \<lparr>if_data = data, if_stream = s,
                       if_frags = of_nat (div_ceil (length data) MAX_PAYLOAD),
                       sent_at = now, retransmitted = False\<rparr> (in_flight c),
                    last_activity := now\<rparr>)))"

definition send_stream :: "instant \<Rightarrow> bytes \<Rightarrow> stream \<Rightarrow> core \<Rightarrow> send_outcome" where
  "send_stream now data s c =
     (if length data > MAX_PAYLOAD * 65535
      then SendErr (TooLarge (length data) (MAX_PAYLOAD * 65535))
      else if data = [] then SendOk c
      else if s = Realtime then send_commit now data s c
      else (case send_gate c of
              GateErr e \<Rightarrow> SendErr e
            | GateWait \<Rightarrow> SendBlocked
            | GatePass \<Rightarrow> send_commit now data s c))"

definition send :: "instant \<Rightarrow> bytes \<Rightarrow> core \<Rightarrow> send_outcome" where
  "send now data c = send_stream now data Batch c"

text \<open>What ends the wait of \<^verbatim>\<open>recv\<close>: a delivered message (or the end of the channel), the time-out,
  or the close notification.\<close>

datatype recv_event = RecvReady | RecvTimeout | RecvClosed

definition recv :: "recv_event \<Rightarrow> nat \<Rightarrow> core \<Rightarrow> (qcp_error + bytes \<times> u8) \<times> core" where
  "recv ev cap c =
     (case ev of
        RecvReady \<Rightarrow> (case deliver_tx c of
            (m, s) # ms \<Rightarrow> (Inr (take (min (length m) cap) m, s), c\<lparr>deliver_tx := ms\<rparr>)
          | [] \<Rightarrow> (Inl Closed, c))
      | RecvTimeout \<Rightarrow> (Inl Timeout, c)
      | RecvClosed \<Rightarrow>
          (Inl (if dead c then ConnectionFailed (case dead_reason c of
                  None \<Rightarrow> ''connection dead'' | Some r \<Rightarrow> r) else Closed), c))"

definition close :: "core \<Rightarrow> core" where
  "close c = send_ctrl (control_packet FLAG_FIN Batch 0)
     (notify_waiters CloseNotify (notify_waiters WindowNotify
       (c\<lparr>closed := True, in_flight := [], assemblers := []\<rparr>)))"

end
