(* ===== verification/Qcp_Invariant.thy ===== *)
theory Qcp_Invariant
  imports Qcp_Core
begin

text \<open>
  The invariant of the QCP core, and that every operation of \<^verbatim>\<open>cross233-qcp/src/lib.rs\<close> keeps it:
  the maps keep distinct keys and bounded sizes, the congestion window and the retransmission
  timeout stay in their ranges, retransmit counts never pass the budget, a dead connection is
  closed. The operations together are the step relation \<open>core_step\<close>; the invariant holds in every
  reachable core.
\<close>

section \<open>Frame rules\<close>

lemma update_rto_frame [simp]:
  "in_flight (update_rto d c) = in_flight c" "assemblers (update_rto d c) = assemblers c"
  "delivered (update_rto d c) = delivered c" "deliver_tx (update_rto d c) = deliver_tx c"
  "next_msg_id (update_rto d c) = next_msg_id c" "last_realtime (update_rto d c) = last_realtime c"
  "cwnd (update_rto d c) = cwnd c" "ssthresh (update_rto d c) = ssthresh c"
  "ca_ack (update_rto d c) = ca_ack c" "retrans (update_rto d c) = retrans c"
  "dead (update_rto d c) = dead c" "closed (update_rto d c) = closed c"
  "data_tx (update_rto d c) = data_tx c" "ctrl_tx (update_rto d c) = ctrl_tx c"
  "dead_reason (update_rto d c) = dead_reason c" "woken (update_rto d c) = woken c"
  by (simp_all add: update_rto_def Let_def)

lemma grow_window_frame [simp]:
  "in_flight (grow_window c) = in_flight c" "assemblers (grow_window c) = assemblers c"
  "delivered (grow_window c) = delivered c" "deliver_tx (grow_window c) = deliver_tx c"
  "next_msg_id (grow_window c) = next_msg_id c" "ssthresh (grow_window c) = ssthresh c"
  "retrans (grow_window c) = retrans c" "dead (grow_window c) = dead c"
  "closed (grow_window c) = closed c" "rto (grow_window c) = rto c"
  "data_tx (grow_window c) = data_tx c" "ctrl_tx (grow_window c) = ctrl_tx c"
  by (simp_all add: grow_window_def)

lemma notify_waiters_frame [simp]:
  "in_flight (notify_waiters w c) = in_flight c" "assemblers (notify_waiters w c) = assemblers c"
  "delivered (notify_waiters w c) = delivered c" "deliver_tx (notify_waiters w c) = deliver_tx c"
  "next_msg_id (notify_waiters w c) = next_msg_id c" "cwnd (notify_waiters w c) = cwnd c"
  "ssthresh (notify_waiters w c) = ssthresh c" "retrans (notify_waiters w c) = retrans c"
  "dead (notify_waiters w c) = dead c" "closed (notify_waiters w c) = closed c"
  "rto (notify_waiters w c) = rto c" "ctrl_tx (notify_waiters w c) = ctrl_tx c"
  "data_tx (notify_waiters w c) = data_tx c" "dead_reason (notify_waiters w c) = dead_reason c"
  by (simp_all add: notify_waiters_def)

lemma send_ctrl_frame [simp]:
  "in_flight (send_ctrl p c) = in_flight c" "assemblers (send_ctrl p c) = assemblers c"
  "delivered (send_ctrl p c) = delivered c" "deliver_tx (send_ctrl p c) = deliver_tx c"
  "next_msg_id (send_ctrl p c) = next_msg_id c" "cwnd (send_ctrl p c) = cwnd c"
  "ssthresh (send_ctrl p c) = ssthresh c" "retrans (send_ctrl p c) = retrans c"
  "dead (send_ctrl p c) = dead c" "closed (send_ctrl p c) = closed c"
  "rto (send_ctrl p c) = rto c" "ctrl_tx (send_ctrl p c) = ctrl_tx c @ [encode p]"
  "data_tx (send_ctrl p c) = data_tx c" "dead_reason (send_ctrl p c) = dead_reason c"
  by (simp_all add: send_ctrl_def)

lemma deliver_frame [simp]:
  "in_flight (deliver m s c) = in_flight c" "assemblers (deliver m s c) = assemblers c"
  "delivered (deliver m s c) = delivered c" "next_msg_id (deliver m s c) = next_msg_id c"
  "deliver_tx (deliver m s c) = deliver_tx c @ [(m, stream_as_u8 s)]"
  "cwnd (deliver m s c) = cwnd c" "ssthresh (deliver m s c) = ssthresh c"
  "retrans (deliver m s c) = retrans c" "dead (deliver m s c) = dead c"
  "closed (deliver m s c) = closed c" "rto (deliver m s c) = rto c"
  "ctrl_tx (deliver m s c) = ctrl_tx c" "data_tx (deliver m s c) = data_tx c"
  by (simp_all add: deliver_def)

lemma send_frags_frame [simp]:
  "in_flight (send_frags i d s c) = in_flight c" "assemblers (send_frags i d s c) = assemblers c"
  "delivered (send_frags i d s c) = delivered c" "deliver_tx (send_frags i d s c) = deliver_tx c"
  "next_msg_id (send_frags i d s c) = next_msg_id c" "cwnd (send_frags i d s c) = cwnd c"
  "ssthresh (send_frags i d s c) = ssthresh c" "retrans (send_frags i d s c) = retrans c"
  "dead (send_frags i d s c) = dead c" "closed (send_frags i d s c) = closed c"
  "rto (send_frags i d s c) = rto c" "ctrl_tx (send_frags i d s c) = ctrl_tx c"
  "data_tx (send_frags i d s c) = data_tx c @ map encode (fragments i d s)"
  by (simp_all add: send_frags_def)

section \<open>The invariant\<close>

definition count_some :: "'a option list \<Rightarrow> nat" where
  "count_some fs = length (filter (\<lambda>f. f \<noteq> None) fs)"

definition assembler_ok :: "assembler \<Rightarrow> bool" where
  "assembler_ok a \<longleftrightarrow> frags a \<noteq> [] \<and> length (frags a) \<le> MAX_FRAGMENT_COUNT
     \<and> got a = count_some (frags a)"

definition maps_ok :: "core \<Rightarrow> bool" where
  "maps_ok c \<longleftrightarrow> hm_wf (in_flight c) \<and> hm_wf (assemblers c) \<and> hm_wf (delivered c) \<and> hm_wf (retrans c)
     \<and> hm_len (assemblers c) \<le> MAX_ASSEMBLERS \<and> hm_len (delivered c) \<le> MAX_DELIVERED
     \<and> (\<forall>k a. hm_get (assemblers c) k = Some a \<longrightarrow> assembler_ok a)
     \<and> (\<forall>k n. hm_get (retrans c) k = Some n \<longrightarrow> n \<le> MAX_RETRANSMIT)"

definition ranges_ok :: "core \<Rightarrow> bool" where
  "ranges_ok c \<longleftrightarrow> 1 \<le> cwnd c \<and> cwnd c \<le> MAX_CWND \<and> MIN_CWND \<le> ssthresh c \<and> ssthresh c \<le> MAX_CWND
     \<and> from_millis MIN_RTO_MS \<le> rto c \<and> rto c \<le> from_millis MAX_RTO_MS
     \<and> next_msg_id c \<noteq> 0 \<and> (dead c \<longrightarrow> closed c)"

definition core_ok :: "core \<Rightarrow> bool" where
  "core_ok c \<longleftrightarrow> maps_ok c \<and> ranges_ok c"

lemma core_okI [intro]: "maps_ok c \<Longrightarrow> ranges_ok c \<Longrightarrow> core_ok c"
  by (simp add: core_ok_def)

lemma core_okD: "core_ok c \<Longrightarrow> maps_ok c" "core_ok c \<Longrightarrow> ranges_ok c"
  by (simp_all add: core_ok_def)

text \<open>The two halves depend on some fields only; an operation that leaves them alone keeps them.\<close>

lemma maps_ok_cong:
  "in_flight c' = in_flight c \<Longrightarrow> assemblers c' = assemblers c \<Longrightarrow> delivered c' = delivered c
   \<Longrightarrow> retrans c' = retrans c \<Longrightarrow> maps_ok c' = maps_ok c"
  by (simp add: maps_ok_def)

lemma ranges_ok_cong:
  "cwnd c' = cwnd c \<Longrightarrow> ssthresh c' = ssthresh c \<Longrightarrow> rto c' = rto c
   \<Longrightarrow> next_msg_id c' = next_msg_id c \<Longrightarrow> dead c' = dead c \<Longrightarrow> closed c' = closed c
   \<Longrightarrow> ranges_ok c' = ranges_ok c"
  by (simp add: ranges_ok_def)

lemma core_ok_frame [simp]:
  "core_ok (notify_waiters w c) = core_ok c" "core_ok (send_ctrl p c) = core_ok c"
  "core_ok (deliver m s c) = core_ok c" "core_ok (send_frags i d s c) = core_ok c"
  "core_ok (c\<lparr>last_activity := t\<rparr>) = core_ok c" "core_ok (c\<lparr>handshaked := b\<rparr>) = core_ok c"
  "core_ok (c\<lparr>last_realtime := r\<rparr>) = core_ok c" "core_ok (c\<lparr>deliver_tx := ms\<rparr>) = core_ok c"
  "core_ok (c\<lparr>ctrl_tx := q\<rparr>) = core_ok c" "core_ok (c\<lparr>data_tx := q\<rparr>) = core_ok c"
  by (simp_all add: core_ok_def maps_ok_def ranges_ok_def)

lemma update_rto_range:
  "from_millis MIN_RTO_MS \<le> rto (update_rto d c)" "rto (update_rto d c) \<le> from_millis MAX_RTO_MS"
proof -
  let ?x = "max (real MIN_RTO_MS) (min (real MAX_RTO_MS) (srtt_ms (update_rto d c) + 4 * rttvar_ms (update_rto d c)))"
  have r: "rto (update_rto d c) = from_millis (nat \<lfloor>?x\<rfloor>)"
    by (simp add: update_rto_def Let_def)
  have "int MIN_RTO_MS \<le> \<lfloor>?x\<rfloor>" "\<lfloor>?x\<rfloor> \<le> int MAX_RTO_MS"
    by (auto simp: le_floor_iff floor_le_iff const_defs)
  then have "MIN_RTO_MS \<le> nat \<lfloor>?x\<rfloor>" "nat \<lfloor>?x\<rfloor> \<le> MAX_RTO_MS"
    by linarith+
  then show "from_millis MIN_RTO_MS \<le> rto (update_rto d c)"
    "rto (update_rto d c) \<le> from_millis MAX_RTO_MS"
    unfolding r by (simp_all add: from_millis_def)
qed

lemma core_ok_update_rto: "core_ok c \<Longrightarrow> core_ok (update_rto d c)"
  by (simp add: core_ok_def maps_ok_def ranges_ok_def update_rto_range)

lemma core_ok_grow_window: "core_ok c \<Longrightarrow> core_ok (grow_window c)"
  unfolding core_ok_def maps_ok_def ranges_ok_def
  by (auto simp: grow_window_def const_defs)

lemma core_ok_remove_in_flight:
  "core_ok c \<Longrightarrow> core_ok (c\<lparr>in_flight := hm_remove k (in_flight c)\<rparr>)"
  by (simp add: core_ok_def maps_ok_def ranges_ok_def)

lemma core_ok_remove_retrans:
  "core_ok c \<Longrightarrow> core_ok (c\<lparr>retrans := hm_remove k (retrans c)\<rparr>)"
  by (simp add: core_ok_def maps_ok_def ranges_ok_def)

lemma core_ok_handle_ack: "core_ok c \<Longrightarrow> core_ok (handle_ack now p c)"
  by (simp add: handle_ack_def Let_def core_ok_grow_window core_ok_remove_retrans
      core_ok_update_rto core_ok_remove_in_flight split: option.split)

lemma count_some_update [simp]:
  "i < length fs \<Longrightarrow> fs ! i = None \<Longrightarrow> count_some (fs[i := Some b]) = Suc (count_some fs)"
  unfolding count_some_def by (induction fs arbitrary: i) (auto split: nat.splits)

lemma count_some_replicate [simp]: "count_some (replicate n None) = 0"
  by (simp add: count_some_def)

lemma core_ok_insert_assembler:
  assumes "core_ok c" "assembler_ok a"
    and "hm_contains (assemblers c) k \<or> hm_len (assemblers c) < MAX_ASSEMBLERS"
  shows "core_ok (c\<lparr>assemblers := hm_insert k a (assemblers c)\<rparr>)"
proof -
  have wf: "hm_wf (assemblers c)" and le: "hm_len (assemblers c) \<le> MAX_ASSEMBLERS"
    using assms(1) by (simp_all add: core_ok_def maps_ok_def)
  have "hm_len (hm_insert k a (assemblers c)) \<le> MAX_ASSEMBLERS"
    using assms(3) le hm.len_insert_old[OF wf] hm.len_insert_le[OF wf, of k a]
    by (auto simp: hm_contains_iff)
  with assms(1,2) show ?thesis
    by (simp add: core_ok_def maps_ok_def ranges_ok_def)
qed

lemma core_ok_remove_assembler:
  "core_ok c \<Longrightarrow> core_ok (c\<lparr>assemblers := hm_remove k (assemblers c)\<rparr>)"
  by (simp add: core_ok_def maps_ok_def ranges_ok_def order_trans[OF hm_len_remove_le])

lemma core_ok_delivered:
  "core_ok c \<Longrightarrow> hm_wf dl \<Longrightarrow> hm_len dl \<le> MAX_DELIVERED \<Longrightarrow> core_ok (c\<lparr>delivered := dl\<rparr>)"
  by (simp add: core_ok_def maps_ok_def ranges_ok_def)

lemma core_ok_complete_message: "core_ok c \<Longrightarrow> core_ok (complete_message p c)"
proof -
  assume ok: "core_ok c"
  define dl where "dl = hm_insert (msg_id p) () (delivered c)"
  have "hm_wf dl" using ok by (simp add: dl_def core_ok_def maps_ok_def)
  then have "core_ok (c\<lparr>assemblers := hm_remove (msg_id p) (assemblers c),
      delivered := if hm_len dl > MAX_DELIVERED then [] else dl\<rparr>)"
    using core_ok_delivered[OF core_ok_remove_assembler[OF ok]] by simp
  with ok show ?thesis by (simp add: complete_message_def Let_def flip: dl_def)
qed

lemma core_ok_handle_reliable:
  assumes ok: "core_ok c" and wf: "packet_wf p" "has_flag p FLAG_DATA"
    and r: "handle_reliable p c = Inr c'"
  shows "core_ok c'"
proof (cases "\<not> hm_contains (assemblers c) (msg_id p) \<and> hm_len (assemblers c) \<ge> MAX_ASSEMBLERS")
  case True
  with ok r show ?thesis by (simp add: handle_reliable_def Let_def)
next
  case False
  define asm where "asm = (case hm_get (assemblers c) (msg_id p) of
    Some a \<Rightarrow> a | None \<Rightarrow> \<lparr>frags = replicate (unat (frag_total p)) None, got = 0\<rparr>)"
  define i where "i = unat (frag_index p)"
  define asm' where "asm' = (if frags asm ! i = None
    then asm\<lparr>frags := (frags asm)[i := Some (payload p)], got := got asm + 1\<rparr> else asm)"
  define c1 where "c1 = c\<lparr>assemblers := hm_insert (msg_id p) asm' (assemblers c)\<rparr>"
  have c': "i < length (frags asm)"
    "c' = (if got asm' = unat (frag_total p) then complete_message p c1 else c1)"
    using r False
    by (auto simp: handle_reliable_def Let_def asm_def i_def asm'_def c1_def split: if_splits)
  have "0 < unat (frag_total p)" "unat (frag_total p) \<le> MAX_FRAGMENT_COUNT"
    using wf by (auto simp: packet_wf_def word_less_nat_alt)
  then have "assembler_ok asm"
    using ok by (auto simp: asm_def assembler_ok_def core_ok_def maps_ok_def split: option.split)
  then have "assembler_ok asm'"
    using c'(1) by (auto simp: asm'_def assembler_ok_def)
  then have "core_ok c1"
    unfolding c1_def using ok False by (auto intro: core_ok_insert_assembler)
  then show ?thesis by (simp add: c'(2) core_ok_complete_message)
qed

lemma core_ok_handle_packet:
  assumes "core_ok c" "packet_wf p" "handle_packet now p c = Inr c'"
  shows "core_ok c'"
proof -
  let ?c = "c\<lparr>last_activity := now\<rparr>"
  have ok: "core_ok ?c" using assms(1) by simp
  have fin: "core_ok (?c\<lparr>fin_received := True, closed := True\<rparr>)"
    using ok by (simp add: core_ok_def maps_ok_def ranges_ok_def)
  show ?thesis
    using assms(1,2) assms(3) ok fin
    by (auto simp: handle_packet_def Let_def handle_realtime_def core_ok_handle_ack
        split: if_splits stream.splits dest: core_ok_handle_reliable[OF ok assms(2)])
qed

lemma core_ok_mark_dead: "core_ok c \<Longrightarrow> core_ok (mark_dead r c)"
  by (simp add: mark_dead_def core_ok_def maps_ok_def ranges_ok_def)

lemma core_ok_liveness_tick: "core_ok c \<Longrightarrow> core_ok (fst (liveness_tick now c))"
  by (simp add: liveness_tick_def Let_def core_ok_mark_dead)

lemma core_ok_pump_step: "core_ok c \<Longrightarrow> pump_step c = Some (p, c') \<Longrightarrow> core_ok c'"
  by (auto simp: pump_step_def split: list.splits)

lemma core_ok_send_commit:
  "core_ok c \<Longrightarrow> send_commit now data s c = SendOk c' \<Longrightarrow> core_ok c'"
  by (auto simp: send_commit_def alloc_msg_id_def Let_def core_ok_def maps_ok_def ranges_ok_def
      split: option.splits stream.splits if_splits)

lemma core_ok_send_stream:
  "core_ok c \<Longrightarrow> send_stream now data s c = SendOk c' \<Longrightarrow> core_ok c'"
  by (auto simp: send_stream_def intro: core_ok_send_commit split: if_splits gate.splits)

lemma core_ok_recv: "core_ok c \<Longrightarrow> core_ok (snd (recv ev cap c))"
  by (auto simp: recv_def split: recv_event.split list.split)

lemma core_ok_close: "core_ok c \<Longrightarrow> core_ok (close c)"
  by (simp add: close_def core_ok_def maps_ok_def ranges_ok_def)

text \<open>A resend keeps the invariant while the message still has budget; the round only resends
  messages that do, each once, and no resend touches another message's count.\<close>

lemma retransmit_one_count [simp]:
  "retrans_count (retransmit_one now (mid, infl) c) k =
     (if k = mid then Suc (retrans_count c k) else retrans_count c k)"
  by (simp add: retransmit_one_def Let_def retrans_count_def split: option.split)

lemma core_ok_retransmit_one:
  "core_ok c \<Longrightarrow> retrans_count c mid < MAX_RETRANSMIT \<Longrightarrow>
     core_ok (retransmit_one now (mid, infl) c)"
  by (auto simp: retransmit_one_def Let_def core_ok_def maps_ok_def ranges_ok_def const_defs
      retrans_count_def split: option.splits)

lemma core_ok_fold_retransmit:
  "core_ok c \<Longrightarrow> distinct (map fst es) \<Longrightarrow>
     (\<forall>(mid, infl) \<in> set es. retrans_count c mid < MAX_RETRANSMIT) \<Longrightarrow>
     core_ok (fold (retransmit_one now) es c)"
proof (induction es arbitrary: c)
  case Nil
  then show ?case by simp
next
  case (Cons e es)
  obtain mid infl where e: "e = (mid, infl)" by (cases e)
  have "core_ok (retransmit_one now e c)"
    using Cons.prems by (auto simp: e intro: core_ok_retransmit_one)
  moreover have "\<forall>(k, i) \<in> set es. retrans_count (retransmit_one now e c) k < MAX_RETRANSMIT"
  proof clarify
    fix k i
    assume "(k, i) \<in> set es"
    moreover from this have "k \<noteq> mid" using Cons.prems(2) by (auto simp: e rev_image_eqI)
    ultimately show "retrans_count (retransmit_one now e c) k < MAX_RETRANSMIT"
      using Cons.prems(3) by (auto simp: e)
  qed
  ultimately show ?case using Cons.prems(2) by (simp add: Cons.IH)
qed

lemma core_ok_retransmit_round: "core_ok c \<Longrightarrow> core_ok (fst (retransmit_round now c))"
proof -
  assume ok: "core_ok c"
  let ?es = "fst (retransmit_collect now c)"
  have "distinct (map fst ?es)"
    using ok by (simp add: retransmit_collect_def retransmit_due_def Let_def core_ok_def maps_ok_def
        hm_wf_def distinct_map_filter)
  moreover have "\<forall>(mid, infl) \<in> set ?es. retrans_count c mid < MAX_RETRANSMIT"
    by (auto simp: retransmit_collect_def Let_def)
  ultimately have "core_ok (fold (retransmit_one now) ?es c)"
    using ok by (intro core_ok_fold_retransmit)
  with ok show ?thesis
    by (cases "retransmit_collect now c") (simp add: retransmit_round_def Let_def core_ok_mark_dead)
qed

lemma core_ok_new_core:
  "from_millis MIN_RTO_MS \<le> r \<Longrightarrow> r \<le> from_millis MAX_RTO_MS \<Longrightarrow> core_ok (new_core w r now)"
  by (auto simp: new_core_def core_ok_def maps_ok_def ranges_ok_def const_defs)

section \<open>The step relation\<close>

text \<open>The steps a connection takes, in any order and number: the tasks that \<^verbatim>\<open>io_listener\<close> and
  \<^verbatim>\<open>dial_transport\<close> spawn, and the calls of its owner.\<close>

inductive core_step :: "core \<Rightarrow> core \<Rightarrow> bool" where
  step_packet: "decode buf = Some p \<Longrightarrow> handle_packet now p c = Inr c' \<Longrightarrow> core_step c c'"
| step_liveness: "core_step c (fst (liveness_tick now c))"
| step_retransmit: "core_step c (fst (retransmit_round now c))"
| step_pump: "pump_step c = Some (out, c') \<Longrightarrow> core_step c c'"
| step_send: "send_stream now data s c = SendOk c' \<Longrightarrow> core_step c c'"
| step_recv: "core_step c (snd (recv ev cap c))"
| step_close: "core_step c (close c)"

inductive core_reachable :: "core \<Rightarrow> bool" where
  reach_new: "core_reachable (new_core 256 (from_millis 200) now)"
| reach_step: "core_reachable c \<Longrightarrow> core_step c c' \<Longrightarrow> core_reachable c'"

lemma decode_packet_wf: "decode b = Some p \<Longrightarrow> packet_wf p"
  by (auto simp: decode_def packet_wf_def has_flag_def Let_def not_le not_less split: if_splits)

lemma core_ok_step: "core_step c c' \<Longrightarrow> core_ok c \<Longrightarrow> core_ok c'"
  by (induction rule: core_step.induct)
    (auto intro: core_ok_handle_packet core_ok_liveness_tick core_ok_retransmit_round
      core_ok_pump_step core_ok_send_stream core_ok_recv core_ok_close dest: decode_packet_wf)

lemma core_ok_reachable: "core_reachable c \<Longrightarrow> core_ok c"
  by (induction rule: core_reachable.induct)
    (auto intro: core_ok_step core_ok_new_core simp: from_millis_def const_defs)

end
