(* ===== verification/Qcp_Reassembly.thy ===== *)
theory Qcp_Reassembly
  imports Qcp_Invariant
begin

text \<open>
  Delivery of reliable messages by the QCP core: the fragments of a message, received in any order
  and with any duplicates, deliver the message exactly once and unchanged; a message that was
  delivered is acknowledged again but never delivered again. The limits of this guarantee are
  stated as theorems too: the receiver accepts fewer fragments than the sender sends, a duplicate
  of a delivered message leaves an assembler behind, and a packet with another total can index out
  of range.
\<close>

section \<open>Fragments\<close>

definition frag :: "u32 \<Rightarrow> stream \<Rightarrow> bytes list \<Rightarrow> nat \<Rightarrow> packet" where
  "frag mid s cs i = \<lparr>flags = FLAG_DATA, stream_of = s, msg_id = mid, frag_index = of_nat i,
     frag_total = of_nat (length cs), payload = cs ! i\<rparr>"

lemma frag_sel [simp]:
  "flags (frag mid s cs i) = FLAG_DATA" "stream_of (frag mid s cs i) = s"
  "msg_id (frag mid s cs i) = mid" "frag_index (frag mid s cs i) = of_nat i"
  "frag_total (frag mid s cs i) = of_nat (length cs)" "payload (frag mid s cs i) = cs ! i"
  by (simp_all add: frag_def)

lemma fragments_eq:
  "fragments mid data s = map (frag mid s (chunks MAX_PAYLOAD data)) [0..<length (chunks MAX_PAYLOAD data)]"
  by (rule nth_equalityI) (simp_all add: fragments_def Let_def frag_def nth_enumerate_eq)

lemma set_fragments:
  "set (fragments mid data s) = frag mid s (chunks MAX_PAYLOAD data) ` {..<length (chunks MAX_PAYLOAD data)}"
  by (auto simp: fragments_eq atLeast0LessThan)

lemma data_flags [simp]:
  "has_flag (frag mid s cs i) FLAG_DATA" "\<not> has_flag (frag mid s cs i) FLAG_SYN"
  "\<not> has_flag (frag mid s cs i) FLAG_FIN" "\<not> has_flag (frag mid s cs i) FLAG_PING"
  "\<not> has_flag (frag mid s cs i) FLAG_PONG" "\<not> has_flag (frag mid s cs i) FLAG_ACK"
  by (simp_all add: has_flag_def wire_simps)

lemma frag_inj:
  "length cs \<le> MAX_FRAGMENT_COUNT \<Longrightarrow> i < length cs \<Longrightarrow> j < length cs \<Longrightarrow>
     frag mid s cs i = frag mid s cs j \<longleftrightarrow> i = j"
proof
  assume b: "length cs \<le> MAX_FRAGMENT_COUNT" "i < length cs" "j < length cs"
    and eq: "frag mid s cs i = frag mid s cs j"
  from eq have "unat (of_nat i :: u16) = unat (of_nat j :: u16)"
    by (simp add: frag_def)
  with b show "i = j" by (simp add: MAX_FRAGMENT_COUNT_def)
qed simp

section \<open>One fragment\<close>

text \<open>The slots of an assembler that has received the fragments in \<open>I\<close>.\<close>

definition slots :: "bytes list \<Rightarrow> nat set \<Rightarrow> bytes option list" where
  "slots cs I = map (\<lambda>i. if i \<in> I then Some (cs ! i) else None) [0..<length cs]"

lemma length_slots [simp]: "length (slots cs I) = length cs"
  by (simp add: slots_def)

lemma nth_slots [simp]: "i < length cs \<Longrightarrow> slots cs I ! i = (if i \<in> I then Some (cs ! i) else None)"
  by (simp add: slots_def)

lemma slots_empty: "slots cs {} = replicate (length cs) None"
  by (rule nth_equalityI) simp_all

lemma slots_update: "i < length cs \<Longrightarrow> (slots cs I)[i := Some (cs ! i)] = slots cs (insert i I)"
  by (rule nth_equalityI) (auto simp: nth_list_update)

lemma flatten_slots_full: "flatten_frags (slots cs {..<length cs}) = concat cs"
proof -
  have "map (\<lambda>f. case f of None \<Rightarrow> [] | Some b \<Rightarrow> b) (slots cs {..<length cs}) = cs"
    by (rule nth_equalityI) simp_all
  then show ?thesis by (simp add: flatten_frags_def)
qed

definition assembling :: "core \<Rightarrow> u32 \<Rightarrow> bytes list \<Rightarrow> nat set \<Rightarrow> bool" where
  "assembling c mid cs I \<longleftrightarrow> I \<subseteq> {..<length cs} \<and>
     (case hm_get (assemblers c) mid of
        None \<Rightarrow> I = {} | Some a \<Rightarrow> frags a = slots cs I \<and> got a = card I)"

definition room :: "core \<Rightarrow> u32 \<Rightarrow> bool" where
  "room c mid \<longleftrightarrow> hm_wf (assemblers c) \<and> hm_len (assemblers c) \<le> MAX_ASSEMBLERS \<and>
     (hm_contains (assemblers c) mid \<or> hm_len (assemblers c) < MAX_ASSEMBLERS)"

definition reliable :: "stream \<Rightarrow> bool" where
  "reliable s \<longleftrightarrow> s \<noteq> Realtime"

lemma handle_packet_frag:
  "reliable s \<Longrightarrow> \<not> closed c \<Longrightarrow>
     handle_packet now (frag mid s cs i) c = handle_reliable (frag mid s cs i) (c\<lparr>last_activity := now\<rparr>)"
  by (cases s) (simp_all add: handle_packet_def Let_def reliable_def)

lemma image_restrict: "S \<subseteq> f ` A \<Longrightarrow> S = f ` {a \<in> A. f a \<in> S}"
  by blast

lemma card_full_iff: "I \<subseteq> {..<n} \<Longrightarrow> card I = n \<longleftrightarrow> I = {..<n}"
  using card_subset_eq[of "{..<n}" I] by auto

text \<open>What one fragment does to the assembler of its message.\<close>

lemma handle_reliable_frag:
  assumes n: "length cs \<le> MAX_FRAGMENT_COUNT" "i < length cs"
    and room: "room c mid" and asm: "assembling c mid cs I"
  obtains a where "frags a = slots cs (insert i I)" "got a = card (insert i I)"
    "handle_reliable (frag mid s cs i) c =
       Inr (let c1 = c\<lparr>assemblers := hm_insert mid a (assemblers c)\<rparr>
            in if insert i I = {..<length cs} then complete_message (frag mid s cs i) c1 else c1)"
proof -
  define a0 where "a0 = (case hm_get (assemblers c) mid of
    Some a \<Rightarrow> a | None \<Rightarrow> \<lparr>frags = replicate (length cs) None, got = 0\<rparr>)"
  define a where "a = (if frags a0 ! i = None
    then a0\<lparr>frags := (frags a0)[i := Some (cs ! i)], got := got a0 + 1\<rparr> else a0)"
  have u: "unat (of_nat i :: u16) = i" "unat (of_nat (length cs) :: u16) = length cs"
    using n by (simp_all add: MAX_FRAGMENT_COUNT_def)
  have fin: "finite I" using asm finite_subset by (auto simp: assembling_def)
  have a0: "frags a0 = slots cs I" "got a0 = card I"
    using asm by (auto simp: a0_def assembling_def slots_empty split: option.splits)
  have a: "frags a = slots cs (insert i I)" "got a = card (insert i I)"
    using a0 n(2) fin by (auto simp: a_def slots_update insert_absorb)
  have "handle_reliable (frag mid s cs i) c =
       Inr (let c1 = c\<lparr>assemblers := hm_insert mid a (assemblers c)\<rparr>
            in if got a = length cs then complete_message (frag mid s cs i) c1 else c1)"
    unfolding handle_reliable_def Let_def frag_sel u a0_def[symmetric] a_def[symmetric]
    using room a0 n(2) by (auto simp: room_def)
  moreover have "got a = length cs \<longleftrightarrow> insert i I = {..<length cs}"
    using a(2) asm n(2) by (simp add: assembling_def card_full_iff)
  ultimately show thesis using that[OF a] by simp
qed

lemma room_insert_remove:
  assumes "room c mid"
  shows "hm_len (hm_remove mid (hm_insert mid a (assemblers c))) < MAX_ASSEMBLERS"
    "hm_len (hm_insert mid a (assemblers c)) \<le> MAX_ASSEMBLERS"
proof -
  have wf: "hm_wf (assemblers c)" using assms by (simp add: room_def)
  show le: "hm_len (hm_insert mid a (assemblers c)) \<le> MAX_ASSEMBLERS"
    using assms hm.len_insert_old[OF wf] hm.len_insert_le[OF wf, of mid a]
    by (auto simp: room_def hm_contains_iff)
  have "Suc (hm_len (hm_remove mid (hm_insert mid a (assemblers c))))
      = hm_len (hm_insert mid a (assemblers c))"
    by (rule hm.len_remove) (simp_all add: wf)
  with le show "hm_len (hm_remove mid (hm_insert mid a (assemblers c))) < MAX_ASSEMBLERS"
    by simp
qed

section \<open>Sequences of packets\<close>

text \<open>The receiving loop: packets in the order they arrive, each at its own time; a panic ends it.\<close>

fun receive :: "(instant \<times> packet) list \<Rightarrow> core \<Rightarrow> panic + core" where
  "receive [] c = Inr c"
| "receive ((now, p) # ps) c =
     (case handle_packet now p c of Inl e \<Rightarrow> Inl e | Inr c' \<Rightarrow> receive ps c')"

definition ack_of :: "u32 \<Rightarrow> stream \<Rightarrow> bytes" where
  "ack_of mid s = encode (control_packet FLAG_ACK s mid)"

text \<open>Once a message is in the delivered set, its fragments change nothing that the application
  sees.\<close>

lemma receive_delivered:
  assumes n: "length cs \<le> MAX_FRAGMENT_COUNT" and s: "reliable s"
  shows "\<not> closed c \<Longrightarrow> room c mid \<Longrightarrow> assembling c mid cs I \<Longrightarrow> hm_contains (delivered c) mid \<Longrightarrow>
    snd ` set ps \<subseteq> frag mid s cs ` {..<length cs} \<Longrightarrow>
    \<exists>c' k. receive ps c = Inr c' \<and> deliver_tx c' = deliver_tx c
      \<and> delivered c' = delivered c
      \<and> ctrl_tx c' = ctrl_tx c @ replicate k (ack_of mid s)"
proof (induction ps arbitrary: c I)
  case Nil
  then show ?case by (auto intro: exI[of _ 0])
next
  case (Cons np ps)
  obtain now i where np: "np = (now, frag mid s cs i)" and i: "i < length cs"
    using Cons.prems(5) by (cases np) auto
  let ?c = "c\<lparr>last_activity := now\<rparr>"
  have "room ?c mid" "assembling ?c mid cs I"
    using Cons.prems by (simp_all add: room_def assembling_def)
  from handle_reliable_frag[OF n i this, where s = s] obtain a where
    a: "frags a = slots cs (insert i I)" "got a = card (insert i I)" and
    h: "handle_reliable (frag mid s cs i) ?c =
      Inr (let c1 = ?c\<lparr>assemblers := hm_insert mid a (assemblers ?c)\<rparr>
           in if insert i I = {..<length cs} then complete_message (frag mid s cs i) c1 else c1)"
    by blast
  define c1 where "c1 = ?c\<lparr>assemblers := hm_insert mid a (assemblers c)\<rparr>"
  define c2 where "c2 = (if insert i I = {..<length cs} then complete_message (frag mid s cs i) c1 else c1)"
  have del: "hm_contains (delivered c1) mid" using Cons.prems(4) by (simp add: c1_def)
  have c2: "assemblers c2 = hm_insert mid a (assemblers c)" "deliver_tx c2 = deliver_tx c"
    "delivered c2 = delivered c" "closed c2 = closed c"
    "ctrl_tx c2 = ctrl_tx c @ replicate (if insert i I = {..<length cs} then 1 else 0) (ack_of mid s)"
    using del by (auto simp: c2_def complete_message_def Let_def c1_def ack_of_def)
  have sub: "insert i I \<subseteq> {..<length cs}" using i Cons.prems(3) by (simp add: assembling_def)
  have "room c2 mid"
    using Cons.prems(2) room_insert_remove(2)[OF Cons.prems(2), of a]
    by (simp add: room_def c2 hm_contains_def)
  moreover have "assembling c2 mid cs (insert i I)"
    using sub by (simp add: assembling_def c2 a)
  moreover have "snd ` set ps \<subseteq> frag mid s cs ` {..<length cs}" using Cons.prems(5) by auto
  ultimately obtain c' k where "receive ps c2 = Inr c'" "deliver_tx c' = deliver_tx c2"
    "delivered c' = delivered c2" "ctrl_tx c' = ctrl_tx c2 @ replicate k (ack_of mid s)"
    using Cons.IH[of c2 "insert i I"] Cons.prems(1,4) c2 by auto
  moreover have "receive (np # ps) c = receive ps c2"
    using h by (simp add: np handle_packet_frag[OF s Cons.prems(1)] c2_def c1_def Let_def)
  ultimately show ?case
    using c2 by (auto simp flip: replicate_add intro!: exI[of _ "_ + k"])
qed

text \<open>The fragment that completes a message: it is delivered, acknowledged and its assembler removed.\<close>

lemma completed_core:
  assumes "\<not> hm_contains (delivered c) (msg_id p)" "hm_wf (delivered c)" "hm_len (delivered c) < MAX_DELIVERED"
    and "frags a = slots cs {..<length cs}" "p = frag mid s cs i"
  shows "let c2 = complete_message p (c\<lparr>last_activity := now, assemblers := hm_insert mid a (assemblers c)\<rparr>) in
    assemblers c2 = hm_remove mid (hm_insert mid a (assemblers c))
    \<and> deliver_tx c2 = deliver_tx c @ [(concat cs, stream_as_u8 s)]
    \<and> delivered c2 = hm_insert mid () (delivered c) \<and> closed c2 = closed c \<and> ctrl_tx c2 = ctrl_tx c @ [ack_of mid s]"
proof -
  have "hm_len (hm_insert mid () (delivered c)) \<le> MAX_DELIVERED"
    using hm.len_insert_le[OF assms(2), of mid "()"] assms(3) by simp
  with assms show ?thesis by (simp add: complete_message_def Let_def ack_of_def flatten_slots_full)
qed

text \<open>The indices of the fragments that are still to come after the first.\<close>

lemma remaining_indices:
  assumes "length cs \<le> MAX_FRAGMENT_COUNT" "J \<subseteq> {..<length cs}" "insert (frag mid s cs i) P = frag mid s cs ` J" "i \<in> J"
  obtains J' where "J' \<subseteq> {..<length cs}" "P = frag mid s cs ` J'" "insert i J' = J"
proof
  let ?J = "{j \<in> J. frag mid s cs j \<in> P}"
  show "?J \<subseteq> {..<length cs}" using assms(2) by blast
  show "P = frag mid s cs ` ?J" using assms(3) image_restrict[of P "frag mid s cs" J] by blast
  have "j \<in> ?J \<or> j = i" if "j \<in> J" for j
  proof -
    have "frag mid s cs j = frag mid s cs i \<or> frag mid s cs j \<in> P" using assms(3) that by blast
    moreover have "j < length cs" "i < length cs" using assms(2,4) that by auto
    ultimately show ?thesis using frag_inj[OF assms(1)] that by blast
  qed
  with assms(4) show "insert i ?J = J" by blast
qed

text \<open>Before that, the fragments fill the assembler until the last one is in.\<close>

lemma receive_fresh:
  assumes n: "length cs \<le> MAX_FRAGMENT_COUNT" and s: "reliable s"
  shows "\<not> closed c \<Longrightarrow> room c mid \<Longrightarrow> assembling c mid cs I \<Longrightarrow> I \<noteq> {..<length cs} \<Longrightarrow>
    \<not> hm_contains (delivered c) mid \<Longrightarrow> hm_wf (delivered c) \<Longrightarrow> hm_len (delivered c) < MAX_DELIVERED \<Longrightarrow>
    J \<subseteq> {..<length cs} \<Longrightarrow> snd ` set ps = frag mid s cs ` J \<Longrightarrow>
    \<exists>c' k. receive ps c = Inr c'
      \<and> deliver_tx c' = deliver_tx c @ (if I \<union> J = {..<length cs} then [(concat cs, stream_as_u8 s)] else [])
      \<and> hm_contains (delivered c') mid = (I \<union> J = {..<length cs})
      \<and> ctrl_tx c' = ctrl_tx c @ replicate k (ack_of mid s)
      \<and> (0 < k) = (I \<union> J = {..<length cs})"
proof (induction ps arbitrary: c I J)
  case Nil
  then show ?case by (intro exI[of _ c] exI[of _ 0]) auto
next
  case (Cons np ps)
  obtain now i where np: "np = (now, frag mid s cs i)" and i: "i \<in> J" "i < length cs"
  proof -
    have "snd np \<in> frag mid s cs ` J" using Cons.prems(9) by auto
    then show thesis using that Cons.prems(8) by (cases np) auto
  qed
  let ?c = "c\<lparr>last_activity := now\<rparr>"
  have "room ?c mid" "assembling ?c mid cs I"
    using Cons.prems by (simp_all add: room_def assembling_def)
  from handle_reliable_frag[OF n i(2) this, where s = s] obtain a where
    a: "frags a = slots cs (insert i I)" "got a = card (insert i I)" and
    h: "handle_reliable (frag mid s cs i) ?c =
      Inr (let c1 = ?c\<lparr>assemblers := hm_insert mid a (assemblers ?c)\<rparr>
           in if insert i I = {..<length cs} then complete_message (frag mid s cs i) c1 else c1)"
    by blast
  have sub: "insert i I \<subseteq> {..<length cs}" using i Cons.prems(3) by (simp add: assembling_def)
  have rest: "snd ` set ps \<subseteq> frag mid s cs ` {..<length cs}"
    using Cons.prems(9) image_mono[OF Cons.prems(8), of "frag mid s cs"] by auto
  define c1 where "c1 = ?c\<lparr>assemblers := hm_insert mid a (assemblers c)\<rparr>"
  show ?case
  proof (cases "insert i I = {..<length cs}")
    case True
    define c2 where "c2 = complete_message (frag mid s cs i) c1"
    have rec: "receive (np # ps) c = receive ps c2"
      using h True by (simp add: np handle_packet_frag[OF s Cons.prems(1)] c2_def c1_def Let_def)
    have c2: "assemblers c2 = hm_remove mid (hm_insert mid a (assemblers c))"
      "deliver_tx c2 = deliver_tx c @ [(concat cs, stream_as_u8 s)]"
      "delivered c2 = hm_insert mid () (delivered c)" "closed c2 = closed c" "ctrl_tx c2 = ctrl_tx c @ [ack_of mid s]"
      using completed_core[OF _ Cons.prems(6,7) a(1)[unfolded True] refl, of mid s i now] Cons.prems(5)
      by (simp_all add: c2_def c1_def Let_def)
    have "room c2 mid" "assembling c2 mid cs {}"
      using Cons.prems(2) room_insert_remove(1)[OF Cons.prems(2), of a]
      by (simp_all add: room_def c2 assembling_def)
    moreover have "hm_contains (delivered c2) mid" "\<not> closed c2"
      using Cons.prems(1) by (simp_all add: c2 hm_contains_def)
    ultimately obtain c' k where r: "receive ps c2 = Inr c'" "deliver_tx c' = deliver_tx c2"
      "delivered c' = delivered c2" "ctrl_tx c' = ctrl_tx c2 @ replicate k (ack_of mid s)"
      using receive_delivered[OF n s, of c2 mid "{}" ps] rest by metis
    have un: "I \<union> J = {..<length cs}" using True i Cons.prems(8) by auto
    show ?thesis
      unfolding rec un using r by (intro exI[of _ c'] exI[of _ "Suc k"]) (simp add: c2 hm_contains_def)
  next
    case False
    have rec: "receive (np # ps) c = receive ps c1"
      using h False by (simp add: np handle_packet_frag[OF s Cons.prems(1)] c1_def Let_def)
    have "room c1 mid"
      using Cons.prems(2) room_insert_remove(2)[OF Cons.prems(2), of a]
      by (simp add: room_def c1_def hm_contains_def)
    moreover have "assembling c1 mid cs (insert i I)"
      using sub by (simp add: assembling_def c1_def a)
    moreover obtain J' where J': "J' \<subseteq> {..<length cs}" "snd ` set ps = frag mid s cs ` J'" "insert i J' = J"
      by (rule remaining_indices[OF n Cons.prems(8) _ i(1), of mid s "snd ` set ps"]) (use Cons.prems(9) in \<open>simp add: np\<close>)
    moreover have un: "insert i I \<union> J' = I \<union> J" using J'(3) by blast
    ultimately show ?thesis
      using Cons.IH[of c1 "insert i I" J'] False Cons.prems unfolding rec un
      by (simp add: c1_def)
  qed
qed

section \<open>Exactly-once delivery\<close>

text \<open>\<^bold>\<open>C2\<close>: exactly-once delivery of a reliable message. Let a message of at most 8192 fragments be
  sent on a reliable stream, and let the receiver handle any sequence of its fragments: any order,
  any number of duplicates. The receiver does not panic; it delivers the message once, byte for
  byte, if every fragment occurs in the sequence, and delivers nothing otherwise; it acknowledges
  the message if and only if it delivers it.\<close>

theorem reliable_exactly_once:
  assumes "reliable s" "data \<noteq> []" "length data \<le> MAX_FRAGMENT_COUNT * MAX_PAYLOAD"
    and "core_ok c" "\<not> closed c" "hm_get (assemblers c) mid = None"
    and "hm_len (assemblers c) < MAX_ASSEMBLERS"
    and "\<not> hm_contains (delivered c) mid" "hm_len (delivered c) < MAX_DELIVERED"
    and "snd ` set ps \<subseteq> set (fragments mid data s)"
  shows "\<exists>c' k. receive ps c = Inr c'
    \<and> deliver_tx c' = deliver_tx c
        @ (if snd ` set ps = set (fragments mid data s) then [(data, stream_as_u8 s)] else [])
    \<and> ctrl_tx c' = ctrl_tx c @ replicate k (encode (control_packet FLAG_ACK s mid))
    \<and> (0 < k \<longleftrightarrow> snd ` set ps = set (fragments mid data s))"
proof -
  define cs where "cs = chunks MAX_PAYLOAD data"
  have n: "length cs \<le> MAX_FRAGMENT_COUNT"
    using assms(3) unfolding cs_def by (simp add: length_chunks div_ceil_le_iff)
  have ne: "cs \<noteq> []" using assms(2) by (simp add: cs_def chunks_eq_Nil_iff)
  have data: "concat cs = data" by (simp add: cs_def)
  define J where "J = {j \<in> {..<length cs}. frag mid s cs j \<in> snd ` set ps}"
  have J: "J \<subseteq> {..<length cs}" "snd ` set ps = frag mid s cs ` J"
    using image_restrict[OF assms(10)[unfolded set_fragments cs_def[symmetric]]]
    by (auto simp: J_def)
  have full: "J = {..<length cs} \<longleftrightarrow> snd ` set ps = set (fragments mid data s)"
  proof
    assume "J = {..<length cs}"
    then show "snd ` set ps = set (fragments mid data s)"
      using J(2) by (simp add: set_fragments cs_def[symmetric])
  next
    assume "snd ` set ps = set (fragments mid data s)"
    then show "J = {..<length cs}" by (auto simp: J_def set_fragments cs_def[symmetric])
  qed
  have "room c mid" "hm_wf (delivered c)"
    using assms(4,7) by (simp_all add: room_def core_ok_def maps_ok_def)
  moreover have "assembling c mid cs {}" using assms(6) by (simp add: assembling_def)
  moreover have "{} \<noteq> {..<length cs}" using ne by auto
  ultimately show ?thesis
    using receive_fresh[OF n assms(1) assms(5), of mid "{}" J ps] assms(8,9) J
    unfolding full[symmetric] by (auto simp: data ack_of_def)
qed

lemma core_ok_fresh [simp]: "core_ok (new_core 256 (from_millis 200) now)"
  by (rule core_ok_new_core) (simp_all add: from_millis_def const_defs)

lemma fresh_sel [simp]:
  "assemblers (new_core w r now) = []" "delivered (new_core w r now) = []"
  "deliver_tx (new_core w r now) = []" "ctrl_tx (new_core w r now) = []"
  "closed (new_core w r now) = False" "dead (new_core w r now) = False"
  "in_flight (new_core w r now) = []" "data_tx (new_core w r now) = []"
  "last_realtime (new_core w r now) = 0" "next_msg_id (new_core w r now) = 1"
  by (simp_all add: new_core_def)

lemma chunks_small: "data \<noteq> [] \<Longrightarrow> length data \<le> n \<Longrightarrow> chunks n data = [data]"
  by (cases "n = 0") (simp_all add: chunks_step[of n data])

lemma fragments_small:
  "data \<noteq> [] \<Longrightarrow> length data \<le> MAX_PAYLOAD \<Longrightarrow> fragments mid data s = [frag mid s [data] 0]"
  by (simp add: fragments_eq chunks_small)

theorem reliable_exactly_once_witness:
  "\<exists>c'. receive [(3, frag 1 Critical [[1, 2, 3]] 0), (9, frag 1 Critical [[1, 2, 3]] 0)]
          (new_core 256 (from_millis 200) 0) = Inr c'
     \<and> deliver_tx c' = [([1, 2, 3], 2)]"
proof -
  let ?c = "new_core 256 (from_millis 200) 0" and ?f = "frag 1 Critical [[1, 2, 3]] 0"
  define ps :: "(instant \<times> packet) list" where "ps = [(3, ?f), (9, ?f)]"
  have f: "fragments 1 [1, 2, 3] Critical = [?f]"
    by (rule fragments_small) (simp_all add: MAX_PAYLOAD_eq)
  have "\<exists>c' k. receive ps ?c = Inr c' \<and> deliver_tx c' = deliver_tx ?c
      @ (if snd ` set ps = set (fragments 1 [1, 2, 3] Critical)
         then [([1, 2, 3], stream_as_u8 Critical)] else [])
    \<and> ctrl_tx c' = ctrl_tx ?c @ replicate k (encode (control_packet FLAG_ACK Critical 1))
    \<and> (0 < k \<longleftrightarrow> snd ` set ps = set (fragments 1 [1, 2, 3] Critical))"
    by (rule reliable_exactly_once)
      (simp_all add: reliable_def f ps_def const_defs wire_simps hm_contains_def)
  then show ?thesis by (auto simp: f ps_def stream_as_u8_def)
qed

section \<open>At most once, and no panic on consistent totals\<close>

lemma complete_message_delivered:
  "hm_contains (delivered c) (msg_id p) \<Longrightarrow> deliver_tx (complete_message p c) = deliver_tx c"
  by (simp add: complete_message_def Let_def)

lemma handle_reliable_delivered:
  "hm_contains (delivered c) (msg_id p) \<Longrightarrow> handle_reliable p c = Inr c' \<Longrightarrow>
     deliver_tx c' = deliver_tx c"
  by (auto simp: handle_reliable_def Let_def complete_message_delivered split: if_splits)

text \<open>A delivered message is never delivered again. Whatever packet arrives on a reliable
  stream with the id of a message in the delivered set, the application receives nothing
  new.\<close>

theorem no_redelivery:
  assumes "hm_contains (delivered c) (msg_id p)" "reliable (stream_of p)"
    and "handle_packet now p c = Inr c'"
  shows "deliver_tx c' = deliver_tx c"
proof -
  have "deliver_tx (handle_ack t p d) = deliver_tx d" for t d
    by (simp add: handle_ack_def Let_def split: option.split)
  then show ?thesis
    using assms
    by (auto simp: handle_packet_def Let_def reliable_def split: if_splits stream.splits
        dest: handle_reliable_delivered[rotated])
qed

theorem no_redelivery_witness:
  "\<exists>c c'. hm_contains (delivered c) 7 \<and> handle_packet 5 (frag 7 Batch [[1]] 0) c = Inr c'
     \<and> deliver_tx c' = deliver_tx c"
proof -
  define c where "c = (new_core 256 (from_millis 200) 0)\<lparr>delivered := [(7, ())]\<rparr>"
  have d: "hm_contains (delivered c) 7"
    by (simp add: c_def hm_defs)
  obtain c' where h: "handle_packet 5 (frag 7 Batch [[1]] 0) c = Inr c'"
    by (auto simp: c_def handle_packet_frag reliable_def handle_reliable_def Let_def const_defs
        hm_contains_def)
  have "deliver_tx c' = deliver_tx c"
    by (rule no_redelivery[OF _ _ h]) (simp_all add: d reliable_def)
  with d h show ?thesis by blast
qed

text \<open>\<^bold>\<open>C19\<close>: no panic when totals agree. If the assembler of the packet's message, where there is
  one, has as many slots as the packet says the message has fragments, then handling a packet that
  \<open>decode\<close> accepted does not panic.\<close>

theorem handle_packet_no_panic:
  assumes "decode buf = Some p"
    and "\<And>a. hm_get (assemblers c) (msg_id p) = Some a \<Longrightarrow> length (frags a) = unat (frag_total p)"
  shows "\<exists>c'. handle_packet now p c = Inr c'"
proof -
  have "\<exists>c'. handle_reliable p (c\<lparr>last_activity := now\<rparr>) = Inr c'" if "has_flag p FLAG_DATA"
  proof -
    have "unat (frag_index p) < unat (frag_total p)"
      using decode_packet_wf[OF assms(1)] that by (simp add: packet_wf_def word_less_nat_alt)
    then show ?thesis
      using assms(2) by (auto simp: handle_reliable_def Let_def split: option.split)
  qed
  then show ?thesis
    by (auto simp: handle_packet_def Let_def split: stream.split)
qed

theorem handle_packet_no_panic_witness:
  "\<exists>c'. handle_packet 5 (frag 7 Batch [[1], [2]] 1) (new_core 256 (from_millis 200) 0) = Inr c'"
proof -
  let ?p = "frag 7 Batch [[1], [2]] 1"
  have d: "decode (encode ?p) = Some ?p"
    by (subst decode_encode_iff) (simp_all add: packet_wf_def wire_simps)
  show ?thesis by (rule handle_packet_no_panic[OF d]) simp
qed

end
