(* ===== verification/Qcp_Limits.thy ===== *)
theory Qcp_Limits
  imports Qcp_Reassembly
begin

text \<open>
  Where the QCP core of \<^verbatim>\<open>cross233-qcp/src/lib.rs\<close> stops short of its own comments: messages that
  the sender accepts and no receiver can decode, assemblers that duplicates leave behind until the
  receiver stalls, a remote packet that indexes out of range, real-time messages that are
  delivered in pieces, and a round-trip estimate that moves away from its samples.
\<close>

section \<open>Messages between the two size limits\<close>

lemma chunk_count_u16:
  assumes "MAX_FRAGMENT_COUNT * MAX_PAYLOAD < length data" "length data \<le> MAX_PAYLOAD * 65535"
  shows "MAX_FRAGMENT_COUNT < unat (of_nat (length (chunks MAX_PAYLOAD data)) :: u16)"
proof -
  have "length (chunks MAX_PAYLOAD data) \<le> 65535"
    using assms(2) by (simp add: length_chunks div_ceil_le_iff mult.commute)
  moreover have "\<not> length (chunks MAX_PAYLOAD data) \<le> MAX_FRAGMENT_COUNT"
    using assms(1) by (simp add: length_chunks div_ceil_le_iff)
  ultimately show ?thesis by simp
qed

lemma oversize_fragment_undecodable:
  assumes "MAX_FRAGMENT_COUNT * MAX_PAYLOAD < length data" "length data \<le> MAX_PAYLOAD * 65535"
    and "p \<in> set (fragments mid data s)"
  shows "decode (encode p) = None"
proof -
  obtain i where i: "i < length (chunks MAX_PAYLOAD data)"
    and p: "p = frag mid s (chunks MAX_PAYLOAD data) i"
    using assms(3) by (auto simp: set_fragments)
  have "length (payload p) \<le> MAX_PAYLOAD"
    using chunks_bound[OF nth_mem[OF i]] by (simp add: p)
  then have "length (payload p) < 2 ^ 32" by (simp add: MAX_PAYLOAD_eq)
  moreover have "\<not> packet_wf p"
    using chunk_count_u16[OF assms(1,2)] by (simp add: packet_wf_def p)
  ultimately show ?thesis by (simp add: decode_encode_iff)
qed

text \<open>The sender accepts what no receiver decodes. \<open>send_stream\<close> takes messages of up to
  65535 fragments, \<open>decode\<close> refuses a total above 8192. For every message between the two limits a
  successful send queues packets, and every one of them is refused by \<open>decode\<close>: the message is
  never delivered, at any number of retransmissions.\<close>

theorem oversize_message_never_decodes:
  assumes "MAX_FRAGMENT_COUNT * MAX_PAYLOAD < length data" "length data \<le> MAX_PAYLOAD * 65535"
    and "\<not> closed c" "\<not> dead c" "hm_len (in_flight c) < cwnd c"
  shows "\<exists>c' ps. send_stream now data s c = SendOk c' \<and> data_tx c' = data_tx c @ ps \<and> ps \<noteq> []
     \<and> (\<forall>b \<in> set ps. decode b = None)"
proof -
  have ne: "data \<noteq> []" using assms(1) by auto
  define mid where "mid = next_msg_id c"
  let ?ps = "map encode (fragments mid data s)"
  have "\<exists>c'. send_commit now data s c = SendOk c' \<and> data_tx c' = data_tx c @ ?ps"
    using assms(3,4)
    by (cases s) (simp_all add: send_commit_def closed_error_def alloc_msg_id_def Let_def mid_def)
  moreover have "send_stream now data s c = send_commit now data s c"
    using assms ne by (simp add: send_stream_def send_gate_def closed_error_def)
  moreover have "?ps \<noteq> []" using ne by (simp add: fragments_eq chunks_eq_Nil_iff)
  moreover have "\<forall>b \<in> set ?ps. decode b = None"
    using oversize_fragment_undecodable[OF assms(1,2)] by auto
  ultimately show ?thesis by metis
qed

theorem oversize_message_never_decodes_witness:
  "\<exists>c' ps. send_stream 0 (replicate (8193 * 1382) 0) Batch (new_core 256 (from_millis 200) 0) = SendOk c'
     \<and> data_tx c' = ps \<and> ps \<noteq> [] \<and> (\<forall>b \<in> set ps. decode b = None)"
proof -
  let ?c = "new_core 256 (from_millis 200) 0"
  have "\<exists>c' ps. send_stream 0 (replicate (8193 * 1382) 0) Batch ?c = SendOk c'
     \<and> data_tx c' = data_tx ?c @ ps \<and> ps \<noteq> [] \<and> (\<forall>b \<in> set ps. decode b = None)"
    by (rule oversize_message_never_decodes) (simp_all add: wire_simps new_core_def const_defs)
  then show ?thesis by simp
qed

section \<open>Assemblers left behind by duplicates\<close>

text \<open>A message of one fragment, and the same packet once more: the message is delivered, and the
  duplicate leaves an assembler that no later packet of the message removes.\<close>

lemma receive_twice:
  assumes s: "reliable s" and c: "\<not> closed c" "hm_wf (assemblers c)" "hm_wf (delivered c)"
    and new: "hm_get (assemblers c) m = None" "hm_get (delivered c) m = None"
    and len: "hm_len (assemblers c) < MAX_ASSEMBLERS" "hm_len (delivered c) < MAX_DELIVERED"
  obtains c' a where
    "receive [(t, frag m s [d] 0), (t, frag m s [d] 0)] c = Inr c'"
    "deliver_tx c' = deliver_tx c @ [(d, stream_as_u8 s)]" "closed c' = closed c"
    "assemblers c' = hm_insert m a (hm_remove m (hm_insert m a (assemblers c)))"
    "delivered c' = hm_insert m () (delivered c)"
proof -
  define a :: assembler where "a = \<lparr>frags = [Some d], got = 1\<rparr>"
  have dl: "\<not> MAX_DELIVERED < hm_len (hm_insert m () (delivered c))"
    using hm.len_insert_new[OF c(3) new(2), of "()"] len(2) by simp
  define c1 where "c1 = send_ctrl (control_packet FLAG_ACK s m) (deliver d s
    (c\<lparr>last_activity := t, assemblers := hm_remove m (hm_insert m a (assemblers c)),
       delivered := hm_insert m () (delivered c)\<rparr>))"
  have h1: "handle_packet t (frag m s [d] 0) c = Inr c1"
    using c new len dl
    by (simp add: handle_packet_frag[OF s] handle_reliable_def complete_message_def Let_def
        hm_contains_def flatten_frags_def c1_def a_def)
  have gone: "hm_get (assemblers c1) m = None" by (simp add: c1_def)
  have op: "\<not> closed c1" and del: "hm_contains (delivered c1) m"
    using c(1) by (simp_all add: c1_def hm_contains_def)
  have room: "hm_len (assemblers c1) < MAX_ASSEMBLERS"
    using room_insert_remove(1)[of c m a] c len by (simp add: c1_def room_def)
  have "handle_packet t (frag m s [d] 0) c1 = Inr (send_ctrl (control_packet FLAG_ACK s m)
      (c1\<lparr>last_activity := t, assemblers := hm_insert m a (assemblers c1)\<rparr>))"
    using gone room del
    by (simp add: handle_packet_frag[OF s op] handle_reliable_def complete_message_def Let_def
        hm_contains_def a_def)
  with h1 show thesis
    by (intro that[of "send_ctrl (control_packet FLAG_ACK s m)
      (c1\<lparr>last_activity := t, assemblers := hm_insert m a (assemblers c1)\<rparr>)" a])
      (simp_all add: c1_def)
qed

lemma receive_append:
  "receive (ps @ qs) c = (case receive ps c of Inl e \<Rightarrow> Inl e | Inr c' \<Rightarrow> receive qs c')"
  by (induction ps c rule: receive.induct) (simp_all split: sum.split)

definition twice :: "instant \<Rightarrow> stream \<Rightarrow> bytes \<Rightarrow> u32 list \<Rightarrow> (instant \<times> packet) list" where
  "twice t s d mids = concat (map (\<lambda>m. [(t, frag m s [d] 0), (t, frag m s [d] 0)]) mids)"

lemma receive_all_twice:
  assumes s: "reliable s"
  shows "\<not> closed c \<Longrightarrow> hm_wf (assemblers c) \<Longrightarrow> hm_wf (delivered c) \<Longrightarrow> distinct mids \<Longrightarrow>
    (\<forall>m \<in> set mids. hm_get (assemblers c) m = None \<and> hm_get (delivered c) m = None) \<Longrightarrow>
    hm_len (assemblers c) + length mids \<le> MAX_ASSEMBLERS \<Longrightarrow>
    hm_len (delivered c) + length mids \<le> MAX_DELIVERED \<Longrightarrow>
    \<exists>c'. receive (twice t s d mids) c = Inr c' \<and> \<not> closed c'
      \<and> deliver_tx c' = deliver_tx c @ replicate (length mids) (d, stream_as_u8 s)
      \<and> hm_len (assemblers c') = hm_len (assemblers c) + length mids
      \<and> dom (hm_get (assemblers c')) = dom (hm_get (assemblers c)) \<union> set mids"
proof (induction mids arbitrary: c)
  case Nil
  then show ?case by (simp add: twice_def)
next
  case (Cons m ms)
  obtain c1 a where r: "receive [(t, frag m s [d] 0), (t, frag m s [d] 0)] c = Inr c1"
    and c1: "deliver_tx c1 = deliver_tx c @ [(d, stream_as_u8 s)]" "closed c1 = closed c"
    "assemblers c1 = hm_insert m a (hm_remove m (hm_insert m a (assemblers c)))"
    "delivered c1 = hm_insert m () (delivered c)"
  proof (rule receive_twice[OF s, of c m t d])
    show "\<not> closed c" "hm_wf (assemblers c)" "hm_wf (delivered c)" by fact+
    show "hm_get (assemblers c) m = None" "hm_get (delivered c) m = None"
      using Cons.prems(5) by simp_all
    show "hm_len (assemblers c) < MAX_ASSEMBLERS" "hm_len (delivered c) < MAX_DELIVERED"
      using Cons.prems(6,7) by simp_all
  qed
  have wf: "hm_wf (assemblers c1)" "hm_wf (delivered c1)"
    using Cons.prems by (simp_all add: c1)
  have dom: "dom (hm_get (assemblers c1)) = insert m (dom (hm_get (assemblers c)))"
    by (auto simp: c1 dom_def)
  have len1: "hm_len (assemblers c1) = Suc (hm_len (assemblers c))"
    using Cons.prems(2,5) wf
    by (simp add: hm_len_dom dom domIff card_insert_if hm.finite_dom)
  have "hm_len (delivered c1) = Suc (hm_len (delivered c))"
    unfolding c1 using Cons.prems by (intro hm.len_insert_new) simp_all
  moreover have "\<forall>k \<in> set ms. hm_get (assemblers c1) k = None \<and> hm_get (delivered c1) k = None"
    using Cons.prems(4,5) by (auto simp: c1)
  moreover have "distinct ms" "\<not> closed c1" using Cons.prems(1,4) c1(2) by simp_all
  ultimately have "\<exists>c'. receive (twice t s d ms) c1 = Inr c' \<and> \<not> closed c'
      \<and> deliver_tx c' = deliver_tx c1 @ replicate (length ms) (d, stream_as_u8 s)
      \<and> hm_len (assemblers c') = hm_len (assemblers c1) + length ms
      \<and> dom (hm_get (assemblers c')) = dom (hm_get (assemblers c1)) \<union> set ms"
    using wf Cons.prems(6,7) len1 by (intro Cons.IH) simp_all
  then obtain c' where c': "receive (twice t s d ms) c1 = Inr c'" "\<not> closed c'"
    "deliver_tx c' = deliver_tx c1 @ replicate (length ms) (d, stream_as_u8 s)"
    "hm_len (assemblers c') = hm_len (assemblers c1) + length ms"
    "dom (hm_get (assemblers c')) = dom (hm_get (assemblers c1)) \<union> set ms"
    by blast
  have "twice t s d (m # ms) = [(t, frag m s [d] 0), (t, frag m s [d] 0)] @ twice t s d ms"
    by (simp add: twice_def)
  then have "receive (twice t s d (m # ms)) c = receive (twice t s d ms) c1"
    by (simp only: receive_append r sum.case)
  with c' c1(1) len1 show ?case by (intro exI[of _ c']) (simp add: dom)
qed

text \<open>Retransmissions stall the receiver. Take 256 messages of one fragment each, every packet
  arriving twice (one retransmission whose first copy was not lost). All 256 are delivered, but
  each duplicate leaves an assembler behind. From then on every packet of every other message on
  a reliable stream is dropped: nothing is delivered, nothing is acknowledged, and the assemblers
  stay as they are.\<close>

theorem duplicates_stall_receiver:
  assumes "reliable s" "distinct mids" "length mids = MAX_ASSEMBLERS"
  shows "\<exists>c. receive (twice t s d mids) (new_core 256 (from_millis 200) t) = Inr c
    \<and> deliver_tx c = replicate MAX_ASSEMBLERS (d, stream_as_u8 s)
    \<and> (\<forall>now s' cs i mid. reliable s' \<longrightarrow> mid \<notin> set mids \<longrightarrow>
         handle_packet now (frag mid s' cs i) c = Inr (c\<lparr>last_activity := now\<rparr>))"
proof -
  obtain c where c: "receive (twice t s d mids) (new_core 256 (from_millis 200) t) = Inr c"
    "\<not> closed c" "deliver_tx c = replicate MAX_ASSEMBLERS (d, stream_as_u8 s)"
    "hm_len (assemblers c) = MAX_ASSEMBLERS" "dom (hm_get (assemblers c)) = set mids"
    using receive_all_twice[OF assms(1), of "new_core 256 (from_millis 200) t" mids t d] assms
    by (auto simp: const_defs dom_def)
  have "handle_packet now (frag mid s' cs i) c = Inr (c\<lparr>last_activity := now\<rparr>)"
    if "reliable s'" "mid \<notin> set mids" for now s' cs i mid
  proof -
    have "hm_get (assemblers c) mid = None" using that(2) c(5) by (metis domIff)
    then show ?thesis
      using c(2,4) by (simp add: handle_packet_frag[OF that(1)] handle_reliable_def hm_contains_def Let_def)
  qed
  with c show ?thesis by blast
qed

theorem duplicates_stall_receiver_witness:
  "\<exists>c. receive (twice 0 Critical [1] (map of_nat [0..<256])) (new_core 256 (from_millis 200) 0) = Inr c
    \<and> handle_packet 7 (frag 1000 Batch [[2]] 0) c = Inr (c\<lparr>last_activity := 7\<rparr>)"
proof -
  define m :: "u32 list" where "m = map of_nat [0..<256]"
  have inj: "inj_on (of_nat :: nat \<Rightarrow> u32) {0..<256}"
  proof (rule inj_onI)
    fix x y :: nat
    assume "x \<in> {0..<256}" "y \<in> {0..<256}" and eq: "(of_nat x :: u32) = of_nat y"
    then have "x < 2 ^ 32" "y < 2 ^ 32" by simp_all
    with eq show "x = y" by (metis unat_of_nat_u32)
  qed
  have new: "(1000 :: u32) \<notin> set m"
  proof
    assume "(1000 :: u32) \<in> set m"
    then obtain x :: nat where "x < 256" "(1000 :: u32) = of_nat x"
      unfolding m_def set_map set_upt by auto
    then show False using unat_of_nat_u32[of x] arg_cong[of "1000 :: u32" "of_nat x" unat] by simp
  qed
  have "distinct m" unfolding m_def distinct_map set_upt using inj distinct_upt by blast
  moreover have "length m = MAX_ASSEMBLERS" by (simp only: m_def length_map length_upt MAX_ASSEMBLERS_def)
  moreover have "reliable Critical" "reliable Batch" by (simp_all add: reliable_def)
  ultimately show ?thesis
    using duplicates_stall_receiver[of Critical m 0 "[1]"] new unfolding m_def by blast
qed

section \<open>A remote packet that indexes out of range\<close>

text \<open>Two decodable packets make the receiver panic. From every open core with a free
  assembler slot and for every unused message id, there are two packets that \<open>decode\<close> accepts and
  whose handling, one after the other, indexes the fragment list out of range: the second claims a
  larger total than the first.\<close>

theorem decodable_packets_panic:
  assumes "\<not> closed c" "hm_get (assemblers c) mid = None" "hm_len (assemblers c) < MAX_ASSEMBLERS"
  shows "\<exists>p q. decode (encode p) = Some p \<and> decode (encode q) = Some q
    \<and> msg_id p = mid \<and> msg_id q = mid \<and> receive [(t, p), (t, q)] c = Inl IndexOutOfBounds"
proof -
  define p where "p = frag mid Batch [[1], [2]] 0"
  define q where "q = frag mid Batch [[1], [2], [3], [4]] 3"
  define a :: assembler where "a = \<lparr>frags = [Some [1], None], got = 1\<rparr>"
  have r: "reliable Batch" and r2: "replicate 2 None = [None, None :: bytes option]"
    by (simp_all add: reliable_def numeral_2_eq_2)
  have d: "decode (encode p) = Some p" "decode (encode q) = Some q"
    by (subst decode_encode_iff; simp add: packet_wf_def p_def q_def wire_simps)+
  have h: "handle_packet t p c = Inr (c\<lparr>last_activity := t, assemblers := hm_insert mid a (assemblers c)\<rparr>)"
    using assms r2 by (simp add: p_def handle_packet_frag[OF r] handle_reliable_def Let_def
        hm_contains_def a_def)
  have "handle_packet t q (c\<lparr>last_activity := t, assemblers := hm_insert mid a (assemblers c)\<rparr>)
      = Inl IndexOutOfBounds"
    using assms(1) by (simp add: q_def handle_packet_frag[OF r] handle_reliable_def Let_def
        hm_contains_def a_def)
  with d h show ?thesis
    by (intro exI[of _ p] exI[of _ q]) (simp add: p_def q_def)
qed

theorem decodable_packets_panic_witness:
  "\<exists>p q. decode (encode p) = Some p \<and> decode (encode q) = Some q \<and> msg_id p = 9 \<and> msg_id q = 9
    \<and> receive [(1, p), (1, q)] (new_core 256 (from_millis 200) 0) = Inl IndexOutOfBounds"
  by (rule decodable_packets_panic) (simp_all add: const_defs)

section \<open>Real-time messages\<close>

lemma handle_packet_realtime:
  "\<not> closed c \<Longrightarrow> handle_packet now (frag mid Realtime cs i) c
     = Inr (handle_realtime (frag mid Realtime cs i) (c\<lparr>last_activity := now\<rparr>))"
  by (simp add: handle_packet_def Let_def)

text \<open>The latest real-time message wins. A real-time packet is delivered exactly when no
  real-time message came before it or its id is one of the \<open>2\<^sup>3\<^sup>1\<close> ids from the last one on,
  counted modulo \<open>2\<^sup>3\<^sup>2\<close>; then its id becomes the last one. An older packet changes nothing but the
  activity time.\<close>

theorem realtime_latest_wins:
  assumes "\<not> closed c"
  shows "\<exists>c'. handle_packet now (frag mid Realtime cs i) c = Inr c' \<and>
    (if last_realtime c = 0 \<or> (\<exists>k < 2 ^ 31. mid = last_realtime c + of_nat k)
     then last_realtime c' = mid \<and> deliver_tx c' = deliver_tx c @ [(cs ! i, 1)]
     else c' = c\<lparr>last_activity := now\<rparr>)"
proof -
  have "mid - last_realtime c < 0x80000000 \<longleftrightarrow> (\<exists>k < 2 ^ 31. mid = last_realtime c + of_nat k)"
  proof
    assume "mid - last_realtime c < 0x80000000"
    then have "unat (mid - last_realtime c) < 2 ^ 31" by (simp add: word_less_nat_alt)
    moreover have "mid = last_realtime c + of_nat (unat (mid - last_realtime c))" by simp
    ultimately show "\<exists>k < 2 ^ 31. mid = last_realtime c + of_nat k" by blast
  next
    assume "\<exists>k < 2 ^ 31. mid = last_realtime c + of_nat k"
    then obtain k where "k < 2 ^ 31" "mid - last_realtime c = of_nat k" by auto
    then show "mid - last_realtime c < 0x80000000" by (simp add: word_less_nat_alt)
  qed
  then show ?thesis
    by (auto simp: handle_packet_realtime[OF assms] handle_realtime_def deliver_def stream_as_u8_def)
qed

theorem realtime_latest_wins_witness:
  "\<exists>c'. handle_packet 4 (frag 6 Realtime [[1]] 0) ((new_core 256 (from_millis 200) 0)\<lparr>last_realtime := 5\<rparr>)
     = Inr c' \<and> last_realtime c' = 6 \<and> deliver_tx c' = [([1], 1)]"
proof -
  let ?c = "(new_core 256 (from_millis 200) 0)\<lparr>last_realtime := 5\<rparr>"
  have "\<exists>k < 2 ^ 31. (6 :: u32) = last_realtime ?c + of_nat k"
    by (rule exI[of _ 1]) simp
  then show ?thesis
    using realtime_latest_wins[of ?c 4 6 "[[1]]" 0] by auto
qed

lemma receive_realtime_rest:
  "\<not> closed c \<Longrightarrow> last_realtime c = mid \<Longrightarrow>
     \<exists>c'. receive (map (\<lambda>i. (t, frag mid Realtime cs i)) ixs) c = Inr c'
       \<and> deliver_tx c' = deliver_tx c @ map (\<lambda>i. (cs ! i, 1)) ixs"
proof (induction ixs arbitrary: c)
  case Nil
  then show ?case by simp
next
  case (Cons i ixs)
  let ?c = "deliver (cs ! i) Realtime (c\<lparr>last_activity := t, last_realtime := mid\<rparr>)"
  have h: "handle_packet t (frag mid Realtime cs i) c = Inr ?c"
    using Cons.prems by (simp add: handle_packet_realtime handle_realtime_def)
  have "\<not> closed ?c" "last_realtime ?c = mid"
    using Cons.prems(1) by (simp_all add: deliver_def)
  from Cons.IH[OF this] show ?case by (simp add: h stream_as_u8_def)
qed

text \<open>A real-time message that needs several packets is not reassembled. Its fragments,
  received in order, reach the application as separate messages, one per packet.\<close>

theorem realtime_not_reassembled:
  assumes "\<not> closed c" "data \<noteq> []"
    and "last_realtime c = 0 \<or> mid - last_realtime c < 0x80000000"
  shows "\<exists>c'. receive (map (Pair t) (fragments mid data Realtime)) c = Inr c'
    \<and> deliver_tx c' = deliver_tx c @ map (\<lambda>ch. (ch, 1)) (chunks MAX_PAYLOAD data)"
proof -
  define cs where "cs = chunks MAX_PAYLOAD data"
  have "cs \<noteq> []" using assms(2) by (simp add: cs_def chunks_eq_Nil_iff)
  then obtain ixs where ix: "[0..<length cs] = 0 # ixs"
    by (cases cs) (simp_all add: upt_conv_Cons del: upt_Suc)
  let ?c = "deliver (cs ! 0) Realtime (c\<lparr>last_activity := t, last_realtime := mid\<rparr>)"
  have h: "handle_packet t (frag mid Realtime cs 0) c = Inr ?c"
    using assms by (auto simp: handle_packet_realtime handle_realtime_def)
  have c: "\<not> closed ?c" "last_realtime ?c = mid" using assms(1) by (simp_all add: deliver_def)
  have ps: "map (Pair t) (fragments mid data Realtime)
      = (t, frag mid Realtime cs 0) # map (\<lambda>i. (t, frag mid Realtime cs i)) ixs"
    by (simp add: fragments_eq cs_def[symmetric] ix)
  have "map (\<lambda>ch. (ch, 1 :: u8)) cs = map (\<lambda>i. (cs ! i, 1)) [0..<length cs]"
    by (rule nth_equalityI) simp_all
  then have out: "map (\<lambda>ch. (ch, 1 :: u8)) cs = (cs ! 0, 1) # map (\<lambda>i. (cs ! i, 1)) ixs"
    by (simp add: ix)
  show ?thesis
    unfolding cs_def[symmetric] ps out
    using receive_realtime_rest[OF c, of t cs ixs] by (auto simp: h stream_as_u8_def)
qed

theorem realtime_not_reassembled_witness:
  "\<exists>c'. receive (map (Pair 0) (fragments 3 (replicate 1383 7) Realtime)) (new_core 256 (from_millis 200) 0)
       = Inr c' \<and> deliver_tx c' = [(replicate 1382 7, 1), ([7], 1)]"
proof -
  have r: "replicate 1383 (7 :: u8) = replicate 1382 7 @ [7]"
    using replicate_append_same[of 1382 "7 :: u8"]
    by (metis eval_nat_numeral(3) numeral_eq_Suc pred_numeral_simps(3) replicate_Suc)
  have "chunks MAX_PAYLOAD (replicate 1383 (7 :: u8)) = [replicate 1382 7, [7]]"
    unfolding r MAX_PAYLOAD_eq by (simp add: chunks_step[of 1382 "replicate 1382 7 @ [7]"] chunks_small)
  then show ?thesis
    using realtime_not_reassembled[of "new_core 256 (from_millis 200) 0" "replicate 1383 7" 3 0]
    by auto
qed

section \<open>The round-trip estimate\<close>

lemma update_rto_srtt:
  "rtt_init c \<Longrightarrow> rtt_init (update_rto d c)
     \<and> srtt_ms (update_rto d c) - real d / 1000000 = 9/8 * (srtt_ms c - real d / 1000000)"
  by (simp add: update_rto_def Let_def field_simps)

text \<open>The smoothed round-trip time moves away from its samples. After the first sample, \<open>n\<close>
  further samples of the same round-trip time multiply the error of the estimate by
  \<open>(9/8)\<^sup>n\<close>; Jacobson's filter would multiply it by \<open>(7/8)\<^sup>n\<close>.\<close>

theorem srtt_diverges:
  assumes "rtt_init c"
  shows "srtt_ms ((update_rto d ^^ n) c) - real d / 1000000
    = (9/8) ^ n * (srtt_ms c - real d / 1000000)"
proof -
  have "rtt_init ((update_rto d ^^ n) c)
    \<and> srtt_ms ((update_rto d ^^ n) c) - real d / 1000000 = (9/8) ^ n * (srtt_ms c - real d / 1000000)"
    by (induction n) (simp_all add: assms update_rto_srtt)
  then show ?thesis ..
qed

theorem srtt_diverges_witness:
  "srtt_ms ((update_rto 20000000 ^^ 2) ((new_core 256 (from_millis 200) 0)\<lparr>rtt_init := True\<rparr>))
     - 20 = (9/8) ^ 2 * 80"
  using srtt_diverges[of "(new_core 256 (from_millis 200) 0)\<lparr>rtt_init := True\<rparr>" 2 20000000]
  by (simp add: new_core_def)

end
