(* ===== verification/Qcp_Flow.thy ===== *)
theory Qcp_Flow
  imports Qcp_Reassembly
begin

text \<open>
  Flow and congestion control of a QCP connection: the bounds of every reachable core, the
  congestion window as the cap on messages in flight, window growth, message ids, what an ACK
  changes, and that an unacknowledged message kills the connection after its retransmit budget.
\<close>

section \<open>Reachable cores\<close>

text \<open>\<^bold>\<open>C18\<close>: the bounds of the connection state hold in every reachable core: whatever
  datagrams arrive, however the loops and the calls of the owner interleave, at most 256 messages
  are being reassembled, at most 65536 ids are remembered as delivered, the congestion window stays
  in 1..4096, the retransmission timeout in 50..2000 ms, no message is resent more than 15 times,
  message id 0 is never handed out, and a dead connection is closed.\<close>

theorem reachable_bounds:
  assumes "core_reachable c"
  shows "hm_len (assemblers c) \<le> 256 \<and> hm_len (delivered c) \<le> 65536
    \<and> 1 \<le> cwnd c \<and> cwnd c \<le> 4096 \<and> 2 \<le> ssthresh c \<and> ssthresh c \<le> 4096
    \<and> 50 * 1000000 \<le> rto c \<and> rto c \<le> 2000 * 1000000
    \<and> (\<forall>mid. retrans_count c mid \<le> 15)
    \<and> fst (alloc_msg_id c) \<noteq> 0 \<and> (dead c \<longrightarrow> closed c)"
proof -
  have "maps_ok c" "ranges_ok c"
    using core_ok_reachable[OF assms] by (simp_all add: core_ok_def)
  then show ?thesis
    by (auto simp: maps_ok_def ranges_ok_def const_defs from_millis_def retrans_count_def
        alloc_msg_id_def Let_def split: option.split)
qed

theorem reachable_bounds_witness:
  "core_reachable (close (new_core 256 (from_millis 200) 5))
   \<and> cwnd (close (new_core 256 (from_millis 200) 5)) \<le> 4096"
proof -
  have r: "core_reachable (close (new_core 256 (from_millis 200) 5))"
    by (rule reach_step[OF reach_new step_close])
  from r reachable_bounds[OF r] show ?thesis by blast
qed

section \<open>The congestion window\<close>

lemma closed_error_cases:
  "closed_error c = None \<longleftrightarrow> \<not> closed c \<and> \<not> dead c"
  by (simp add: closed_error_def)

lemma send_commit_reliable:
  assumes "reliable s" "send_commit now data s c = SendOk c'"
  shows "\<not> closed c" "\<not> dead c" "cwnd c' = cwnd c"
    "in_flight c' = hm_insert (next_msg_id c)
       \<lparr>if_data = data, if_stream = s, if_frags = of_nat (div_ceil (length data) MAX_PAYLOAD),
        sent_at = now, retransmitted = False\<rparr> (in_flight c)"
    "data_tx c' = data_tx c @ map encode (fragments (next_msg_id c) data s)"
    "ctrl_tx c' = ctrl_tx c"
  using assms
  by (auto simp: send_commit_def alloc_msg_id_def Let_def reliable_def closed_error_cases
      split: option.splits stream.splits)


lemma send_gate_fresh [simp]: "send_gate (new_core 256 r now) = GatePass"
  by (simp add: send_gate_def closed_error_def new_core_def const_defs)

lemma send_fresh:
  assumes "reliable s" "data \<noteq> []" "length data \<le> MAX_PAYLOAD * 65535"
  obtains c' where "send_stream now data s (new_core 256 r t) = SendOk c'"
  using assms
  by (cases s) (simp_all add: send_stream_def send_commit_def closed_error_def alloc_msg_id_def
      reliable_def Let_def)


text \<open>The gate and the commit are two critical sections: two senders that both pass the gate before
  either commits exceed the window.\<close>

text \<open>With one free slot, two senders that pass the gate before either takes its message id
  leave one message more in flight than the window allows.\<close>

theorem concurrent_senders_overrun:
  assumes "core_ok c" "reliable s1" "reliable s2" "send_gate c = GatePass"
    and "Suc (hm_len (in_flight c)) = cwnd c"
    and "hm_get (in_flight c) (next_msg_id c) = None"
    and "hm_get (in_flight c) (next_msg_id c + 1) = None" "next_msg_id c + 1 \<noteq> 0"
    and "send_commit t1 d1 s1 c = SendOk c1" "send_commit t2 d2 s2 c1 = SendOk c2"
  shows "hm_len (in_flight c2) = Suc (cwnd c2)"
proof -
  note f1 = send_commit_reliable[OF assms(2) assms(9)] and f2 = send_commit_reliable[OF assms(3) assms(10)]
  have n: "next_msg_id c1 = next_msg_id c + 1"
    using assms(2,8,9) by (auto simp: send_commit_def alloc_msg_id_def Let_def reliable_def
        split: option.splits stream.splits)
  have wf: "hm_wf (in_flight c)" using assms(1) by (simp add: core_ok_def maps_ok_def)
  have "hm_len (in_flight c1) = cwnd c"
    using assms(5,6) by (simp add: f1(4) hm.len_insert_new[OF wf])
  moreover have "hm_wf (in_flight c1)" by (simp add: f1(4) wf)
  moreover have "hm_get (in_flight c1) (next_msg_id c1) = None"
    using assms(7) by (simp add: f1(4) n)
  ultimately show ?thesis
    by (simp add: f2(3,4) f1(3) hm.len_insert_new)
qed

definition nearly_full :: core where
  "nearly_full = (new_core 1 (from_millis 200) 0)"

theorem concurrent_senders_overrun_witness:
  "\<exists>c1 c2. send_commit 1 [7] Batch nearly_full = SendOk c1 \<and> send_commit 2 [8] Batch c1 = SendOk c2
     \<and> hm_len (in_flight c2) = Suc (cwnd c2)"
proof -
  have ok: "core_ok nearly_full"
    unfolding nearly_full_def by (rule core_ok_new_core) (simp_all add: from_millis_def const_defs)
  obtain c1 where c1: "send_commit 1 [7] Batch nearly_full = SendOk c1"
    by (simp add: nearly_full_def send_commit_def closed_error_def alloc_msg_id_def Let_def)
  then have "\<not> closed c1" "\<not> dead c1"
    by (auto simp: nearly_full_def send_commit_def closed_error_def alloc_msg_id_def Let_def)
  then obtain c2 where c2: "send_commit 2 [8] Batch c1 = SendOk c2"
    by (simp add: send_commit_def closed_error_def alloc_msg_id_def Let_def)
  have "hm_len (in_flight c2) = Suc (cwnd c2)"
    by (rule concurrent_senders_overrun[OF ok _ _ _ _ _ _ _ c1 c2])
      (simp_all add: reliable_def nearly_full_def send_gate_def closed_error_def new_core_def const_defs)
  with c1 c2 show ?thesis by blast
qed

lemma grow_window_slow:
  "n \<le> ssthresh c - cwnd c \<Longrightarrow> cwnd c + n \<le> MAX_CWND \<Longrightarrow> (grow_window ^^ n) c = c\<lparr>cwnd := cwnd c + n\<rparr>"
  by (induction n) (simp_all add: grow_window_def)

lemma grow_window_count:
  "ssthresh c \<le> cwnd c \<Longrightarrow> n < cwnd c - ca_ack c \<Longrightarrow>
     (grow_window ^^ n) c = c\<lparr>ca_ack := ca_ack c + n\<rparr>"
  by (induction n) (simp_all add: grow_window_def)

text \<open>Window growth. Below \<^verbatim>\<open>ssthresh\<close> every acknowledged message opens the window by one
  (slow start); from a fresh round on, at or above it, a whole window of acknowledged messages opens
  it by exactly one (congestion avoidance). Nothing else of the core changes.\<close>

theorem window_growth:
  assumes "core_ok c"
  shows "(\<forall>n \<le> ssthresh c - cwnd c. (grow_window ^^ n) c = c\<lparr>cwnd := cwnd c + n\<rparr>)
    \<and> (ssthresh c \<le> cwnd c \<and> ca_ack c = 0 \<and> cwnd c < MAX_CWND
        \<longrightarrow> (grow_window ^^ cwnd c) c = c\<lparr>cwnd := Suc (cwnd c)\<rparr>)"
proof (intro conjI allI impI)
  fix n
  assume "n \<le> ssthresh c - cwnd c"
  moreover have "ssthresh c \<le> MAX_CWND" "cwnd c \<le> MAX_CWND"
    using assms by (simp_all add: core_ok_def ranges_ok_def)
  ultimately show "(grow_window ^^ n) c = c\<lparr>cwnd := cwnd c + n\<rparr>"
    by (intro grow_window_slow) linarith+
next
  assume a: "ssthresh c \<le> cwnd c \<and> ca_ack c = 0 \<and> cwnd c < MAX_CWND"
  obtain n where n: "cwnd c = Suc n"
    using assms by (cases "cwnd c") (simp_all add: core_ok_def ranges_ok_def)
  have "(grow_window ^^ n) c = c\<lparr>ca_ack := n\<rparr>"
    using grow_window_count[of c n] a n by simp
  then show "(grow_window ^^ cwnd c) c = c\<lparr>cwnd := Suc (cwnd c)\<rparr>"
    using a n by (simp add: grow_window_def)
qed

theorem window_growth_witness:
  "core_ok (new_core 256 (from_millis 200) 0)
   \<and> cwnd ((grow_window ^^ 3) (new_core 256 (from_millis 200) 0)) = 259"
proof -
  let ?c = "new_core 256 (from_millis 200) 0"
  have ok: "core_ok ?c" by simp
  have "3 \<le> ssthresh ?c - cwnd ?c" "cwnd ?c = 256" by (simp_all add: new_core_def const_defs)
  with window_growth[OF ok] ok show ?thesis by simp
qed

section \<open>Message ids\<close>

text \<open>The ids handed out by \<open>n\<close> sends in a row.\<close>

fun alloc_ids :: "nat \<Rightarrow> core \<Rightarrow> u32 list" where
  "alloc_ids 0 c = []"
| "alloc_ids (Suc n) c = (let (i, c') = alloc_msg_id c in i # alloc_ids n c')"

lemma unat_u32_less: "unat (i :: u32) < 2 ^ 32"
  by (rule order_less_le_trans[OF unsigned_less]) simp

lemma mod_shift_inj: "x < m \<Longrightarrow> y < m \<Longrightarrow> (a + x) mod m = (a + y) mod m \<Longrightarrow> x = (y :: nat)"
proof (induction x y rule: linorder_wlog)
  case (le x y)
  then have "m dvd (a + y) - (a + x)"
    by (metis add_le_cancel_left mod_eq_dvd_iff_nat)
  then have "m dvd y - x" by simp
  with le show ?case by (auto dest: dvd_imp_le)
qed auto

text \<open>Ids run through \<open>1, \<dots>, 2\<^sup>3\<^sup>2 - 1\<close> in a cycle: position \<open>k\<close> of the cycle holds id \<open>k + 1\<close>.\<close>

definition id_pos :: "u32 \<Rightarrow> nat" where
  "id_pos i = unat i - 1"

lemma id_pos_inj: "i \<noteq> 0 \<Longrightarrow> j \<noteq> 0 \<Longrightarrow> id_pos i = id_pos j \<longleftrightarrow> i = j"
proof -
  assume "i \<noteq> 0" "j \<noteq> 0"
  then have "0 < unat i" "0 < unat j" by (simp_all add: unat_gt_0)
  then have "id_pos i = id_pos j \<longleftrightarrow> unat i = unat j" unfolding id_pos_def by linarith
  then show ?thesis by (simp add: word_unat_eq_iff)
qed

lemma id_pos_next:
  assumes "next_msg_id c \<noteq> 0"
  shows "id_pos (next_msg_id (snd (alloc_msg_id c))) = Suc (id_pos (next_msg_id c)) mod (2 ^ 32 - 1)"
    "next_msg_id (snd (alloc_msg_id c)) \<noteq> 0"
proof -
  let ?i = "next_msg_id c"
  have lt: "unat ?i < 2 ^ 32" by (rule unat_u32_less)
  have pos: "0 < unat ?i" using assms by (simp add: unat_gt_0)
  have u: "unat (?i + 1) = (if unat ?i = 2 ^ 32 - 1 then 0 else Suc (unat ?i))"
    using lt by (auto simp: unat_word_ariths)
  show "next_msg_id (snd (alloc_msg_id c)) \<noteq> 0" by (simp add: alloc_msg_id_def Let_def)
  show "id_pos (next_msg_id (snd (alloc_msg_id c))) = Suc (id_pos (next_msg_id c)) mod (2 ^ 32 - 1)"
  proof (cases "unat ?i = 2 ^ 32 - 1")
    case True
    then have "?i + 1 = 0" using u by (simp add: unat_eq_0)
    then show ?thesis using True by (simp add: alloc_msg_id_def Let_def id_pos_def)
  next
    case False
    then have "?i + 1 \<noteq> 0" using u by (auto simp: unat_eq_0)
    then show ?thesis using False u pos lt by (simp add: alloc_msg_id_def Let_def id_pos_def)
  qed
qed

lemma alloc_ids_pos:
  "next_msg_id c \<noteq> 0 \<Longrightarrow>
     map id_pos (alloc_ids n c) = map (\<lambda>k. (id_pos (next_msg_id c) + k) mod (2 ^ 32 - 1)) [0..<n]
     \<and> 0 \<notin> set (alloc_ids n c)"
proof (induction n arbitrary: c)
  case 0
  then show ?case by simp
next
  case (Suc n)
  obtain i c' where a: "alloc_msg_id c = (i, c')" by (cases "alloc_msg_id c")
  have i: "i = next_msg_id c" using a by (simp add: alloc_msg_id_def Let_def)
  have n: "id_pos (next_msg_id c') = Suc (id_pos (next_msg_id c)) mod (2 ^ 32 - 1)" "next_msg_id c' \<noteq> 0"
    using id_pos_next[OF Suc.prems] a by simp_all
  have "id_pos (next_msg_id c) < 2 ^ 32 - 1"
    using unat_u32_less[of "next_msg_id c"] Suc.prems unat_gt_0[of "next_msg_id c"]
    unfolding id_pos_def by linarith
  then show ?case
    using Suc.IH[OF n(2)] Suc.prems
    by (simp add: a i n(1) upt_conv_Cons map_Suc_upt[symmetric] mod_add_left_eq del: upt_Suc)
qed

text \<open>Message ids do not repeat. The ids of up to \<open>2\<^sup>3\<^sup>2 - 1\<close> consecutive sends are pairwise
  distinct and never 0, across the wrap-around of the 32-bit counter.\<close>

theorem msg_ids_distinct:
  assumes "next_msg_id c \<noteq> 0" "n \<le> 2 ^ 32 - 1"
  shows "distinct (alloc_ids n c) \<and> 0 \<notin> set (alloc_ids n c)"
proof -
  let ?f = "\<lambda>k. (id_pos (next_msg_id c) + k) mod (2 ^ 32 - 1)"
  have "inj_on ?f {0..<n}"
    using assms(2) by (intro inj_onI) (rule mod_shift_inj[of _ "2 ^ 32 - 1"], auto)
  then have "distinct (map ?f [0..<n])" by (simp add: distinct_map)
  then have "distinct (map id_pos (alloc_ids n c))"
    by (subst conjunct1[OF alloc_ids_pos[OF assms(1)]])
  then have "distinct (alloc_ids n c)" by (simp add: distinct_map)
  then show ?thesis using alloc_ids_pos[OF assms(1), of n] by simp
qed

theorem msg_ids_distinct_witness:
  "alloc_ids 3 ((new_core 256 1 0)\<lparr>next_msg_id := 0xFFFFFFFE\<rparr>) = [0xFFFFFFFE, 0xFFFFFFFF, 1]
   \<and> distinct (alloc_ids 3 ((new_core 256 1 0)\<lparr>next_msg_id := 0xFFFFFFFE\<rparr>))"
  using msg_ids_distinct[of "(new_core 256 1 0)\<lparr>next_msg_id := 0xFFFFFFFE\<rparr>" 3]
  by (simp add: numeral_3_eq_3 alloc_msg_id_def Let_def)

section \<open>Acknowledgements\<close>

definition is_ack :: "packet \<Rightarrow> bool" where
  "is_ack p \<longleftrightarrow> has_flag p FLAG_ACK \<and> \<not> has_flag p FLAG_SYN \<and> \<not> has_flag p FLAG_FIN
     \<and> \<not> has_flag p FLAG_PING \<and> \<not> has_flag p FLAG_PONG"

lemma handle_packet_ack:
  "\<not> closed c \<Longrightarrow> is_ack p \<Longrightarrow>
     handle_packet now p c = Inr (handle_ack now p (c\<lparr>last_activity := now\<rparr>))"
  by (simp add: handle_packet_def is_ack_def Let_def)

text \<open>An ACK settles its own message and no other: the message leaves the in-flight map
  and its retransmit count is forgotten, the entries of all other messages stay. The round-trip
  estimate takes a sample only when the message was never retransmitted (Karn's rule); the window
  grows only if the message was in flight; blocked senders are woken in every case.\<close>

theorem ack_settles_message:
  assumes "core_ok c" "\<not> closed c" "is_ack p" "hm_get (in_flight c) (msg_id p) = Some infl"
  shows "\<exists>c'. handle_packet now p c = Inr c'
    \<and> hm_get (in_flight c') (msg_id p) = None
    \<and> retrans_count c' (msg_id p) = 0
    \<and> (\<forall>k. k \<noteq> msg_id p \<longrightarrow> hm_get (in_flight c') k = hm_get (in_flight c) k
                          \<and> retrans_count c' k = retrans_count c k)
    \<and> Suc (hm_len (in_flight c')) = hm_len (in_flight c)
    \<and> cwnd c' = cwnd (grow_window c)
    \<and> (retransmitted infl \<longrightarrow> srtt_ms c' = srtt_ms c \<and> rttvar_ms c' = rttvar_ms c \<and> rto c' = rto c)
    \<and> (\<not> retransmitted infl \<longrightarrow> rto c' = rto (update_rto (now - sent_at infl) c))
    \<and> WindowNotify \<in> set (woken c')"
proof -
  have wf: "hm_wf (in_flight c)" using assms(1) by (simp add: core_ok_def maps_ok_def)
  define c1 where "c1 = (c\<lparr>last_activity := now, in_flight := hm_remove (msg_id p) (in_flight c)\<rparr>)"
  define c2 where "c2 = (if retransmitted infl then c1 else update_rto (now - sent_at infl) c1)"
  define c3 where "c3 = c2\<lparr>retrans := hm_remove (msg_id p) (retrans c2)\<rparr>"
  have h: "handle_packet now p c = Inr (notify_waiters WindowNotify (grow_window c3\<lparr>last_activity := now\<rparr>))"
    using assms by (simp add: handle_packet_ack handle_ack_def Let_def c1_def c2_def c3_def)
  have c3: "in_flight c3 = hm_remove (msg_id p) (in_flight c)"
    "retrans c3 = hm_remove (msg_id p) (retrans c)"
    "cwnd c3 = cwnd c" "ssthresh c3 = ssthresh c" "ca_ack c3 = ca_ack c"
    by (simp_all add: c1_def c2_def c3_def)
  have rto: "rto c3 = (if retransmitted infl then rto c else rto (update_rto (now - sent_at infl) c))"
    "retransmitted infl \<Longrightarrow> srtt_ms c3 = srtt_ms c \<and> rttvar_ms c3 = rttvar_ms c"
    by (simp_all add: c1_def c2_def c3_def update_rto_def Let_def)
  have gw: "cwnd (grow_window c3) = cwnd (grow_window c)"
    "srtt_ms (grow_window c3) = srtt_ms c3" "rttvar_ms (grow_window c3) = rttvar_ms c3"
    by (simp_all add: grow_window_def c3)
  have len: "Suc (hm_len (hm_remove (msg_id p) (in_flight c))) = hm_len (in_flight c)"
    by (rule hm.len_remove[OF wf assms(4)])
  show ?thesis
    by (intro exI conjI, rule h)
      (simp_all add: c3 rto gw len retrans_count_def notify_waiters_def)
qed

theorem ack_settles_message_witness:
  "\<exists>c c' infl. hm_get (in_flight c) 1 = Some infl
     \<and> handle_packet 9 (control_packet FLAG_ACK Batch 1) c = Inr c' \<and> hm_get (in_flight c') 1 = None"
proof -
  obtain c where c: "send_stream 5 [1, 2] Batch (new_core 256 (from_millis 200) 0) = SendOk c"
    by (rule send_fresh[of Batch "[1, 2]" 5 "from_millis 200" 0])
      (simp_all add: reliable_def MAX_PAYLOAD_eq)
  then have com: "send_commit 5 [1, 2] Batch (new_core 256 (from_millis 200) 0) = SendOk c"
    by (auto simp: send_stream_def MAX_PAYLOAD_eq)
  obtain infl where infl: "hm_get (in_flight c) 1 = Some infl"
    using send_commit_reliable(4)[OF _ com] by (simp add: reliable_def)
  have opn: "\<not> closed c"
    using com by (auto simp: send_commit_def alloc_msg_id_def Let_def split: option.splits)
  have ok: "core_ok c" by (rule core_ok_send_stream[OF _ c]) simp
  have ack: "is_ack (control_packet FLAG_ACK Batch 1)"
    by (simp add: is_ack_def has_flag_def control_packet_def wire_simps)
  have "msg_id (control_packet FLAG_ACK Batch 1) = 1" by (simp add: control_packet_def)
  with ack_settles_message[OF ok opn ack, of infl 9] infl
  obtain c' where "handle_packet 9 (control_packet FLAG_ACK Batch 1) c = Inr c'"
    "hm_get (in_flight c') 1 = None" by auto
  with infl show ?thesis by blast
qed

section \<open>The retransmit budget\<close>

text \<open>Rounds of the retransmit loop at given times, none of which sees an ACK in between.\<close>

definition rounds :: "instant list \<Rightarrow> core \<Rightarrow> core" where
  "rounds ts c = fold (\<lambda>t c. fst (retransmit_round t c)) ts c"

fun spaced :: "duration \<Rightarrow> instant \<Rightarrow> instant list \<Rightarrow> bool" where
  "spaced d t [] = True"
| "spaced d t (u # us) = (t + d \<le> u \<and> spaced d u us)"

definition given_up :: "core \<Rightarrow> bool" where
  "given_up c \<longleftrightarrow> closed c \<and> dead c \<and> dead_reason c = Some ''max retransmit exceeded''"

lemma rounds_given_up: "given_up c \<Longrightarrow> rounds ts c = c"
  by (induction ts) (simp_all add: rounds_def retransmit_round_def given_up_def)

lemma retransmit_one_other:
  "mid \<noteq> k \<Longrightarrow> hm_get (in_flight (retransmit_one now (k, e) c)) mid = hm_get (in_flight c) mid"
  by (simp add: retransmit_one_def Let_def split: option.split)

lemma retransmit_one_same:
  "hm_get (in_flight c) mid = Some infl \<Longrightarrow>
     hm_get (in_flight (retransmit_one now (mid, e) c)) mid = Some (infl\<lparr>sent_at := now, retransmitted := True\<rparr>)"
  by (simp add: retransmit_one_def Let_def)

lemma retransmit_one_frame [simp]:
  "rto (retransmit_one now e c) = rto c" "closed (retransmit_one now e c) = closed c"
  "dead (retransmit_one now e c) = dead c"
  by (simp_all add: retransmit_one_def Let_def split: prod.split option.split)

lemma fold_retransmit_frame [simp]:
  "rto (fold (retransmit_one now) es c) = rto c"
  "closed (fold (retransmit_one now) es c) = closed c"
  by (induction es arbitrary: c) simp_all

lemma fold_retransmit_other:
  "mid \<notin> fst ` set es \<Longrightarrow>
     hm_get (in_flight (fold (retransmit_one now) es c)) mid = hm_get (in_flight c) mid
     \<and> retrans_count (fold (retransmit_one now) es c) mid = retrans_count c mid"
proof (induction es arbitrary: c)
  case (Cons e es)
  then show ?case by (cases e) (simp add: retransmit_one_other)
qed simp

lemma fold_retransmit_mem:
  assumes "distinct (map fst es)" "(mid, e) \<in> set es" "hm_get (in_flight c) mid = Some infl"
  shows "hm_get (in_flight (fold (retransmit_one now) es c)) mid
           = Some (infl\<lparr>sent_at := now, retransmitted := True\<rparr>)
     \<and> retrans_count (fold (retransmit_one now) es c) mid = Suc (retrans_count c mid)"
proof -
  obtain xs ys where es: "es = xs @ (mid, e) # ys" using assms(2) by (auto simp: in_set_conv_decomp)
  have m: "mid \<notin> fst ` set xs" "mid \<notin> fst ` set ys" using assms(1) by (auto simp: es)
  let ?c = "fold (retransmit_one now) xs c"
  have "hm_get (in_flight ?c) mid = Some infl" "retrans_count ?c mid = retrans_count c mid"
    using fold_retransmit_other[OF m(1)] assms(3) by simp_all
  then show ?thesis
    using fold_retransmit_other[OF m(2)] by (simp add: es retransmit_one_same)
qed

text \<open>One round in which the message is due: either the connection is given up, or the message
  has one retransmission more and its clock is restarted.\<close>

lemma retransmit_round_due:
  assumes ok: "core_ok c" and opn: "\<not> closed c"
    and infl: "hm_get (in_flight c) mid = Some infl" and due: "sent_at infl + rto c \<le> now"
  defines "c' \<equiv> fst (retransmit_round now c)"
  shows "given_up c' \<or> (\<not> closed c' \<and> rto c' = rto c
      \<and> retrans_count c' mid = Suc (retrans_count c mid) \<and> retrans_count c mid < MAX_RETRANSMIT
      \<and> hm_get (in_flight c') mid = Some (infl\<lparr>sent_at := now, retransmitted := True\<rparr>))"
proof -
  obtain es g where col: "retransmit_collect now c = (es, g)" by (cases "retransmit_collect now c")
  show ?thesis
  proof (cases g)
    case True
    then show ?thesis
      using opn by (simp add: c'_def retransmit_round_def col mark_dead_def given_up_def notify_waiters_def)
  next
    case False
    have mem: "(mid, infl) \<in> set (retransmit_due now c)"
      using hm_get_in_set[OF infl] due by (auto simp: retransmit_due_def)
    then have lt: "retrans_count c mid < MAX_RETRANSMIT"
      using col False by (auto simp: retransmit_collect_def Let_def list_ex_iff)
    with mem have e: "(mid, infl) \<in> set es"
      using col by (auto simp: retransmit_collect_def Let_def)
    have d: "distinct (map fst es)"
      using ok col by (auto simp: retransmit_collect_def retransmit_due_def Let_def core_ok_def
          maps_ok_def hm_wf_def intro!: distinct_map_filter)
    have "c' = fold (retransmit_one now) es c"
      using opn False by (simp add: c'_def retransmit_round_def col Let_def)
    with fold_retransmit_mem[OF d e infl] opn lt show ?thesis by simp
  qed
qed

lemma retrans_count_le: "core_ok c \<Longrightarrow> retrans_count c mid \<le> MAX_RETRANSMIT"
  by (simp add: core_ok_def maps_ok_def retrans_count_def split: option.split)

lemma rounds_give_up:
  "core_ok c \<Longrightarrow> \<not> closed c \<Longrightarrow> hm_get (in_flight c) mid = Some infl \<Longrightarrow>
   spaced (rto c) (sent_at infl) ts \<Longrightarrow> MAX_RETRANSMIT < retrans_count c mid + length ts \<Longrightarrow>
   given_up (rounds ts c)"
proof (induction ts arbitrary: c infl)
  case Nil
  with retrans_count_le[of c mid] show ?case by simp
next
  case (Cons t ts)
  let ?c = "fst (retransmit_round t c)"
  have eq: "rounds (t # ts) c = rounds ts ?c" by (simp add: rounds_def)
  have ok: "core_ok ?c" by (rule core_ok_retransmit_round[OF Cons.prems(1)])
  have "given_up ?c \<or> (\<not> closed ?c \<and> rto ?c = rto c
      \<and> retrans_count ?c mid = Suc (retrans_count c mid) \<and> retrans_count c mid < MAX_RETRANSMIT
      \<and> hm_get (in_flight ?c) mid = Some (infl\<lparr>sent_at := t, retransmitted := True\<rparr>))"
    using Cons.prems by (intro retransmit_round_due) simp_all
  then show ?case
  proof
    assume "given_up ?c"
    then show ?thesis by (simp add: eq rounds_given_up)
  next
    assume r: "\<not> closed ?c \<and> rto ?c = rto c
      \<and> retrans_count ?c mid = Suc (retrans_count c mid) \<and> retrans_count c mid < MAX_RETRANSMIT
      \<and> hm_get (in_flight ?c) mid = Some (infl\<lparr>sent_at := t, retransmitted := True\<rparr>)"
    show ?thesis
      unfolding eq using r Cons.prems(4,5)
      by (intro Cons.IH[OF ok, of "infl\<lparr>sent_at := t, retransmitted := True\<rparr>"]) simp_all
  qed
qed



end
