(* ===== verification/Qcp_Link.thy ===== *)
theory Qcp_Link
  imports Qcp_Flow
begin

text \<open>
  Both ends of a QCP connection (\<^verbatim>\<open>io_listener\<close>, \<^verbatim>\<open>dial_transport\<close> in
  \<^verbatim>\<open>cross233-qcp/src/lib.rs\<close>). The listener keeps one core per peer address; its \<^verbatim>\<open>Arc\<close>s are
  indices into a store of cores, because a \<^verbatim>\<open>Conn\<close> that the application accepted goes on pointing
  at its core after the address is bound to a new one. The dialer runs the handshake loop against
  the inbound pump. The end-to-end theorem composes sender, network and receiver.
\<close>

section \<open>Inbound datagrams\<close>

text \<open>The receive buffer holds \<open>MAX_PACKET\<close> bytes: a longer datagram is cut off there.\<close>

definition read_datagram :: "bytes \<Rightarrow> packet option" where
  "read_datagram buf = decode (take MAX_PACKET buf)"

definition inbound :: "instant \<Rightarrow> bytes \<Rightarrow> core \<Rightarrow> panic + core" where
  "inbound now buf c = (case read_datagram buf of None \<Rightarrow> Inr c | Some p \<Rightarrow> handle_packet now p c)"

fun inbound_all :: "(instant \<times> bytes) list \<Rightarrow> core \<Rightarrow> panic + core" where
  "inbound_all [] c = Inr c"
| "inbound_all ((now, b) # ds) c =
     (case inbound now b c of Inl e \<Rightarrow> Inl e | Inr c' \<Rightarrow> inbound_all ds c')"

lemma read_datagram_encode [simp]: "packet_wf p \<Longrightarrow> read_datagram (encode p) = Some p"
proof -
  assume wf: "packet_wf p"
  then have "length (encode p) \<le> MAX_PACKET"
    by (simp add: packet_wf_def MAX_PAYLOAD_def HEADER_LEN_def MAX_PACKET_def)
  with wf show ?thesis
    unfolding read_datagram_def
    by (simp add: decode_encode_iff packet_wf_def MAX_PAYLOAD_eq)
qed

lemma packet_wf_control [simp]: "fl AND FLAG_DATA = 0 \<Longrightarrow> packet_wf (control_packet fl s mid)"
  by (simp add: packet_wf_def control_packet_def has_flag_def)

lemma control_packet_sel [simp]:
  "flags (control_packet fl s mid) = fl" "stream_of (control_packet fl s mid) = s"
  "msg_id (control_packet fl s mid) = mid" "payload (control_packet fl s mid) = []"
  by (simp_all add: control_packet_def)

section \<open>The listener\<close>

record 'addr listener =
  store :: "core list"
  cores :: "('addr, nat) hmap"
  accept_tx :: "nat list"
  sent :: "('addr \<times> bytes) list"

definition new_listener :: "'addr listener" where
  "new_listener = \<lparr>store = [], cores = [], accept_tx = [], sent = []\<rparr>"

definition syn_ack :: packet where
  "syn_ack = control_packet (FLAG_SYN OR FLAG_ACK) Batch 0"

definition replace_closed :: "'addr \<Rightarrow> 'addr listener \<Rightarrow> bool" where
  "replace_closed from l =
     (case hm_get (cores l) from of None \<Rightarrow> True | Some i \<Rightarrow> closed (store l ! i))"

definition accept_syn :: "instant \<Rightarrow> 'addr \<Rightarrow> 'addr listener \<Rightarrow> 'addr listener" where
  "accept_syn now from l =
     (let core = notify_waiters HandshakedNotify
                   ((new_core 256 (from_millis 200) now)\<lparr>handshaked := True\<rparr>);
          i = length (store l)
      in l\<lparr>store := store l @ [core],
           cores := hm_insert from i (hm_remove from (cores l)),
           accept_tx := accept_tx l @ [i]\<rparr>)"

definition io_listener :: "instant \<Rightarrow> 'addr \<Rightarrow> bytes \<Rightarrow> 'addr listener \<Rightarrow> panic + 'addr listener" where
  "io_listener now from buf l =
     (case read_datagram buf of
        None \<Rightarrow> Inr l
      | Some p \<Rightarrow>
          if has_flag p FLAG_SYN
          then let l1 = (if replace_closed from l then accept_syn now from l else l)
               in Inr (l1\<lparr>sent := sent l1 @ [(from, encode syn_ack)]\<rparr>)
          else (case hm_get (cores l) from of
                  None \<Rightarrow> Inr l
                | Some i \<Rightarrow> (case handle_packet now p (store l ! i) of
                      Inl e \<Rightarrow> Inl e
                    | Inr c \<Rightarrow> Inr (l\<lparr>store := (store l)[i := c]\<rparr>))))"

definition accept :: "'addr listener \<Rightarrow> (nat \<times> 'addr listener) option" where
  "accept l = (case accept_tx l of [] \<Rightarrow> None | i # is' \<Rightarrow> Some (i, l\<lparr>accept_tx := is'\<rparr>))"

section \<open>The dialer\<close>

definition syn_packet :: packet where
  "syn_packet = control_packet FLAG_SYN Batch 0"

definition ack_packet :: packet where
  "ack_packet = control_packet FLAG_ACK Batch 0"

text \<open>What the other tasks do while the dialer waits: the inbound pump handles a datagram from some
  address (its task is gone after a panic), or the liveness loop ticks.\<close>

datatype 'addr dial_event = Datagram instant 'addr bytes | LivenessTick instant

fun dial_event_step :: "'addr \<Rightarrow> 'addr dial_event \<Rightarrow> core \<times> bool \<Rightarrow> core \<times> bool" where
  "dial_event_step peer (Datagram now from buf) (c, alive) =
     (if \<not> alive \<or> from \<noteq> peer then (c, alive)
      else (case inbound now buf c of Inl e \<Rightarrow> (c, False) | Inr c' \<Rightarrow> (c', True)))"
| "dial_event_step peer (LivenessTick now) (c, alive) = (fst (liveness_tick now c), alive)"

definition dial_events :: "'addr \<Rightarrow> 'addr dial_event list \<Rightarrow> core \<times> bool \<Rightarrow> core \<times> bool" where
  "dial_events peer evs s = fold (dial_event_step peer) evs s"

text \<open>One wait of the handshake: the events before the waiter is registered with
  \<^verbatim>\<open>handshaked_notify\<close> and those between registration and the 500 ms time-out. Only the latter
  wake it.\<close>

type_synonym 'addr dial_wait = "'addr dial_event list \<times> 'addr dial_event list"

fun dial_loop :: "'addr \<Rightarrow> 'addr dial_wait list \<Rightarrow> core \<times> bool \<Rightarrow> (qcp_error + core) \<times> core" where
  "dial_loop peer [] (c, alive) = (Inl (Handshake ''no syn-ack after retries''), c)"
| "dial_loop peer ((before, during) # ws) (c, alive) =
     (if handshaked c then (let c' = send_ctrl ack_packet c in (Inr c', c'))
      else
        let (c1, a1) = dial_events peer before (send_ctrl syn_packet c, alive);
            (c2, a2) = dial_events peer during (c1, a1)
        in if HandshakedNotify \<in> set (drop (length (woken c1)) (woken c2))
           then (let c' = send_ctrl ack_packet c2 in (Inr c', c'))
           else dial_loop peer ws (c2, a2))"

text \<open>\<^verbatim>\<open>dial_transport\<close>: ten waits.\<close>

definition dial_transport :: "instant \<Rightarrow> 'addr \<Rightarrow> (nat \<Rightarrow> 'addr dial_wait) \<Rightarrow> (qcp_error + core) \<times> core" where
  "dial_transport now peer waits =
     dial_loop peer (map waits [0..<10]) (new_core 256 (from_millis 200) now, True)"

section \<open>The listener keeps connections apart\<close>

definition listener_ok :: "'addr listener \<Rightarrow> bool" where
  "listener_ok l \<longleftrightarrow> hm_wf (cores l)
     \<and> (\<forall>a i. hm_get (cores l) a = Some i \<longrightarrow> i < length (store l))
     \<and> (\<forall>a b i. hm_get (cores l) a = Some i \<longrightarrow> hm_get (cores l) b = Some i \<longrightarrow> a = b)
     \<and> list_all core_ok (store l)"

lemma listener_ok_new [simp]: "listener_ok new_listener"
  by (simp add: listener_ok_def new_listener_def)

lemma listener_ok_store:
  "listener_ok l \<Longrightarrow> core_ok c \<Longrightarrow> listener_ok (l\<lparr>store := (store l)[i := c]\<rparr>)"
  by (auto simp: listener_ok_def list_all_iff dest!: subsetD[OF set_update_subset_insert])

lemma listener_ok_accept_syn: "listener_ok l \<Longrightarrow> listener_ok (accept_syn now from l)"
  unfolding listener_ok_def accept_syn_def Let_def
  by (auto simp: less_Suc_eq)

lemma read_datagram_wf: "read_datagram buf = Some p \<Longrightarrow> packet_wf p"
  by (auto simp: read_datagram_def dest: decode_packet_wf)

lemma listener_ok_core:
  "listener_ok l \<Longrightarrow> hm_get (cores l) a = Some i \<Longrightarrow> i < length (store l) \<and> core_ok (store l ! i)"
  by (auto simp: listener_ok_def list_all_length)

lemma listener_ok_step:
  assumes "listener_ok l" "io_listener now from buf l = Inr l'"
  shows "listener_ok l'"
proof (cases "read_datagram buf")
  case None
  with assms show ?thesis by (simp add: io_listener_def)
next
  case (Some p)
  have sent: "listener_ok (m\<lparr>sent := x\<rparr>) = listener_ok m" for m :: "'a listener" and x
    by (simp add: listener_ok_def)
  show ?thesis
  proof (cases "has_flag p FLAG_SYN")
    case True
    then show ?thesis
      using assms Some by (auto simp: io_listener_def Let_def sent listener_ok_accept_syn)
  next
    case False
    show ?thesis
    proof (cases "hm_get (cores l) from")
      case None
      with assms Some False show ?thesis by (simp add: io_listener_def)
    next
      case i: (Some i)
      then obtain c where c: "handle_packet now p (store l ! i) = Inr c"
        and l': "l' = l\<lparr>store := (store l)[i := c]\<rparr>"
        using assms(2) Some False by (auto simp: io_listener_def split: sum.splits)
      have "core_ok c"
        using core_ok_handle_packet[OF _ read_datagram_wf[OF Some] c] listener_ok_core[OF assms(1) i]
        by simp
      with assms(1) show ?thesis by (simp add: l' listener_ok_store)
    qed
  qed
qed

inductive listener_reachable :: "'addr listener \<Rightarrow> bool" where
  lr_new: "listener_reachable new_listener"
| lr_datagram: "listener_reachable l \<Longrightarrow> io_listener now from buf l = Inr l' \<Longrightarrow> listener_reachable l'"
| lr_core: "listener_reachable l \<Longrightarrow> i < length (store l) \<Longrightarrow> core_step (store l ! i) c
     \<Longrightarrow> listener_reachable (l\<lparr>store := (store l)[i := c]\<rparr>)"
| lr_accept: "listener_reachable l \<Longrightarrow> accept l = Some (i, l') \<Longrightarrow> listener_reachable l'"

lemma listener_reachable_ok: "listener_reachable l \<Longrightarrow> listener_ok l"
proof (induction rule: listener_reachable.induct)
  case (lr_core l i c)
  then have "core_ok c" by (auto simp: listener_ok_def list_all_length intro: core_ok_step)
  with lr_core show ?case by (simp add: listener_ok_store)
next
  case (lr_accept l i l')
  then show ?case by (auto simp: accept_def listener_ok_def split: list.splits)
qed (auto intro: listener_ok_step)


lemma syn_flag [simp]: "has_flag syn_packet FLAG_SYN" "has_flag syn_ack FLAG_SYN"
  by (simp_all add: syn_packet_def syn_ack_def has_flag_def control_packet_def wire_simps)

lemma handshake_wf [simp]: "packet_wf syn_packet" "packet_wf syn_ack" "packet_wf ack_packet"
  by (simp_all add: syn_packet_def syn_ack_def ack_packet_def packet_wf_def has_flag_def
      control_packet_def wire_simps)

lemma listener_syn:
  "io_listener now from (encode syn_packet) l =
     Inr (let l1 = (if replace_closed from l then accept_syn now from l else l)
          in l1\<lparr>sent := sent l1 @ [(from, encode syn_ack)]\<rparr>)"
  by (simp add: io_listener_def Let_def)


text \<open>The handshake reply is idempotent. A SYN is always answered with one SYN-ACK to its
  sender; from an address that has an open connection it changes nothing else, so a retried SYN
  neither resets the connection nor queues it for \<^verbatim>\<open>accept\<close> again; from a new address, or one
  whose connection is closed, it queues exactly one new connection, open and handshaked.\<close>

theorem syn_idempotent:
  "\<exists>l'. io_listener now from (encode syn_packet) l = Inr l'
     \<and> sent l' = sent l @ [(from, encode syn_ack)]
     \<and> (if replace_closed from l
        then (let c = store l' ! length (store l)
              in accept_tx l' = accept_tx l @ [length (store l)] \<and> handshaked c \<and> \<not> closed c
                 \<and> hm_get (cores l') from = Some (length (store l)) \<and> \<not> replace_closed from l'
                 \<and> take (length (store l)) (store l') = store l)
        else store l' = store l \<and> cores l' = cores l \<and> accept_tx l' = accept_tx l)"
  by (simp add: listener_syn accept_syn_def Let_def replace_closed_def notify_waiters_def nth_append
      new_core_def)

section \<open>The handshake of the dialer\<close>

definition foreign :: "'addr \<Rightarrow> 'addr dial_event \<Rightarrow> bool" where
  "foreign peer ev = (case ev of Datagram _ from _ \<Rightarrow> from \<noteq> peer | LivenessTick _ \<Rightarrow> False)"

lemma dial_events_foreign: "list_all (foreign peer) evs \<Longrightarrow> dial_events peer evs s = s"
proof (induction evs arbitrary: s)
  case (Cons e evs)
  have "dial_event_step peer e s = s"
    using Cons.prems by (cases s; cases e) (simp_all add: foreign_def)
  with Cons show ?case by (simp add: dial_events_def)
qed (simp add: dial_events_def)

definition quiet :: "'addr \<Rightarrow> 'addr dial_wait \<Rightarrow> bool" where
  "quiet peer w \<longleftrightarrow> list_all (foreign peer) (fst w) \<and> list_all (foreign peer) (snd w)"

definition syns :: "nat \<Rightarrow> core \<Rightarrow> core" where
  "syns n c = c\<lparr>ctrl_tx := ctrl_tx c @ replicate n (encode syn_packet)\<rparr>"

lemma syns_sel [simp]:
  "handshaked (syns n c) = handshaked c" "closed (syns n c) = closed c"
  "ctrl_tx (syns n c) = ctrl_tx c @ replicate n (encode syn_packet)" "woken (syns n c) = woken c"
  by (simp_all add: syns_def)

lemma syns_Suc: "send_ctrl syn_packet (syns n c) = syns (Suc n) c"
  by (simp add: syns_def send_ctrl_def replicate_append_same)

lemma dial_loop_quiet:
  "list_all (quiet peer) ws \<Longrightarrow> \<not> handshaked c \<Longrightarrow>
     dial_loop peer (ws @ ws') (syns n c, True) = dial_loop peer ws' (syns (n + length ws) c, True)"
  by (induction ws arbitrary: n)
    (auto simp: quiet_def dial_events_foreign syns_Suc)

lemma dial_loop_syn_ack:
  assumes "\<not> handshaked c" "\<not> closed c" "list_all (foreign peer) b" "list_all (foreign peer) d"
    and "read_datagram buf = Some p" "has_flag p FLAG_SYN"
  shows "\<exists>c'. fst (dial_loop peer ((b, d @ [Datagram t peer buf]) # ws) (syns n c, True)) = Inr c'
    \<and> handshaked c' \<and> ctrl_tx c' = ctrl_tx c @ replicate (Suc n) (encode syn_packet) @ [encode ack_packet]"
proof -
  let ?s = "syns (Suc n) c"
  let ?c = "notify_waiters HandshakedNotify (?s\<lparr>last_activity := t, handshaked := True\<rparr>)"
  have "inbound t buf ?s = Inr ?c"
    using assms by (simp add: inbound_def handle_packet_def Let_def)
  then have "dial_events peer (d @ [Datagram t peer buf]) (?s, True) = (?c, True)"
    using dial_events_foreign[OF assms(4), of "(?s, True)"] by (simp add: dial_events_def)
  moreover have "dial_events peer b (?s, True) = (?s, True)"
    by (rule dial_events_foreign[OF assms(3)])
  moreover have "handshaked (send_ctrl q x) = handshaked x" for q x by (simp add: send_ctrl_def)
  ultimately show ?thesis
    using assms(1) by (simp add: syns_Suc Let_def notify_waiters_def)
qed



section \<open>End to end\<close>

lemma frag_wf:
  "length (chunks MAX_PAYLOAD data) \<le> MAX_FRAGMENT_COUNT \<Longrightarrow> p \<in> set (fragments mid data s) \<Longrightarrow> packet_wf p"
proof -
  assume n: "length (chunks MAX_PAYLOAD data) \<le> MAX_FRAGMENT_COUNT" and "p \<in> set (fragments mid data s)"
  then obtain i where i: "i < length (chunks MAX_PAYLOAD data)" "p = frag mid s (chunks MAX_PAYLOAD data) i"
    by (auto simp: set_fragments)
  have "length (chunks MAX_PAYLOAD data ! i) \<le> MAX_PAYLOAD"
    using chunks_bound[of "chunks MAX_PAYLOAD data ! i" MAX_PAYLOAD data] i(1) by simp
  then show ?thesis
    using n i by (simp add: packet_wf_def word_less_nat_alt MAX_FRAGMENT_COUNT_def)
qed

text \<open>Datagrams that carry fragments, with undecodable ones among them.\<close>

definition carried :: "(instant \<times> bytes) list \<Rightarrow> (instant \<times> packet) list" where
  "carried ds = List.map_filter (\<lambda>(t, b). map_option (Pair t) (read_datagram b)) ds"

lemma inbound_all_carried: "inbound_all ds c = receive (carried ds) c"
proof (induction ds arbitrary: c)
  case (Cons d ds)
  then show ?case
    by (cases d) (auto simp: inbound_def carried_def map_filter_simps split: option.split sum.split)
qed (simp add: carried_def map_filter_simps)

lemma carried_iff: "(t, p) \<in> set (carried ds) \<longleftrightarrow> (\<exists>b. (t, b) \<in> set ds \<and> read_datagram b = Some p)"
proof (induction ds)
  case (Cons d ds)
  then show ?case
    by (cases d) (auto simp: carried_def map_filter_simps split: option.splits)
qed (simp add: carried_def map_filter_simps)

lemma set_carried:
  assumes wf: "\<And>p. p \<in> P \<Longrightarrow> packet_wf p" and all: "encode ` P \<subseteq> snd ` set ds"
    and only: "\<And>t b. (t, b) \<in> set ds \<Longrightarrow> b \<in> encode ` P \<or> read_datagram b = None"
  shows "snd ` set (carried ds) = P"
proof (intro equalityI subsetI)
  fix p assume "p \<in> snd ` set (carried ds)"
  then obtain t b where b: "(t, b) \<in> set ds" "read_datagram b = Some p"
    by (auto simp: carried_iff)
  with only[OF b(1)] obtain q where "q \<in> P" "b = encode q" by auto
  with wf b show "p \<in> P" by simp
next
  fix p assume p: "p \<in> P"
  with all obtain t where "(t, encode p) \<in> set ds" by auto
  with wf[OF p] have "(t, p) \<in> set (carried ds)" by (auto simp: carried_iff)
  then show "p \<in> snd ` set (carried ds)" by (rule rev_image_eqI) simp
qed

lemma handle_ack_in_flight:
  "hm_get (in_flight (handle_ack now p c)) k = (if k = msg_id p then None else hm_get (in_flight c) k)"
  by (simp add: handle_ack_def Let_def split: option.split)

lemma inbound_ack:
  assumes "\<not> closed c"
  obtains c' where "inbound now (ack_of mid s) c = Inr c'"
    "\<And>k. hm_get (in_flight c') k = (if k = mid then None else hm_get (in_flight c) k)"
proof -
  let ?p = "control_packet FLAG_ACK s mid"
  have "packet_wf ?p" "is_ack ?p"
    by (simp_all add: is_ack_def has_flag_def packet_wf_def wire_simps)
  then have "inbound now (ack_of mid s) c = Inr (handle_ack now ?p (c\<lparr>last_activity := now\<rparr>))"
    using assms by (simp add: inbound_def ack_of_def handle_packet_ack)
  then show ?thesis by (rule that) (simp add: handle_ack_in_flight)
qed

text \<open>\<^bold>\<open>C3\<close>: end to end. A sender hands a message of at most 8192 fragments to a reliable stream.
  The network may reorder and duplicate the datagrams that carry it and mix in datagrams that do not
  decode, but every fragment gets through at least once. Then the receiver delivers exactly this
  message, once and byte for byte, and queues acknowledgements, at least one and nothing else; and
  whenever one of them reaches the sender, the message is no longer in flight there, while every
  other message in flight stays.\<close>

theorem end_to_end:
  assumes "core_ok c" "reliable s" "data \<noteq> []" "length data \<le> MAX_FRAGMENT_COUNT * MAX_PAYLOAD"
    and "send_stream t data s c = SendOk c1"
    and "core_ok r" "\<not> closed r" "hm_get (assemblers r) (next_msg_id c) = None"
    and "hm_len (assemblers r) < MAX_ASSEMBLERS"
    and "\<not> hm_contains (delivered r) (next_msg_id c)" "hm_len (delivered r) < MAX_DELIVERED"
    and "set (drop (length (data_tx c)) (data_tx c1)) \<subseteq> snd ` set ds"
    and "\<And>u b. (u, b) \<in> set ds \<Longrightarrow>
           b \<in> set (drop (length (data_tx c)) (data_tx c1)) \<or> read_datagram b = None"
  shows "\<exists>r' acks. inbound_all ds r = Inr r' \<and> deliver_tx r' = deliver_tx r @ [(data, stream_as_u8 s)]
    \<and> ctrl_tx r' = ctrl_tx r @ acks \<and> acks \<noteq> []
    \<and> (\<forall>a \<in> set acks. \<forall>now. \<not> closed c1 \<longrightarrow> (\<exists>c2. inbound now a c1 = Inr c2
          \<and> (\<forall>k. hm_get (in_flight c2) k = (if k = next_msg_id c then None else hm_get (in_flight c1) k))))"
proof -
  define mid where "mid = next_msg_id c"
  define cs where "cs = chunks MAX_PAYLOAD data"
  have n: "length cs \<le> MAX_FRAGMENT_COUNT" "cs \<noteq> []"
    using assms(3,4) by (simp_all add: cs_def length_chunks div_ceil_le_iff chunks_eq_Nil_iff)
  have com: "send_commit t data s c = SendOk c1"
    using assms(2,3,5) by (auto simp: send_stream_def reliable_def split: if_splits gate.splits)
  have new: "drop (length (data_tx c)) (data_tx c1) = map encode (fragments mid data s)"
    by (simp add: send_commit_reliable(5)[OF assms(2) com] mid_def)
  let ?P = "set (fragments mid data s)"
  have "snd ` set (carried ds) = ?P"
  proof (rule set_carried)
    show "packet_wf p" if "p \<in> ?P" for p using frag_wf[OF _ that] n by (simp add: cs_def)
  qed (use assms(12,13) in \<open>auto simp: new\<close>)
  then have P: "snd ` set (carried ds) = frag mid s cs ` {..<length cs}"
    by (simp add: set_fragments cs_def)
  have "room r mid" "assembling r mid cs {}" "hm_wf (delivered r)"
    using assms(6,8,9) by (simp_all add: room_def assembling_def core_ok_def maps_ok_def mid_def)
  moreover have "{} \<noteq> {..<length cs}" using n(2) by auto
  ultimately obtain r' k where r': "receive (carried ds) r = Inr r'"
    "deliver_tx r' = deliver_tx r @ [(concat cs, stream_as_u8 s)]"
    "ctrl_tx r' = ctrl_tx r @ replicate k (ack_of mid s)" "0 < k"
    using receive_fresh[OF n(1) assms(2) assms(7) _ _ _ _ _ assms(11) order_refl P, of "{}"] assms(10)
    by (auto simp: mid_def)
  have acks: "\<exists>c2. inbound now a c1 = Inr c2 \<and>
      (\<forall>k. hm_get (in_flight c2) k = (if k = mid then None else hm_get (in_flight c1) k))"
    if "a \<in> set (replicate k (ack_of mid s))" "\<not> closed c1" for a now
  proof -
    have "a = ack_of mid s" using that(1) by (simp split: if_splits)
    then show ?thesis by (metis inbound_ack[OF that(2), of now mid s])
  qed
  show ?thesis
    using r' acks unfolding mid_def[symmetric]
    by (intro exI[of _ r'] exI[of _ "replicate k (ack_of mid s)"])
      (simp add: inbound_all_carried cs_def)
qed

theorem end_to_end_witness:
  "\<exists>c1 r'. send_stream 3 [1, 2] Critical (new_core 256 (from_millis 200) 0) = SendOk c1
     \<and> inbound_all [(7, []), (8, encode (frag 1 Critical [[1, 2]] 0)), (9, encode (frag 1 Critical [[1, 2]] 0))]
         (new_core 256 (from_millis 200) 0) = Inr r' \<and> deliver_tx r' = [([1, 2], 2)]"
proof -
  let ?c = "new_core 256 (from_millis 200) 0" and ?f = "frag 1 Critical [[1, 2]] 0"
  define ds where "ds = [(7 :: instant, [] :: bytes), (8, encode ?f), (9, encode ?f)]"
  obtain c1 where c1: "send_stream 3 [1, 2] Critical ?c = SendOk c1"
    by (rule send_fresh[of Critical "[1, 2]" 3 "from_millis 200" 0])
      (simp_all add: reliable_def MAX_PAYLOAD_eq)
  then have com: "send_commit 3 [1, 2] Critical ?c = SendOk c1"
    by (auto simp: send_stream_def MAX_PAYLOAD_eq)
  have tx: "data_tx c1 = [encode ?f]"
    using send_commit_reliable(5)[OF _ com]
    by (simp add: reliable_def fragments_small MAX_PAYLOAD_eq)
  have e: "read_datagram [] = None" by (simp add: read_datagram_def decode_def wire_simps)
  have "\<exists>r' acks. inbound_all ds ?c = Inr r' \<and> deliver_tx r' = deliver_tx ?c @ [([1, 2], stream_as_u8 Critical)]
    \<and> ctrl_tx r' = ctrl_tx ?c @ acks \<and> acks \<noteq> []
    \<and> (\<forall>a \<in> set acks. \<forall>now. \<not> closed c1 \<longrightarrow> (\<exists>c2. inbound now a c1 = Inr c2
          \<and> (\<forall>k. hm_get (in_flight c2) k = (if k = next_msg_id ?c then None else hm_get (in_flight c1) k))))"
    by (rule end_to_end[OF _ _ _ _ c1])
      (auto simp: reliable_def ds_def tx e MAX_FRAGMENT_COUNT_def MAX_PAYLOAD_eq const_defs hm_contains_def)
  with c1 show ?thesis by (auto simp: ds_def stream_as_u8_def)
qed

end
