(* ===== verification/Qcp_Stream.thy ===== *)
theory Qcp_Stream
  imports Qcp_Link
begin

text \<open>
  The byte-stream view of a connection (\<^verbatim>\<open>cross233-qcp/src/stream.rs\<close>): the write side gathers
  bytes and hands them over as messages, the bridge task moves messages between the channels and the
  connection, the read side hands out the bytes of the messages received. The locale \<open>byte_sink\<close> is
  what a writer may rely on, \<open>byte_source\<close> what a reader may rely on; both are interpreted on the
  stream. The last section shows what the stream does not promise.
\<close>

section \<open>State and operations\<close>

definition FLUSH_THRESHOLD :: nat where "FLUSH_THRESHOLD = 64 * 1024"
definition SCRATCH :: nat where "SCRATCH = 2 ^ 20"

datatype io_error = BrokenPipe string

datatype 'a poll = Pending | Ready 'a

text \<open>\<open>reader\<close> and \<open>writer\<close> are the contents of the two channels; \<open>task_alive\<close> says that the bridge
  task has not left its loop; \<open>close_spawned\<close> that the task running \<^verbatim>\<open>conn.close()\<close> was spawned and
  has not run.\<close>

record qcp_stream =
  reader :: "bytes list"
  writer :: "bytes list"
  read_buf :: bytes
  write_buf :: bytes
  conn :: core
  class_of :: stream
  stream_closed :: bool
  task_alive :: bool
  close_spawned :: bool

definition into_stream :: "core \<Rightarrow> stream \<Rightarrow> qcp_stream" where
  "into_stream c s = \<lparr>reader = [], writer = [], read_buf = [], write_buf = [], conn = c,
     class_of = s, stream_closed = False, task_alive = True, close_spawned = False\<rparr>"

text \<open>The bytes a poll puts into a buffer of the given room; a ready poll with no byte and room left
  is the end of the stream.\<close>

definition poll_read :: "nat \<Rightarrow> qcp_stream \<Rightarrow> bytes poll \<times> qcp_stream" where
  "poll_read remaining q =
     (let copy = (\<lambda>q. let n = min remaining (length (read_buf q))
                      in (Ready (take n (read_buf q)), q\<lparr>read_buf := drop n (read_buf q)\<rparr>))
      in if read_buf q = [] then
           (case reader q of
              d # ds \<Rightarrow> copy (q\<lparr>reader := ds, read_buf := d\<rparr>)
            | [] \<Rightarrow> if task_alive q then (Pending, q) else (Ready [], q))
         else copy q)"

definition channel_send :: "qcp_stream \<Rightarrow> (io_error + unit) \<times> qcp_stream" where
  "channel_send q =
     (let data = write_buf q; q1 = q\<lparr>write_buf := []\<rparr>
      in if task_alive q then (Inr (), q1\<lparr>writer := writer q1 @ [data]\<rparr>)
         else (Inl (BrokenPipe ''qcp stream closed''), q1))"

definition poll_write :: "bytes \<Rightarrow> qcp_stream \<Rightarrow> (io_error + nat) \<times> qcp_stream" where
  "poll_write buf q =
     (let q1 = q\<lparr>write_buf := write_buf q @ buf\<rparr>
      in if length (write_buf q1) \<ge> FLUSH_THRESHOLD
         then (case channel_send q1 of
                 (Inl e, q2) \<Rightarrow> (Inl e, q2)
               | (Inr _, q2) \<Rightarrow> (Inr (length buf), q2))
         else (Inr (length buf), q1))"

definition poll_flush :: "qcp_stream \<Rightarrow> (io_error + unit) \<times> qcp_stream" where
  "poll_flush q = (if write_buf q = [] then (Inr (), q) else channel_send q)"

definition poll_shutdown :: "qcp_stream \<Rightarrow> (io_error + unit) \<times> qcp_stream" where
  "poll_shutdown q =
     (case poll_flush q of
        (Inl e, q1) \<Rightarrow> (Inl e, q1)
      | (Inr _, q1) \<Rightarrow>
          (Inr (), if stream_closed q1 then q1 else q1\<lparr>stream_closed := True, close_spawned := True\<rparr>))"

text \<open>The spawned closer, and the two arms of the bridge task. A send that waits for the window
  leaves its message where it is until it is accepted.\<close>

definition closer_step :: "qcp_stream \<Rightarrow> qcp_stream" where
  "closer_step q = (if close_spawned q then q\<lparr>conn := close (conn q), close_spawned := False\<rparr> else q)"

definition bridge_recv :: "recv_event \<Rightarrow> qcp_stream \<Rightarrow> qcp_stream" where
  "bridge_recv ev q =
     (if \<not> task_alive q then q
      else (case recv ev SCRATCH (conn q) of
              (Inr (m, _), c) \<Rightarrow>
                 (if m \<noteq> [] then q\<lparr>conn := c, reader := reader q @ [m]\<rparr> else q\<lparr>conn := c\<rparr>)
            | (Inl Timeout, c) \<Rightarrow> q\<lparr>conn := c\<rparr>
            | (Inl _, c) \<Rightarrow> q\<lparr>conn := c, task_alive := False\<rparr>))"

definition bridge_send :: "instant \<Rightarrow> qcp_stream \<Rightarrow> qcp_stream" where
  "bridge_send now q =
     (if \<not> task_alive q then q
      else (case writer q of
              [] \<Rightarrow> q
            | b # bs \<Rightarrow> (case send_stream now b (class_of q) (conn q) of
                SendOk c \<Rightarrow> q\<lparr>writer := bs, conn := c\<rparr>
              | SendBlocked \<Rightarrow> q
              | SendErr _ \<Rightarrow> q\<lparr>writer := bs, task_alive := False\<rparr>)))"

section \<open>What a writer relies on\<close>

locale byte_sink =
  fixes put :: "'b list \<Rightarrow> 's \<Rightarrow> ('e + nat) \<times> 's"
    and flush :: "'s \<Rightarrow> ('e + unit) \<times> 's"
    and accepted :: "'s \<Rightarrow> 'b list"
    and buffered :: "'s \<Rightarrow> 'b list"
    and up :: "'s \<Rightarrow> bool"
  assumes put_ok: "up s \<Longrightarrow> fst (put b s) = Inr (length b) \<and> up (snd (put b s))
      \<and> accepted (snd (put b s)) = accepted s @ b"
    and flush_ok: "up s \<Longrightarrow> fst (flush s) = Inr () \<and> up (snd (flush s))
      \<and> accepted (snd (flush s)) = accepted s \<and> buffered (snd (flush s)) = []"
begin

definition put_all :: "'b list list \<Rightarrow> 's \<Rightarrow> 's" where
  "put_all bs s = fold (\<lambda>b s. snd (put b s)) bs s"

lemma put_all_accepted:
  "up s \<Longrightarrow> up (put_all bs s) \<and> accepted (put_all bs s) = accepted s @ concat bs"
proof (induction bs arbitrary: s)
  case (Cons b bs)
  then show ?case using put_ok[of s b] by (simp add: put_all_def)
qed (simp add: put_all_def)

lemma put_all_flush:
  assumes "up s"
  shows "accepted (snd (flush (put_all bs s))) = accepted s @ concat bs"
    "buffered (snd (flush (put_all bs s))) = []"
  using put_all_accepted[OF assms] flush_ok by simp_all

end

locale byte_source =
  fixes get :: "nat \<Rightarrow> 's \<Rightarrow> 'b list poll \<times> 's"
    and available :: "'s \<Rightarrow> 'b list"
  assumes get_prefix: "fst (get n s) = Ready b \<Longrightarrow> available s = b @ available (snd (get n s))"
    and get_pending: "fst (get n s) = Pending \<Longrightarrow> available (snd (get n s)) = available s \<and> available s = []"
    and get_bound: "fst (get n s) = Ready b \<Longrightarrow> length b \<le> n"
begin

fun get_all :: "nat list \<Rightarrow> 's \<Rightarrow> 'b list \<times> 's" where
  "get_all [] s = ([], s)"
| "get_all (n # ns) s =
     (let (r, s1) = get n s; (bs, s2) = get_all ns s1
      in ((case r of Ready b \<Rightarrow> b | Pending \<Rightarrow> []) @ bs, s2))"

text \<open>Whatever the sizes of the reads, the bytes come out in order, none lost, none repeated.\<close>

lemma get_all_order: "available s = fst (get_all ns s) @ available (snd (get_all ns s))"
proof (induction ns arbitrary: s)
  case (Cons n ns)
  have "available s = (case fst (get n s) of Ready b \<Rightarrow> b | Pending \<Rightarrow> []) @ available (snd (get n s))"
    using get_prefix[of n s] get_pending[of n s] by (cases "fst (get n s)") auto
  with Cons[of "snd (get n s)"] show ?case
    by (simp add: Let_def split: prod.split)
qed simp

end

text \<open>The bytes accepted from the writer and not yet handed to the connection, in order.\<close>

definition queued :: "qcp_stream \<Rightarrow> bytes" where
  "queued q = concat (writer q) @ write_buf q"

definition readable :: "qcp_stream \<Rightarrow> bytes" where
  "readable q = read_buf q @ concat (reader q)"

interpretation sink: byte_sink poll_write poll_flush queued write_buf task_alive
  by unfold_locales
    (auto simp: poll_write_def poll_flush_def channel_send_def queued_def Let_def)

interpretation source: byte_source poll_read readable
proof unfold_locales
  fix n q and b :: bytes
  show "fst (poll_read n q) = Ready b \<Longrightarrow> readable q = b @ readable (snd (poll_read n q))"
    by (auto simp: poll_read_def readable_def Let_def split: if_splits list.splits)
  show "fst (poll_read n q) = Pending \<Longrightarrow> readable (snd (poll_read n q)) = readable q \<and> readable q = []"
    by (auto simp: poll_read_def readable_def Let_def split: if_splits list.splits)
  show "fst (poll_read n q) = Ready b \<Longrightarrow> length b \<le> n"
    by (auto simp: poll_read_def Let_def split: if_splits list.splits)
qed

section \<open>Bytes in, bytes out\<close>

lemma bridge_recv_ready:
  assumes "task_alive q" "deliver_tx (conn q) = (m, k) # ms"
  shows "bridge_recv RecvReady q = q\<lparr>conn := (conn q)\<lparr>deliver_tx := ms\<rparr>,
    reader := reader q @ (if take SCRATCH m = [] then [] else [take SCRATCH m])\<rparr>"
proof -
  have "take (min (length m) SCRATCH) m = take SCRATCH m" by (simp add: min_def)
  with assms show ?thesis by (simp add: bridge_recv_def recv_def)
qed

lemma bridge_recv_all:
  "task_alive r \<Longrightarrow> deliver_tx (conn r) = map (\<lambda>m. (m, k)) ms \<Longrightarrow>
     readable ((bridge_recv RecvReady ^^ length ms) r) = readable r @ concat (map (take SCRATCH) ms)
     \<and> task_alive ((bridge_recv RecvReady ^^ length ms) r)"
proof (induction ms arbitrary: r)
  case (Cons m ms)
  let ?r = "bridge_recv RecvReady r"
  have r: "?r = r\<lparr>conn := (conn r)\<lparr>deliver_tx := map (\<lambda>m. (m, k)) ms\<rparr>,
      reader := reader r @ (if take SCRATCH m = [] then [] else [take SCRATCH m])\<rparr>"
    using Cons.prems by (simp add: bridge_recv_ready)
  have "readable ?r = readable r @ take SCRATCH m" "task_alive ?r"
    "deliver_tx (conn ?r) = map (\<lambda>m. (m, k)) ms"
    using Cons.prems(1) by (auto simp: r readable_def)
  with Cons.IH[of ?r] show ?case by (simp add: funpow_swap1)
qed simp

text \<open>\<^bold>\<open>C17\<close>: the stream carries bytes in order while messages arrive in order. Take any writes
  followed by a flush on a stream with nothing pending, and let the messages they produce, none
  longer than the receiver's scratch buffer of 1 MiB, be delivered at the other end in the order they
  were sent. Then what the receiver can read is exactly the concatenation of the writes, and reads
  of any sizes return a prefix of it and leave the rest.\<close>

theorem byte_stream_in_order:
  assumes "task_alive q" "queued q = []"
    and "q' = snd (poll_flush (fold (\<lambda>b q. snd (poll_write b q)) bs q))"
    and "task_alive r" "readable r = []" "deliver_tx (conn r) = map (\<lambda>m. (m, k)) (writer q')"
    and "\<forall>m \<in> set (writer q'). length m \<le> SCRATCH"
    and "r' = (bridge_recv RecvReady ^^ length (writer q')) r"
  shows "readable r' = concat bs
    \<and> (\<forall>n b. fst (poll_read n r') = Ready b
         \<longrightarrow> concat bs = b @ readable (snd (poll_read n r')) \<and> length b \<le> n)"
proof -
  have "queued q' = concat bs" "write_buf q' = []"
    using sink.put_all_flush[OF assms(1), of bs, unfolded sink.put_all_def] assms(2)
    by (simp_all add: assms(3))
  then have w: "concat (writer q') = concat bs" by (simp add: queued_def)
  have "map (take SCRATCH) (writer q') = writer q'"
    using assms(7) by (simp add: map_idI)
  then have r: "readable r' = concat bs"
    using bridge_recv_all[OF assms(4,6)] assms(5,8) w by simp
  then show ?thesis using source.get_prefix source.get_bound by metis
qed

theorem byte_stream_in_order_witness:
  "\<exists>r. readable ((bridge_recv RecvReady ^^ 1) r) = [1, 2, 3, 4] \<and> deliver_tx (conn r) = [([1, 2, 3, 4], 3)]"
proof -
  define q where "q = into_stream (new_core 256 1 0) Batch"
  define q' where "q' = snd (poll_flush (fold (\<lambda>b q. snd (poll_write b q)) [[1, 2], [3, 4]] q))"
  define r where "r = into_stream ((new_core 256 1 0)\<lparr>deliver_tx := [([1, 2, 3, 4], 3)]\<rparr>) Batch"
  have w: "writer q' = [[1, 2, 3, 4]]"
    by (simp add: q'_def q_def into_stream_def poll_write_def poll_flush_def channel_send_def
        FLUSH_THRESHOLD_def Let_def)
  have "readable ((bridge_recv RecvReady ^^ length (writer q')) r) = concat [[1, 2], [3, 4]]"
    by (rule conjunct1[OF byte_stream_in_order[OF _ _ q'_def _ _ _ _ refl, of r 3]])
      (simp_all add: w q_def r_def into_stream_def queued_def readable_def SCRATCH_def)
  then show ?thesis by (intro exI[of _ r]) (simp add: w r_def into_stream_def)
qed

section \<open>What the stream does not promise\<close>

text \<open>A single large write is cut off at the other end. A write of more than 1 MiB (and at
  least the flush threshold) on an idle stream becomes one message, and when that message is
  delivered the reader gets its first 1048576 bytes; the rest is lost.\<close>

theorem large_write_truncated:
  assumes "task_alive q" "writer q = []" "write_buf q = []" "SCRATCH < length buf"
    and "task_alive r" "readable r = []" "deliver_tx (conn r) = map (\<lambda>m. (m, k)) (writer (snd (poll_write buf q)))"
  shows "fst (poll_write buf q) = Inr (length buf)
    \<and> readable (bridge_recv RecvReady r) = take 1048576 buf
    \<and> deliver_tx (conn (bridge_recv RecvReady r)) = []"
proof -
  have w: "fst (poll_write buf q) = Inr (length buf)" "writer (snd (poll_write buf q)) = [buf]"
    using assms(1-4) by (simp_all add: poll_write_def channel_send_def Let_def FLUSH_THRESHOLD_def SCRATCH_def)
  have "deliver_tx (conn r) = [(buf, k)]" using assms(7) w by simp
  with assms(4-6) w show ?thesis
    by (auto simp: bridge_recv_ready readable_def SCRATCH_def)
qed

theorem large_write_truncated_witness:
  "\<exists>r. deliver_tx (conn r) = [(replicate 1048577 0, 3)]
     \<and> readable (bridge_recv RecvReady r) = take 1048576 (replicate 1048577 0)"
proof -
  define buf :: bytes where "buf = replicate 1048577 0"
  have len: "length buf = 1048577" unfolding buf_def by (rule length_replicate)
  define q where "q = into_stream (new_core 256 1 0) Batch"
  define r where "r = into_stream ((new_core 256 1 0)\<lparr>deliver_tx := [(buf, 3)]\<rparr>) Batch"
  have "writer (snd (poll_write buf q)) = [buf]"
    by (simp add: q_def into_stream_def poll_write_def channel_send_def Let_def FLUSH_THRESHOLD_def len)
  then have "readable (bridge_recv RecvReady r) = take 1048576 buf"
    using large_write_truncated[of q buf r 3]
    by (simp add: q_def r_def into_stream_def readable_def SCRATCH_def len)
  moreover have "deliver_tx (conn r) = [(buf, 3)]" by (simp add: r_def into_stream_def)
  ultimately show ?thesis unfolding buf_def by blast
qed

text \<open>Two flushed writes of at most one fragment each, sent one after the other.\<close>

definition write_flush_send :: "instant \<Rightarrow> bytes \<Rightarrow> qcp_stream \<Rightarrow> qcp_stream" where
  "write_flush_send now b q = bridge_send now (snd (poll_flush (snd (poll_write b q))))"

lemma write_flush_send_small:
  assumes "task_alive q" "writer q = []" "write_buf q = []" "reliable (class_of q)"
    and "b \<noteq> []" "length b \<le> MAX_PAYLOAD" "\<not> closed (conn q)" "\<not> dead (conn q)"
    and "hm_len (in_flight (conn q)) < cwnd (conn q)"
  shows "\<exists>c. send_commit now b (class_of q) (conn q) = SendOk c \<and> write_flush_send now b q = q\<lparr>conn := c\<rparr>"
proof -
  have len: "length b < FLUSH_THRESHOLD" "\<not> length b > MAX_PAYLOAD * 65535"
    using assms(6) by (simp_all add: FLUSH_THRESHOLD_def MAX_PAYLOAD_eq)
  let ?q = "q\<lparr>write_buf := [], writer := [b]\<rparr>"
  have f: "snd (poll_flush (snd (poll_write b q))) = ?q"
    using assms(1-3,5) len by (simp add: poll_write_def poll_flush_def channel_send_def Let_def)
  have gate: "send_gate (conn q) = GatePass"
    using assms(7-9) by (simp add: send_gate_def closed_error_def)
  obtain c where c: "send_commit now b (class_of q) (conn q) = SendOk c"
    using assms(4,7,8) by (cases "class_of q")
      (simp_all add: send_commit_def closed_error_def alloc_msg_id_def Let_def reliable_def)
  have "send_stream now b (class_of q) (conn q) = SendOk c"
    using len(2) assms(4,5) gate c by (simp add: send_stream_def reliable_def)
  then have "write_flush_send now b q = q\<lparr>conn := c\<rparr>"
    using assms(1-3) unfolding write_flush_send_def f by (simp add: bridge_send_def)
  with c show ?thesis by blast
qed

lemma hm_remove_insert_new: "hm_get m k = None \<Longrightarrow> hm_remove k (hm_insert k v m) = m"
  unfolding hm_get_def hm_remove_def hm_insert_def
  by (induction m) (auto split: if_splits)

text \<open>A message of one fragment that is new to the receiver is delivered at once.\<close>

lemma inbound_single:
  assumes "\<not> closed c" "reliable s" "b \<noteq> []" "length b \<le> MAX_PAYLOAD"
    and "hm_get (assemblers c) mid = None" "hm_len (assemblers c) < MAX_ASSEMBLERS"
    and "hm_get (delivered c) mid = None" "hm_len (hm_insert mid () (delivered c)) \<le> MAX_DELIVERED"
  shows "inbound t (encode (frag mid s [b] 0)) c =
    Inr (send_ctrl (control_packet FLAG_ACK s mid) (deliver b s
      (c\<lparr>last_activity := t, delivered := hm_insert mid () (delivered c)\<rparr>)))"
proof -
  let ?p = "frag mid s [b] 0"
  have "packet_wf ?p"
    using assms(4) by (simp add: packet_wf_def MAX_FRAGMENT_COUNT_def)
  then have "inbound t (encode ?p) c = handle_reliable ?p (c\<lparr>last_activity := t\<rparr>)"
    using assms(1,2) by (simp add: inbound_def handle_packet_frag)
  also have "\<dots> = Inr (complete_message ?p (c\<lparr>last_activity := t,
      assemblers := hm_insert mid \<lparr>frags = [Some b], got = 1\<rparr> (assemblers c)\<rparr>))"
    using assms(5,6) by (simp add: handle_reliable_def Let_def hm_contains_def)
  also have "\<dots> = Inr (send_ctrl (control_packet FLAG_ACK s mid) (deliver b s
      (c\<lparr>last_activity := t, delivered := hm_insert mid () (delivered c)\<rparr>)))"
    using assms(5,7,8)
    by (simp add: complete_message_def Let_def hm_contains_def hm_remove_insert_new flatten_frags_def)
  finally show ?thesis .
qed

text \<open>The stream does not restore the order of its messages. Let two writes \<open>a\<close> and \<open>b\<close>, each of
  one fragment, be flushed one after the other on a new reliable stream. If the datagram of the
  second overtakes the first (reordering, or loss and retransmission of the first), the reader at
  the other end gets the bytes of \<open>b\<close> before those of \<open>a\<close>.\<close>

theorem stream_reorders_bytes:
  assumes "reliable s" "a \<noteq> []" "b \<noteq> []" "length a \<le> MAX_PAYLOAD" "length b \<le> MAX_PAYLOAD"
  shows "\<exists>pa pb r. data_tx (conn (write_flush_send t2 b (write_flush_send t1 a
            (into_stream (new_core 256 (from_millis 200) 0) s)))) = [pa, pb]
    \<and> inbound_all [(t3, pb), (t4, pa)] (new_core 256 (from_millis 200) 0) = Inr r
    \<and> readable ((bridge_recv RecvReady ^^ 2) (into_stream r s)) = b @ a"
proof -
  let ?c = "new_core 256 (from_millis 200) 0"
  let ?q = "into_stream ?c s"
  have cw: "cwnd ?c = 256" by (simp add: new_core_def const_defs)
  have "\<exists>c. send_commit t1 a (class_of ?q) (conn ?q) = SendOk c \<and> write_flush_send t1 a ?q = ?q\<lparr>conn := c\<rparr>"
    by (rule write_flush_send_small) (use assms cw in \<open>simp_all add: into_stream_def\<close>)
  then obtain c1 where c1: "send_commit t1 a s ?c = SendOk c1" "write_flush_send t1 a ?q = ?q\<lparr>conn := c1\<rparr>"
    by (auto simp: into_stream_def)
  note f1 = send_commit_reliable[OF assms(1) c1(1)]
  have n1: "next_msg_id c1 = 2" "\<not> closed c1" "\<not> dead c1"
    using c1(1) assms(1) by (auto simp: send_commit_def closed_error_def alloc_msg_id_def Let_def reliable_def
        split: stream.splits)
  let ?q1 = "?q\<lparr>conn := c1\<rparr>"
  have "hm_len (in_flight c1) < cwnd c1"
    by (simp add: f1 cw hm_insert_def hm_len_def)
  then have "\<exists>c. send_commit t2 b (class_of ?q1) (conn ?q1) = SendOk c \<and> write_flush_send t2 b ?q1 = ?q1\<lparr>conn := c\<rparr>"
    by (intro write_flush_send_small) (use assms n1 in \<open>simp_all add: into_stream_def\<close>)
  then obtain c2 where c2: "send_commit t2 b s c1 = SendOk c2" "write_flush_send t2 b ?q1 = ?q1\<lparr>conn := c2\<rparr>"
    by (auto simp: into_stream_def)
  let ?pa = "encode (frag 1 s [a] 0)" and ?pb = "encode (frag 2 s [b] 0)"
  have tx: "data_tx c2 = [?pa, ?pb]"
    using send_commit_reliable(5)[OF assms(1) c2(1)] f1(5) n1(1) assms
    by (simp add: fragments_small)
  let ?r1 = "send_ctrl (control_packet FLAG_ACK s 2) (deliver b s
      (?c\<lparr>last_activity := t3, delivered := hm_insert 2 () []\<rparr>))"
  let ?r = "send_ctrl (control_packet FLAG_ACK s 1) (deliver a s
      (?r1\<lparr>last_activity := t4, delivered := hm_insert 1 () (delivered ?r1)\<rparr>))"
  have r1: "inbound t3 ?pb ?c = Inr ?r1"
    using inbound_single[of ?c s b 2 t3] assms by (simp add: const_defs hm_insert_def hm_len_def)
  have r2: "inbound t4 ?pa ?r1 = Inr ?r"
    by (rule inbound_single) (use assms in \<open>simp_all add: const_defs hm_insert_def hm_len_def hm_get_def\<close>)
  have r: "inbound_all [(t3, ?pb), (t4, ?pa)] ?c = Inr ?r" using r1 r2 by simp
  have "deliver_tx (conn (into_stream ?r s)) = map (\<lambda>m. (m, stream_as_u8 s)) [b, a]"
    by (simp add: into_stream_def)
  from bridge_recv_all[OF _ this]
  have "readable ((bridge_recv RecvReady ^^ 2) (into_stream ?r s)) = take SCRATCH b @ take SCRATCH a"
    by (simp add: into_stream_def readable_def numeral_2_eq_2)
  moreover have "length a \<le> SCRATCH" "length b \<le> SCRATCH"
    using assms(4,5) by (simp_all add: SCRATCH_def MAX_PAYLOAD_eq)
  moreover have "data_tx (conn (write_flush_send t2 b (write_flush_send t1 a ?q))) = [?pa, ?pb]"
    by (simp add: c1(2) c2(2) tx)
  ultimately show ?thesis using r by auto
qed

theorem stream_reorders_bytes_witness:
  "\<exists>pa pb r. inbound_all [(7, pb), (8, pa)] (new_core 256 (from_millis 200) 0) = Inr r
    \<and> readable ((bridge_recv RecvReady ^^ 2) (into_stream r Batch)) = [3, 4] @ [1, 2]"
  using stream_reorders_bytes[of Batch "[1, 2]" "[3, 4]" 6 5 7 8]
  by (auto simp: reliable_def MAX_PAYLOAD_eq)

end
