(* ===== verification/Rust_Strings.thy ===== *)
theory Rust_Strings
  imports Hash_Map
begin

text \<open>
  Rust strings. A \<^verbatim>\<open>str\<close> is a sequence of bytes that is valid UTF-8; here it is a HOL \<open>string\<close>
  whose characters are those bytes. This theory has the functions of the standard library that the
  sources call on strings, byte by byte as they act on UTF-8, with the lemmas that the components use.
\<close>

named_theorems str_defs \<open>definitions of string functions\<close>

definition byte :: "char \<Rightarrow> nat" where
  [str_defs]: "byte c = of_char c"

section \<open>ASCII case\<close>

definition lower_char :: "char \<Rightarrow> char" where
  [str_defs]: "lower_char c = (if 65 \<le> byte c \<and> byte c \<le> 90 then char_of (byte c + 32) else c)"

definition upper_char :: "char \<Rightarrow> char" where
  [str_defs]: "upper_char c = (if 97 \<le> byte c \<and> byte c \<le> 122 then char_of (byte c - 32) else c)"

definition to_ascii_lowercase :: "string \<Rightarrow> string" where
  [str_defs]: "to_ascii_lowercase s = map lower_char s"

definition to_ascii_uppercase :: "string \<Rightarrow> string" where
  [str_defs]: "to_ascii_uppercase s = map upper_char s"

definition eq_ignore_ascii_case :: "string \<Rightarrow> string \<Rightarrow> bool" where
  [str_defs]: "eq_ignore_ascii_case a b \<longleftrightarrow> to_ascii_lowercase a = to_ascii_lowercase b"

lemma byte_less [simp]: "byte c < 256"
  by (simp add: byte_def)

lemma lower_char_idem [simp]: "lower_char (lower_char c) = lower_char c"
  by (simp add: lower_char_def byte_def)

lemma to_ascii_lowercase_idem [simp]: "to_ascii_lowercase (to_ascii_lowercase s) = to_ascii_lowercase s"
  by (simp add: to_ascii_lowercase_def)

lemma length_to_ascii_lowercase [simp]: "length (to_ascii_lowercase s) = length s"
  by (simp add: to_ascii_lowercase_def)

section \<open>Prefixes and splitting\<close>

definition starts_with :: "string \<Rightarrow> string \<Rightarrow> bool" where
  [str_defs]: "starts_with s p \<longleftrightarrow> take (length p) s = p"

definition ends_with :: "string \<Rightarrow> string \<Rightarrow> bool" where
  [str_defs]: "ends_with s p \<longleftrightarrow> length p \<le> length s \<and> drop (length s - length p) s = p"

definition strip_prefix :: "string \<Rightarrow> string \<Rightarrow> string option" where
  [str_defs]: "strip_prefix p s = (if starts_with s p then Some (drop (length p) s) else None)"

lemma starts_with_append [simp]: "starts_with (p @ s) p"
  by (simp add: starts_with_def)

lemma starts_with_iff: "starts_with s p \<longleftrightarrow> (\<exists>r. s = p @ r)"
  by (auto simp: starts_with_def) (metis append_take_drop_id)

lemma strip_prefix_Some: "strip_prefix p s = Some r \<longleftrightarrow> s = p @ r"
  by (auto simp: strip_prefix_def starts_with_def split: if_splits) (metis append_take_drop_id)

lemma ends_with_append [simp]: "ends_with (s @ p) p"
  by (simp add: ends_with_def)

text \<open>\<^verbatim>\<open>split\<close> on a character: never empty.\<close>

fun split_char :: "char \<Rightarrow> string \<Rightarrow> string list" where
  "split_char d [] = [[]]"
| "split_char d (c # s) = (if c = d then [] # split_char d s
     else (case split_char d s of [] \<Rightarrow> [[c]] | w # ws \<Rightarrow> (c # w) # ws))"

lemma split_char_not_Nil [simp]: "split_char d s \<noteq> []"
  by (induction s) (auto split: list.split)

lemma split_char_no_delim: "w \<in> set (split_char d s) \<Longrightarrow> d \<notin> set w"
proof (induction s arbitrary: w)
  case (Cons c s)
  then show ?case by (cases "split_char d s") (auto split: if_splits)
qed simp

lemma hd_split_char: "hd (split_char d s) = takeWhile (\<lambda>c. c \<noteq> d) s"
proof (induction s)
  case (Cons c s)
  then show ?case by (cases "split_char d s") auto
qed simp

lemma split_char_word: "d \<notin> set w \<Longrightarrow> split_char d w = [w]"
  by (induction w) auto

lemma split_char_append: "d \<notin> set w \<Longrightarrow> split_char d (w @ d # s) = w # split_char d s"
  by (induction w) auto

definition split_once :: "char \<Rightarrow> string \<Rightarrow> (string \<times> string) option" where
  "split_once d s = (if d \<in> set s then Some (takeWhile (\<lambda>c. c \<noteq> d) s, tl (dropWhile (\<lambda>c. c \<noteq> d) s))
     else None)"

lemma split_once_append: "d \<notin> set a \<Longrightarrow> split_once d (a @ d # b) = Some (a, b)"
proof -
  assume "d \<notin> set a"
  then have "\<And>x. x \<in> set a \<Longrightarrow> x \<noteq> d" by auto
  then show ?thesis by (simp add: split_once_def)
qed

text \<open>\<^verbatim>\<open>split\<close> on the two bytes CR LF.\<close>

fun split_crlf :: "string \<Rightarrow> string list" where
  "split_crlf [] = [[]]"
| "split_crlf [c] = [[c]]"
| "split_crlf (c # d # s) = (if c = CHR 0x0D \<and> d = CHR 0x0A then [] # split_crlf s
     else (case split_crlf (d # s) of [] \<Rightarrow> [[c]] | w # ws \<Rightarrow> (c # w) # ws))"

lemma split_crlf_not_Nil [simp]: "split_crlf s \<noteq> []"
  by (induction s rule: split_crlf.induct) (auto split: list.split)

lemma split_crlf_append: "CHR 0x0D \<notin> set w \<Longrightarrow> split_crlf (w @ CHR 0x0D # CHR 0x0A # s) = w # split_crlf s"
proof (induction w)
  case (Cons c w)
  then show ?case by (cases w) auto
qed simp

fun join_crlf :: "string list \<Rightarrow> string" where
  "join_crlf [] = []"
| "join_crlf [w] = w"
| "join_crlf (w # v # ws) = w @ [CHR 0x0D, CHR 0x0A] @ join_crlf (v # ws)"

lemma join_split_crlf [simp]: "join_crlf (split_crlf s) = s"
proof (induction s rule: split_crlf.induct)
  case (3 c d s)
  show ?case
  proof (cases "c = CHR 0x0D \<and> d = CHR 0x0A")
    case True
    then show ?thesis using 3(1) by (cases "split_crlf s") simp_all
  next
    case False
    then have "join_crlf (split_crlf (d # s)) = d # s" by (rule 3(2))
    with False show ?thesis
      by (cases "split_crlf (d # s)" rule: join_crlf.cases) auto
  qed
qed simp_all

section \<open>UTF-8\<close>

text \<open>What \<^verbatim>\<open>str::from_utf8\<close> and \<^verbatim>\<open>String::from_utf8\<close> accept: no overlong forms, no surrogates,
  nothing beyond U+10FFFF.\<close>

definition cont :: "char \<Rightarrow> bool" where
  "cont c \<longleftrightarrow> 0x80 \<le> byte c \<and> byte c \<le> 0xBF"

definition between :: "nat \<Rightarrow> char \<Rightarrow> nat \<Rightarrow> bool" where
  "between lo c hi \<longleftrightarrow> lo \<le> byte c \<and> byte c \<le> hi"

fun utf8_valid :: "string \<Rightarrow> bool" where
  "utf8_valid [] = True"
| "utf8_valid [a] = (byte a < 0x80)"
| "utf8_valid [a, b] =
     (if byte a < 0x80 then utf8_valid [b] else between 0xC2 a 0xDF \<and> cont b)"
| "utf8_valid [a, b, c] =
     (if byte a < 0x80 then utf8_valid [b, c]
      else if between 0xC2 a 0xDF then cont b \<and> utf8_valid [c]
      else (byte a = 0xE0 \<and> between 0xA0 b 0xBF \<and> cont c)
        \<or> ((between 0xE1 a 0xEC \<or> between 0xEE a 0xEF) \<and> cont b \<and> cont c)
        \<or> (byte a = 0xED \<and> between 0x80 b 0x9F \<and> cont c))"
| "utf8_valid (a # b # c # d # s) =
     (if byte a < 0x80 then utf8_valid (b # c # d # s)
      else if between 0xC2 a 0xDF then cont b \<and> utf8_valid (c # d # s)
      else if between 0xE0 a 0xEF then
        ((byte a = 0xE0 \<and> between 0xA0 b 0xBF \<and> cont c)
         \<or> ((between 0xE1 a 0xEC \<or> between 0xEE a 0xEF) \<and> cont b \<and> cont c)
         \<or> (byte a = 0xED \<and> between 0x80 b 0x9F \<and> cont c)) \<and> utf8_valid (d # s)
      else ((byte a = 0xF0 \<and> between 0x90 b 0xBF \<and> cont c \<and> cont d)
         \<or> (between 0xF1 a 0xF3 \<and> cont b \<and> cont c \<and> cont d)
         \<or> (byte a = 0xF4 \<and> between 0x80 b 0x8F \<and> cont c \<and> cont d)) \<and> utf8_valid s)"

lemma utf8_valid_ascii: "\<forall>c \<in> set s. byte c < 0x80 \<Longrightarrow> utf8_valid s"
  by (induction s rule: utf8_valid.induct) simp_all

section \<open>White space\<close>

text \<open>The length in bytes of the white-space character (Unicode \<^verbatim>\<open>White_Space\<close>) that a UTF-8 string
  starts with, 0 when it starts with none.\<close>

definition ws_ascii :: "nat \<Rightarrow> bool" where
  "ws_ascii b \<longleftrightarrow> (9 \<le> b \<and> b \<le> 13) \<or> b = 32"

definition ws_two :: "nat \<Rightarrow> nat \<Rightarrow> bool" where
  "ws_two a b \<longleftrightarrow> a = 0xC2 \<and> (b = 0x85 \<or> b = 0xA0)"

definition ws_three :: "nat \<Rightarrow> nat \<Rightarrow> nat \<Rightarrow> bool" where
  "ws_three a b c \<longleftrightarrow>
     (a = 0xE1 \<and> b = 0x9A \<and> c = 0x80)
     \<or> (a = 0xE2 \<and> b = 0x80 \<and> ((0x80 \<le> c \<and> c \<le> 0x8A) \<or> c = 0xA8 \<or> c = 0xA9 \<or> c = 0xAF))
     \<or> (a = 0xE2 \<and> b = 0x81 \<and> c = 0x9F)
     \<or> (a = 0xE3 \<and> b = 0x80 \<and> c = 0x80)"

fun ws_len :: "string \<Rightarrow> nat" where
  "ws_len [] = 0"
| "ws_len (a # s) =
     (if ws_ascii (byte a) then 1
      else (case s of
              [] \<Rightarrow> 0
            | b # t \<Rightarrow> if ws_two (byte a) (byte b) then 2
                else (case t of [] \<Rightarrow> 0
                      | c # _ \<Rightarrow> if ws_three (byte a) (byte b) (byte c) then 3 else 0)))"

lemma ws_len_le: "ws_len s \<le> length s"
  by (cases s rule: ws_len.cases) (auto split: list.split)

function trim_start :: "string \<Rightarrow> string" where
  "trim_start s = (if ws_len s = 0 then s else trim_start (drop (ws_len s) s))"
  by pat_completeness auto
termination
proof (relation "measure length")
  fix s :: string
  assume "ws_len s \<noteq> 0"
  then show "(drop (ws_len s) s, s) \<in> measure length"
    using ws_len_le[of s] by (cases s) auto
qed simp

declare trim_start.simps [simp del]

text \<open>At the end of a string: the same characters, read backwards.\<close>

fun ws_len_back :: "string \<Rightarrow> nat" where
  "ws_len_back [] = 0"
| "ws_len_back (c # s) =
     (if ws_ascii (byte c) then 1
      else (case s of
              [] \<Rightarrow> 0
            | b # t \<Rightarrow> if ws_two (byte b) (byte c) then 2
                else (case t of [] \<Rightarrow> 0
                      | a # _ \<Rightarrow> if ws_three (byte a) (byte b) (byte c) then 3 else 0)))"

lemma ws_len_back_le: "ws_len_back s \<le> length s"
  by (cases s rule: ws_len_back.cases) (auto split: list.split)

function trim_back :: "string \<Rightarrow> string" where
  "trim_back s = (if ws_len_back s = 0 then s else trim_back (drop (ws_len_back s) s))"
  by pat_completeness auto
termination
proof (relation "measure length")
  fix s :: string
  assume "ws_len_back s \<noteq> 0"
  then show "(drop (ws_len_back s) s, s) \<in> measure length"
    using ws_len_back_le[of s] by (cases s) auto
qed simp

declare trim_back.simps [simp del]

definition trim :: "string \<Rightarrow> string" where
  "trim s = rev (trim_back (rev (trim_start s)))"

text \<open>\<^verbatim>\<open>split_whitespace\<close>: maximal runs of characters that are not white space. A character is taken
  with its continuation bytes, so a run ends only where a white-space character starts.\<close>

function split_ws_aux :: "string \<Rightarrow> string \<Rightarrow> string list" where
  "split_ws_aux acc s =
     (if s = [] then (if acc = [] then [] else [rev acc])
      else if ws_len s = 0 then split_ws_aux (hd s # acc) (tl s)
      else (if acc = [] then [] else [rev acc]) @ split_ws_aux [] (drop (ws_len s) s))"
  by pat_completeness auto
termination
proof (relation "measure (\<lambda>(acc, s). length s)")
  fix acc s :: string
  assume "s \<noteq> []" "ws_len s \<noteq> 0"
  then show "(([], drop (ws_len s) s), acc, s) \<in> measure (\<lambda>(acc, s). length s)"
    using ws_len_le[of s] by (cases s) auto
qed auto

declare split_ws_aux.simps [simp del]

definition split_whitespace :: "string \<Rightarrow> string list" where
  "split_whitespace s = split_ws_aux [] s"

text \<open>ASCII characters that are not white space.\<close>

definition word_char :: "char \<Rightarrow> bool" where
  "word_char c \<longleftrightarrow> byte c < 0x80 \<and> \<not> ws_ascii (byte c)"

lemma ws_len_word_char: "word_char c \<Longrightarrow> ws_len (c # s) = 0"
  by (auto simp: word_char_def ws_two_def ws_three_def split: list.split)

lemma split_ws_aux_word:
  "list_all word_char w \<Longrightarrow> split_ws_aux acc (w @ s) = split_ws_aux (rev w @ acc) s"
proof (induction w arbitrary: acc)
  case (Cons c w)
  then show ?case
    by (simp add: split_ws_aux.simps[of acc "c # w @ s"] ws_len_word_char del: ws_len.simps)
qed simp

lemma split_whitespace_Nil [simp]: "split_whitespace [] = []"
  by (simp add: split_whitespace_def split_ws_aux.simps)

lemma split_whitespace_word: "list_all word_char w \<Longrightarrow> w \<noteq> [] \<Longrightarrow> split_whitespace w = [w]"
  using split_ws_aux_word[of w "[]" "[]"] by (simp add: split_whitespace_def split_ws_aux.simps)

lemma split_whitespace_Cons:
  assumes "list_all word_char w" "w \<noteq> []"
  shows "split_whitespace (w @ CHR '' '' # s) = w # split_whitespace s"
proof -
  have "ws_len (CHR '' '' # s) = 1" by (simp add: ws_ascii_def byte_def)
  with assms show ?thesis
    by (simp add: split_whitespace_def split_ws_aux_word split_ws_aux.simps[of "rev w @ []"]
        split_ws_aux.simps[of "rev w"] del: ws_len.simps)
qed

lemma trim_start_suffix: "\<exists>p. s = p @ trim_start s"
proof (induction s rule: trim_start.induct)
  case (1 s)
  show ?case
  proof (cases "ws_len s = 0")
    case True
    then show ?thesis by (simp add: trim_start.simps)
  next
    case False
    with 1 obtain p where "drop (ws_len s) s = p @ trim_start (drop (ws_len s) s)" by blast
    then have "s = (take (ws_len s) s @ p) @ trim_start (drop (ws_len s) s)"
      by (metis append.assoc append_take_drop_id)
    with False show ?thesis by (metis trim_start.simps)
  qed
qed

lemma trim_Nil [simp]: "trim [] = []"
  by (simp add: trim_def trim_start.simps trim_back.simps)

lemma trim_word:
  assumes "s \<noteq> []" "word_char (hd s)" "word_char (last s)"
  shows "trim s = s"
proof -
  have "ws_len s = 0" using assms(1,2) by (cases s) (auto simp: ws_len_word_char simp del: ws_len.simps)
  then have start: "trim_start s = s" by (simp add: trim_start.simps)
  obtain c t where r: "rev s = c # t" using assms(1) by (cases "rev s") auto
  then have "c = last s" by (metis hd_rev list.sel(1))
  with assms(3) have "ws_len_back (c # t) = 0"
    by (auto simp: word_char_def ws_two_def ws_three_def split: list.split)
  then have "ws_len_back (rev s) = 0" unfolding r .
  then show ?thesis by (simp add: trim_def start trim_back.simps)
qed

section \<open>Decimal numbers\<close>

definition digit_char :: "nat \<Rightarrow> char" where
  "digit_char d = char_of (48 + d)"

fun show_nat :: "nat \<Rightarrow> string" where
  "show_nat n = (if n < 10 then [digit_char n] else show_nat (n div 10) @ [digit_char (n mod 10)])"

declare show_nat.simps [simp del]

definition is_digit :: "char \<Rightarrow> bool" where
  "is_digit c \<longleftrightarrow> 48 \<le> byte c \<and> byte c \<le> 57"

fun parse_digits :: "nat \<Rightarrow> string \<Rightarrow> nat option" where
  "parse_digits acc [] = Some acc"
| "parse_digits acc (c # s) = (if is_digit c then parse_digits (acc * 10 + (byte c - 48)) s else None)"

text \<open>\<^verbatim>\<open>str::parse\<close> to an unsigned integer of \<open>w\<close> bits: an optional plus sign, then digits.\<close>

definition parse_uint :: "nat \<Rightarrow> string \<Rightarrow> nat option" where
  "parse_uint w s =
     (let t = (case s of c # cs \<Rightarrow> if c = CHR ''+'' then cs else s | [] \<Rightarrow> [])
      in if t = [] then None
         else (case parse_digits 0 t of Some n \<Rightarrow> if n < 2 ^ w then Some n else None | None \<Rightarrow> None))"

lemma digit_char_digit [simp]: "d < 10 \<Longrightarrow> is_digit (digit_char d)" "d < 10 \<Longrightarrow> byte (digit_char d) = 48 + d"
  by (simp_all add: is_digit_def digit_char_def byte_def)

lemma parse_digits_append:
  "parse_digits acc (s @ t) = (case parse_digits acc s of None \<Rightarrow> None | Some n \<Rightarrow> parse_digits n t)"
  by (induction s arbitrary: acc) auto

lemma parse_show_nat: "parse_digits 0 (show_nat n) = Some n"
proof (induction n rule: show_nat.induct)
  case (1 n)
  show ?case
  proof (cases "n < 10")
    case True
    then show ?thesis by (simp add: show_nat.simps)
  next
    case False
    with 1 have "parse_digits 0 (show_nat (n div 10)) = Some (n div 10)" by simp
    then have "parse_digits 0 (show_nat (n div 10) @ [digit_char (n mod 10)])
        = parse_digits (n div 10) [digit_char (n mod 10)]"
      by (simp add: parse_digits_append)
    also have "\<dots> = Some n" by simp
    finally show ?thesis using False by (simp add: show_nat.simps[of n])
  qed
qed

lemma show_nat_digits: "c \<in> set (show_nat n) \<Longrightarrow> is_digit c"
proof (induction n rule: show_nat.induct)
  case (1 n)
  show ?case
  proof (cases "n < 10")
    case True
    with 1 show ?thesis by (simp add: show_nat.simps)
  next
    case False
    with 1 show ?thesis by (auto simp: show_nat.simps[of n])
  qed
qed

end
