(* ===== verification/Message.thy ===== *)
theory Message
  imports Rust_Strings
begin

text \<open>
  The control-channel messages and the service description (\<^verbatim>\<open>cross233-protocol/src/msg.rs\<close>): the
  two records with the fields of the source, one constructor function per kind of message, and the
  predicates that classify a service by its type. JSON encoding is the business of a third-party
  library and is not modelled; the base64 codec of \<^verbatim>\<open>data\<close> belongs to it.
\<close>

section \<open>Services\<close>

record service =
  svc_name :: string
  svc_ty :: "string option"
  local_addr :: string
  remote_port :: u16
  host :: "string option"
  subdomain :: "string option"
  route_by_http_user :: "string option"
  locations :: "string list"
  group :: "string option"
  group_key :: "string option"
  http_user :: "string option"
  http_password :: "string option"
  secret :: "string option"
  bandwidth_limit_kbps :: u64
  max_connections :: u32
  compression :: bool
  proxy_protocol :: bool
  proxy_protocol_version :: "string option"
  allow_cidrs :: "string list"
  deny_cidrs :: "string list"
  host_header_rewrite :: "string option"
  request_headers :: "(string, string) hmap"
  response_headers :: "(string, string) hmap"
  health_check :: "string option"
  health_interval :: u32
  health_timeout :: u32
  health_max_failed :: u32
  health_path :: "string option"
  health_headers :: "(string, string) hmap"
  annotations :: "(string, string) hmap"
  svc_enabled :: "bool option"

definition default_service :: service where
  "default_service = \<lparr>svc_name = [], svc_ty = None, local_addr = [], remote_port = 0, host = None,
     subdomain = None, route_by_http_user = None, locations = [], group = None, group_key = None,
     http_user = None, http_password = None, secret = None, bandwidth_limit_kbps = 0,
     max_connections = 0, compression = False, proxy_protocol = False,
     proxy_protocol_version = None, allow_cidrs = [], deny_cidrs = [], host_header_rewrite = None,
     request_headers = [], response_headers = [], health_check = None, health_interval = 0,
     health_timeout = 0, health_max_failed = 0, health_path = None, health_headers = [],
     annotations = [], svc_enabled = None\<rparr>"

definition effective_type :: "service \<Rightarrow> string" where
  "effective_type s = (case svc_ty s of None \<Rightarrow> ''tcp'' | Some t \<Rightarrow> t)"

definition is_vhost :: "service \<Rightarrow> bool" where
  "is_vhost s \<longleftrightarrow> effective_type s \<in> {''http'', ''https'', ''tcpmux''}"

definition is_private :: "service \<Rightarrow> bool" where
  "is_private s \<longleftrightarrow> effective_type s \<in> {''stcp'', ''sudp''}"

definition is_udp :: "service \<Rightarrow> bool" where
  "is_udp s \<longleftrightarrow> effective_type s \<in> {''udp'', ''sudp''}"

definition is_tcp :: "service \<Rightarrow> bool" where
  "is_tcp s \<longleftrightarrow> effective_type s \<in> {[], ''tcp'', ''static'', ''http'', ''https'', ''tcpmux'', ''stcp'', ''qcp''}"

definition is_qcp :: "service \<Rightarrow> bool" where
  "is_qcp s \<longleftrightarrow> effective_type s = ''qcp''"

definition uses_auto_port :: "service \<Rightarrow> bool" where
  "uses_auto_port s \<longleftrightarrow> remote_port s = 0 \<and> effective_type s \<in> {[], ''tcp'', ''static'', ''udp'', ''qcp''}"

definition is_enabled :: "service \<Rightarrow> bool" where
  "is_enabled s = (case svc_enabled s of None \<Rightarrow> True | Some b \<Rightarrow> b)"

lemmas service_kind_defs = effective_type_def is_vhost_def is_private_def is_udp_def is_tcp_def
  is_qcp_def uses_auto_port_def is_enabled_def

text \<open>Only the port of a service is changed by the server; nothing but the port decides on it.\<close>

lemma service_kind_port [simp]:
  "effective_type (s\<lparr>remote_port := p\<rparr>) = effective_type s"
  "is_vhost (s\<lparr>remote_port := p\<rparr>) = is_vhost s"
  "is_enabled (s\<lparr>remote_port := p\<rparr>) = is_enabled s"
  by (simp_all add: service_kind_defs)

section \<open>Messages\<close>

record message =
  m_ty :: string
  m_client_id :: "string option"
  m_id :: "string option"
  m_nonce :: "string option"
  m_proof :: "string option"
  m_error :: "string option"
  m_service_name :: "string option"
  m_address :: "string option"
  m_local_address :: "string option"
  m_remote_port :: "u16 option"
  m_healthy :: "bool option"
  m_eof :: "bool option"
  m_qcp_port :: "u16 option"
  m_qcp_tunnel_port :: "u16 option"
  m_services :: "service list"
  m_service :: "service option"
  m_data :: "bytes option"

definition default_message :: message where
  "default_message = \<lparr>m_ty = [], m_client_id = None, m_id = None, m_nonce = None, m_proof = None,
     m_error = None, m_service_name = None, m_address = None, m_local_address = None,
     m_remote_port = None, m_healthy = None, m_eof = None, m_qcp_port = None,
     m_qcp_tunnel_port = None, m_services = [], m_service = None, m_data = None\<rparr>"

definition new_client_hello :: "string \<Rightarrow> service list \<Rightarrow> message" where
  "new_client_hello cid svcs = default_message\<lparr>m_ty := ''client'', m_client_id := Some cid, m_services := svcs\<rparr>"

definition new_tunnel_hello :: "string \<Rightarrow> message" where
  "new_tunnel_hello i = default_message\<lparr>m_ty := ''tunnel'', m_id := Some i\<rparr>"

definition new_visitor_hello :: "string \<Rightarrow> string \<Rightarrow> string option \<Rightarrow> message" where
  "new_visitor_hello cid svc i = default_message\<lparr>m_ty := ''visitor'', m_client_id := Some cid,
     m_service_name := Some svc, m_id := i\<rparr>"

definition new_challenge :: "string \<Rightarrow> message" where
  "new_challenge n = default_message\<lparr>m_ty := ''challenge'', m_nonce := Some n\<rparr>"

definition new_auth :: "string \<Rightarrow> message" where
  "new_auth p = default_message\<lparr>m_ty := ''auth'', m_proof := Some p\<rparr>"

definition new_ready :: "service list \<Rightarrow> u16 \<Rightarrow> u16 \<Rightarrow> message" where
  "new_ready svcs qcp tun = default_message\<lparr>m_ty := ''ready'', m_services := svcs,
     m_qcp_port := Some qcp, m_qcp_tunnel_port := Some tun\<rparr>"

definition new_error :: "string \<Rightarrow> message" where
  "new_error e = default_message\<lparr>m_ty := ''error'', m_error := Some e\<rparr>"

definition new_open :: "string \<Rightarrow> string \<Rightarrow> string \<Rightarrow> service \<Rightarrow> message" where
  "new_open i addr laddr svc = default_message\<lparr>m_ty := ''open'', m_id := Some i,
     m_address := Some addr, m_local_address := Some laddr, m_service := Some svc\<rparr>"

definition new_static_request :: "string \<Rightarrow> string \<Rightarrow> bytes \<Rightarrow> message" where
  "new_static_request i svc d = default_message\<lparr>m_ty := ''static_request'', m_id := Some i,
     m_service_name := Some svc, m_data := Some d\<rparr>"

definition new_static_response :: "string \<Rightarrow> bytes \<Rightarrow> bool \<Rightarrow> message" where
  "new_static_response i d e = default_message\<lparr>m_ty := ''static_response'', m_id := Some i,
     m_data := Some d, m_eof := Some e\<rparr>"

definition new_reject :: "string \<Rightarrow> string \<Rightarrow> message" where
  "new_reject i e = default_message\<lparr>m_ty := ''reject'', m_id := Some i, m_error := Some e\<rparr>"

definition new_ping :: message where
  "new_ping = default_message\<lparr>m_ty := ''ping''\<rparr>"

definition new_pong :: message where
  "new_pong = default_message\<lparr>m_ty := ''pong''\<rparr>"

definition new_udp :: "u16 \<Rightarrow> string \<Rightarrow> bytes \<Rightarrow> service \<Rightarrow> message" where
  "new_udp p addr d svc = default_message\<lparr>m_ty := ''udp'', m_remote_port := Some p,
     m_address := Some addr, m_data := Some d, m_service := Some svc\<rparr>"

definition new_udp_response :: "u16 \<Rightarrow> string \<Rightarrow> bytes \<Rightarrow> message" where
  "new_udp_response p addr d = default_message\<lparr>m_ty := ''udp_response'', m_remote_port := Some p,
     m_address := Some addr, m_data := Some d\<rparr>"

definition new_visitor_udp :: "string \<Rightarrow> bytes \<Rightarrow> message" where
  "new_visitor_udp i d = default_message\<lparr>m_ty := ''visitor_udp'', m_id := Some i, m_data := Some d\<rparr>"

definition new_visitor_udp_response :: "string \<Rightarrow> bytes \<Rightarrow> message" where
  "new_visitor_udp_response i d =
     default_message\<lparr>m_ty := ''visitor_udp_response'', m_id := Some i, m_data := Some d\<rparr>"

definition new_health :: "string \<Rightarrow> bool \<Rightarrow> message" where
  "new_health svc h = default_message\<lparr>m_ty := ''health'', m_service_name := Some svc, m_healthy := Some h\<rparr>"

definition new_close :: "string \<Rightarrow> message" where
  "new_close r = default_message\<lparr>m_ty := ''close'', m_error := Some r\<rparr>"

end
