(* ===== verification/Net_Addr.thy ===== *)
theory Net_Addr
  imports Rust_Strings
begin

text \<open>
  Internet addresses as the standard library has them: \<^verbatim>\<open>IpAddr\<close> and \<^verbatim>\<open>SocketAddr\<close>, the octets the
  PROXY headers carry, the textual form (\<^verbatim>\<open>Display\<close>) and the parser behind
  \<^verbatim>\<open>str::parse::<IpAddr>\<close>. Configuration validation and the PROXY protocol use them.
\<close>

datatype ip_addr = V4 u8 u8 u8 u8 | V6 u16 u16 u16 u16 u16 u16 u16 u16

record socket_addr =
  ip :: ip_addr
  port :: u16

definition is_ipv4 :: "ip_addr \<Rightarrow> bool" where
  "is_ipv4 a = (case a of V4 _ _ _ _ \<Rightarrow> True | V6 _ _ _ _ _ _ _ _ \<Rightarrow> False)"

fun octets :: "ip_addr \<Rightarrow> bytes" where
  "octets (V4 a b c d) = [a, b, c, d]"
| "octets (V6 a b c d e f g h) = concat (map put_u16 [a, b, c, d, e, f, g, h])"

lemma length_octets: "length (octets a) = (if is_ipv4 a then 4 else 16)"
  by (cases a) (simp_all add: is_ipv4_def)

section \<open>Textual form\<close>

definition show_ipv4 :: "u8 \<Rightarrow> u8 \<Rightarrow> u8 \<Rightarrow> u8 \<Rightarrow> string" where
  "show_ipv4 a b c d = show_nat (unat a) @ ''.'' @ show_nat (unat b) @ ''.''
     @ show_nat (unat c) @ ''.'' @ show_nat (unat d)"

definition hex_char :: "nat \<Rightarrow> char" where
  "hex_char d = (if d < 10 then char_of (48 + d) else char_of (87 + d))"

fun show_hex :: "nat \<Rightarrow> string" where
  "show_hex n = (if n < 16 then [hex_char n] else show_hex (n div 16) @ [hex_char (n mod 16)])"

declare show_hex.simps [simp del]

fun join_colon :: "string list \<Rightarrow> string" where
  "join_colon [] = []"
| "join_colon [w] = w"
| "join_colon (w # v # ws) = w @ '':'' @ join_colon (v # ws)"

text \<open>The first longest run of zero groups: its start and length.\<close>

fun zero_run :: "u16 list \<Rightarrow> nat" where
  "zero_run [] = 0"
| "zero_run (x # xs) = (if x = 0 then Suc (zero_run xs) else 0)"

fun longest_run :: "nat \<Rightarrow> u16 list \<Rightarrow> nat \<times> nat \<Rightarrow> nat \<times> nat" where
  "longest_run i [] best = best"
| "longest_run i (x # xs) best =
     longest_run (Suc i) xs (if zero_run (x # xs) > snd best then (i, zero_run (x # xs)) else best)"

definition show_groups :: "u16 list \<Rightarrow> string" where
  "show_groups gs = join_colon (map (\<lambda>g. show_hex (unat g)) gs)"

fun show_ip :: "ip_addr \<Rightarrow> string" where
  "show_ip (V4 a b c d) = show_ipv4 a b c d"
| "show_ip (V6 a b c d e f g h) =
     (if [a, b, c, d, e] = [0, 0, 0, 0, 0] \<and> f = 0xFFFF
      then ''::ffff:'' @ show_ipv4 (ucast (drop_bit 8 g)) (ucast g) (ucast (drop_bit 8 h)) (ucast h)
      else let gs = [a, b, c, d, e, f, g, h]; (i, n) = longest_run 0 gs (0, 0)
           in if n > 1 then show_groups (take i gs) @ ''::'' @ show_groups (drop (i + n) gs)
              else show_groups gs)"

definition show_socket_addr :: "socket_addr \<Rightarrow> string" where
  "show_socket_addr a =
     (if is_ipv4 (ip a) then show_ip (ip a) @ '':'' @ show_nat (unat (port a))
      else ''['' @ show_ip (ip a) @ '']:'' @ show_nat (unat (port a)))"

section \<open>The parser\<close>

definition hex_digit :: "char \<Rightarrow> nat option" where
  "hex_digit c = (let b = byte c
     in if 48 \<le> b \<and> b \<le> 57 then Some (b - 48)
        else if 97 \<le> b \<and> b \<le> 102 then Some (b - 87)
        else if 65 \<le> b \<and> b \<le> 70 then Some (b - 55) else None)"

definition to_digit :: "nat \<Rightarrow> char \<Rightarrow> nat option" where
  "to_digit radix c = (case hex_digit c of None \<Rightarrow> None | Some d \<Rightarrow> if d < radix then Some d else None)"

fun digits_value :: "nat \<Rightarrow> nat \<Rightarrow> string \<Rightarrow> nat" where
  "digits_value radix acc [] = acc"
| "digits_value radix acc (c # s) =
     digits_value radix (acc * radix + (case to_digit radix c of None \<Rightarrow> 0 | Some d \<Rightarrow> d)) s"

definition read_number :: "nat \<Rightarrow> nat \<Rightarrow> bool \<Rightarrow> nat \<Rightarrow> string \<Rightarrow> (nat \<times> string) option" where
  "read_number radix max_digits allow_zero_prefix limit s =
     (let ds = takeWhile (\<lambda>c. to_digit radix c \<noteq> None) s; v = digits_value radix 0 ds
      in if length ds > max_digits \<or> ds = [] then None
         else if \<not> allow_zero_prefix \<and> hd ds = CHR ''0'' \<and> length ds > 1 then None
         else if v \<ge> limit then None else Some (v, drop (length ds) s))"

definition read_given_char :: "char \<Rightarrow> string \<Rightarrow> string option" where
  "read_given_char c s = (case s of [] \<Rightarrow> None | x # t \<Rightarrow> if x = c then Some t else None)"

definition read_octet :: "nat \<Rightarrow> string \<Rightarrow> (u8 \<times> string) option" where
  "read_octet i s =
     (case (if i = 0 then Some s else read_given_char (CHR ''.'') s) of
        None \<Rightarrow> None
      | Some t \<Rightarrow> (case read_number 10 3 False 256 t of
                     None \<Rightarrow> None | Some (v, u) \<Rightarrow> Some (of_nat v, u)))"

definition read_ipv4 :: "string \<Rightarrow> ((u8 \<times> u8 \<times> u8 \<times> u8) \<times> string) option" where
  "read_ipv4 s0 =
     (case read_octet 0 s0 of None \<Rightarrow> None | Some (a, s1) \<Rightarrow>
     (case read_octet 1 s1 of None \<Rightarrow> None | Some (b, s2) \<Rightarrow>
     (case read_octet 2 s2 of None \<Rightarrow> None | Some (c, s3) \<Rightarrow>
     (case read_octet 3 s3 of None \<Rightarrow> None | Some (d, s4) \<Rightarrow> Some ((a, b, c, d), s4)))))"

text \<open>Up to \<open>room\<close> colon-separated groups from position \<open>i\<close> on; an embedded IPv4 address takes two
  and ends the list.\<close>

fun read_groups :: "nat \<Rightarrow> nat \<Rightarrow> string \<Rightarrow> u16 list \<times> bool \<times> string" where
  "read_groups 0 i s = ([], False, s)"
| "read_groups (Suc room) i s =
     (let t = (if i = 0 then Some s else read_given_char (CHR '':'') s)
      in case (if room = 0 then None else case t of None \<Rightarrow> None | Some u \<Rightarrow> read_ipv4 u) of
           Some ((a, b, c, d), u) \<Rightarrow> ([u16_from_be a b, u16_from_be c d], True, u)
         | None \<Rightarrow> (case (case t of None \<Rightarrow> None | Some u \<Rightarrow> read_number 16 4 True 65536 u) of
                      None \<Rightarrow> ([], False, s)
                    | Some (v, u) \<Rightarrow> (let (gs, q, r) = read_groups room (Suc i) u
                                     in (of_nat v # gs, q, r))))"

definition mk_v6 :: "u16 list \<Rightarrow> ip_addr" where
  "mk_v6 gs = V6 (gs ! 0) (gs ! 1) (gs ! 2) (gs ! 3) (gs ! 4) (gs ! 5) (gs ! 6) (gs ! 7)"

definition read_ipv6 :: "string \<Rightarrow> (ip_addr \<times> string) option" where
  "read_ipv6 s =
     (let (hs, h4, r) = read_groups 8 0 s
      in if length hs = 8 then Some (mk_v6 hs, r)
         else if h4 then None
         else (case read_given_char (CHR '':'') r of None \<Rightarrow> None | Some r1 \<Rightarrow>
              (case read_given_char (CHR '':'') r1 of None \<Rightarrow> None | Some r2 \<Rightarrow>
                 let (ts, _, r3) = read_groups (8 - (length hs + 1)) 0 r2
                 in Some (mk_v6 (hs @ replicate (8 - length hs - length ts) 0 @ ts), r3))))"

definition parse_ip :: "string \<Rightarrow> ip_addr option" where
  "parse_ip s =
     (case read_ipv4 s of
        Some ((a, b, c, d), r) \<Rightarrow> if r = [] then Some (V4 a b c d) else None
      | None \<Rightarrow> (case read_ipv6 s of
                   Some (a, r) \<Rightarrow> if r = [] then Some a else None
                 | None \<Rightarrow> None))"

end
