(* ===== verification/Server_Config.thy ===== *)
theory Server_Config
  imports Net_Addr
begin

text \<open>
  The server configuration and its validation (\<^verbatim>\<open>cross233-server/src/config.rs\<close>): which ports belong
  to the server itself, which are protected, and what a configuration must satisfy before the server
  starts. Reading the file (\<^verbatim>\<open>ServerConfig::load\<close>) is left to the TOML, JSON and YAML libraries.
\<close>

record server_config =
  bind :: string
  cfg_proxy_bind :: string
  auth_key :: string
  auth_key_file :: string
  cert_file :: string
  key_file :: string
  control_port :: u16
  web_port :: u16
  http_vhost_port :: u16
  https_vhost_port :: u16
  tcpmux_port :: u16
  cfg_qcp_port :: u16
  qcp_tunnel_port :: u16
  subdomain_host :: string
  cfg_port_min :: u16
  cfg_port_max :: u16
  cfg_allow_privileged_ports :: bool
  cfg_protected_ports :: "u16 list"
  cfg_max_connections :: u32
  handshake_timeout :: u32
  web_user :: string
  web_password :: string
  api_token :: string

definition default_config :: server_config where
  "default_config = \<lparr>bind = ''0.0.0.0'', cfg_proxy_bind = [], auth_key = [],
     auth_key_file = ''cross233-auth.key'', cert_file = ''cross233-cert.pem'',
     key_file = ''cross233-key.pem'', control_port = 7710, web_port = 7711, http_vhost_port = 80,
     https_vhost_port = 443, tcpmux_port = 0, cfg_qcp_port = 7713, qcp_tunnel_port = 0,
     subdomain_host = [], cfg_port_min = 7712, cfg_port_max = 7720,
     cfg_allow_privileged_ports = False, cfg_protected_ports = [22], cfg_max_connections = 256,
     handshake_timeout = 10, web_user = [], web_password = [], api_token = []\<rparr>"

definition show_port :: "u16 \<Rightarrow> string" where
  "show_port p = show_nat (unat p)"

definition control_addr :: "server_config \<Rightarrow> string" where
  "control_addr c = bind c @ '':'' @ show_port (control_port c)"

definition web_addr :: "server_config \<Rightarrow> string" where
  "web_addr c = bind c @ '':'' @ show_port (web_port c)"

definition http_vhost_addr :: "server_config \<Rightarrow> string" where
  "http_vhost_addr c = bind c @ '':'' @ show_port (http_vhost_port c)"

definition https_vhost_addr :: "server_config \<Rightarrow> string" where
  "https_vhost_addr c = bind c @ '':'' @ show_port (https_vhost_port c)"

definition tcpmux_addr :: "server_config \<Rightarrow> string option" where
  "tcpmux_addr c = (if tcpmux_port c > 0 then Some (bind c @ '':'' @ show_port (tcpmux_port c)) else None)"

definition qcp_addr :: "server_config \<Rightarrow> string" where
  "qcp_addr c = bind c @ '':'' @ show_port (cfg_qcp_port c)"

definition qcp_tunnel_addr :: "server_config \<Rightarrow> string option" where
  "qcp_tunnel_addr c =
     (if qcp_tunnel_port c = 0 then None else Some (bind c @ '':'' @ show_port (qcp_tunnel_port c)))"

definition effective_proxy_bind :: "server_config \<Rightarrow> string" where
  "effective_proxy_bind c = (if trim (cfg_proxy_bind c) = [] then bind c else cfg_proxy_bind c)"

definition effective_protected_ports :: "server_config \<Rightarrow> u16 set" where
  "effective_protected_ports c = insert 22 (set (cfg_protected_ports c))"

definition listener_ports :: "server_config \<Rightarrow> u16 list" where
  "listener_ports c = [control_port c, web_port c, http_vhost_port c, https_vhost_port c,
     tcpmux_port c, cfg_qcp_port c, qcp_tunnel_port c]"

definition reserved_ports :: "server_config \<Rightarrow> u16 set" where
  "reserved_ports c = set (filter (\<lambda>p. p \<noteq> 0) (listener_ports c))"

section \<open>Validation\<close>

datatype config_error =
    BindNotIp
  | ProxyBindNotIp
  | ControlPortZero
  | RangeHasZero
  | RangeInverted u16 u16
  | PortConflict string string string u16
  | NoAssignablePort u16 u16

fun unique_ports_loop ::
  "string \<Rightarrow> (string \<times> u16) list \<Rightarrow> (u16, string) hmap \<Rightarrow> config_error option" where
  "unique_ports_loop protocol [] seen = None"
| "unique_ports_loop protocol ((name, p) # ps) seen =
     (case hm_get seen p of
        Some previous \<Rightarrow> Some (PortConflict protocol previous name p)
      | None \<Rightarrow> unique_ports_loop protocol ps (hm_insert p name seen))"

definition validate_unique_ports :: "string \<Rightarrow> (string \<times> u16) list \<Rightarrow> config_error option" where
  "validate_unique_ports protocol ps = unique_ports_loop protocol (filter (\<lambda>(_, p). p \<noteq> 0) ps) []"

definition tcp_ports :: "server_config \<Rightarrow> (string \<times> u16) list" where
  "tcp_ports c = [(''control_port'', control_port c), (''web_port'', web_port c),
     (''http_vhost_port'', http_vhost_port c), (''https_vhost_port'', https_vhost_port c),
     (''tcpmux_port'', tcpmux_port c)]"

definition udp_ports :: "server_config \<Rightarrow> (string \<times> u16) list" where
  "udp_ports c = [(''qcp_port'', cfg_qcp_port c), (''qcp_tunnel_port'', qcp_tunnel_port c)]"

text \<open>The inclusive range \<^verbatim>\<open>port_min..=port_max\<close>.\<close>

definition port_range :: "u16 \<Rightarrow> u16 \<Rightarrow> u16 list" where
  "port_range lo hi = map of_nat [unat lo..<Suc (unat hi)]"

definition assignable :: "server_config \<Rightarrow> u16 \<Rightarrow> bool" where
  "assignable c p \<longleftrightarrow> p \<notin> reserved_ports c \<and> p \<notin> effective_protected_ports c
     \<and> (cfg_allow_privileged_ports c \<or> p \<ge> 1024)"

definition validate :: "server_config \<Rightarrow> config_error + unit" where
  "validate c =
     (if parse_ip (bind c) = None then Inl BindNotIp
      else if parse_ip (effective_proxy_bind c) = None then Inl ProxyBindNotIp
      else if control_port c = 0 then Inl ControlPortZero
      else if cfg_port_min c = 0 \<or> cfg_port_max c = 0 then Inl RangeHasZero
      else if cfg_port_min c > cfg_port_max c then Inl (RangeInverted (cfg_port_min c) (cfg_port_max c))
      else (case validate_unique_ports ''TCP'' (tcp_ports c) of
              Some e \<Rightarrow> Inl e
            | None \<Rightarrow>
           (case validate_unique_ports ''UDP'' (udp_ports c) of
              Some e \<Rightarrow> Inl e
            | None \<Rightarrow>
                if list_ex (assignable c) (port_range (cfg_port_min c) (cfg_port_max c))
                then Inr ()
                else Inl (NoAssignablePort (cfg_port_min c) (cfg_port_max c)))))"

section \<open>What validation guarantees\<close>

lemma in_port_range: "p \<in> set (port_range lo hi) \<longleftrightarrow> lo \<le> p \<and> p \<le> hi"
proof
  assume "p \<in> set (port_range lo hi)"
  then obtain n where n: "unat lo \<le> n" "n \<le> unat hi" "p = of_nat n"
    by (auto simp: port_range_def)
  have "unat hi < 2 ^ 16" by (rule order_less_le_trans[OF unsigned_less]) simp
  with n have "unat p = n" by simp
  with n show "lo \<le> p \<and> p \<le> hi" by (simp add: word_le_nat_alt)
next
  assume "lo \<le> p \<and> p \<le> hi"
  then have "unat p \<in> {unat lo..<Suc (unat hi)}" by (auto simp: word_le_nat_alt)
  moreover have "of_nat (unat p) = p" by simp
  ultimately show "p \<in> set (port_range lo hi)"
    unfolding port_range_def by (metis image_eqI set_map set_upt)
qed

lemma unique_ports_loop_None:
  "unique_ports_loop protocol ps seen = None \<longleftrightarrow>
     distinct (map snd ps) \<and> (\<forall>p \<in> set (map snd ps). hm_get seen p = None)"
proof (induction ps arbitrary: seen)
  case (Cons a ps)
  then show ?case by (cases a) (auto split: option.splits)
qed simp

lemma validate_unique_ports_None:
  "validate_unique_ports protocol ps = None \<longleftrightarrow> distinct (filter (\<lambda>p. p \<noteq> 0) (map snd ps))"
proof -
  have "map snd (filter (\<lambda>(_, p). p \<noteq> 0) ps) = filter (\<lambda>p. p \<noteq> 0) (map snd ps)"
    by (induction ps) auto
  then show ?thesis by (simp add: validate_unique_ports_def unique_ports_loop_None)
qed

lemma validate_range:
  "validate c = Inr () \<Longrightarrow> cfg_port_min c \<noteq> 0 \<and> cfg_port_min c \<le> cfg_port_max c
     \<and> (\<exists>p. cfg_port_min c \<le> p \<and> p \<le> cfg_port_max c \<and> assignable c p)"
  by (auto simp: validate_def list_ex_iff in_port_range not_less split: if_splits option.splits)

text \<open>Validation accepts a configuration exactly when the server can run it: both bind
  addresses are IP addresses, the control port is set, the automatic range is non-empty without port
  zero, the enabled TCP listeners have distinct ports and so have the UDP listeners, and some port of
  the range may be given to a service (it is neither a listener's port nor protected, and privileged
  only if that is allowed).\<close>

theorem validate_exact:
  "validate c = Inr () \<longleftrightarrow> parse_ip (bind c) \<noteq> None \<and> parse_ip (effective_proxy_bind c) \<noteq> None
     \<and> control_port c \<noteq> 0 \<and> cfg_port_min c \<noteq> 0 \<and> cfg_port_max c \<noteq> 0
     \<and> cfg_port_min c \<le> cfg_port_max c
     \<and> distinct (filter (\<lambda>p. p \<noteq> 0) (map snd (tcp_ports c)))
     \<and> distinct (filter (\<lambda>p. p \<noteq> 0) (map snd (udp_ports c)))
     \<and> (\<exists>p. cfg_port_min c \<le> p \<and> p \<le> cfg_port_max c \<and> assignable c p)"
proof -
  have t: "validate_unique_ports ''TCP'' (tcp_ports c) = None
      \<longleftrightarrow> distinct (filter (\<lambda>p. p \<noteq> 0) (map snd (tcp_ports c)))"
    and u: "validate_unique_ports ''UDP'' (udp_ports c) = None
      \<longleftrightarrow> distinct (filter (\<lambda>p. p \<noteq> 0) (map snd (udp_ports c)))"
    by (rule validate_unique_ports_None)+
  have a: "list_ex (assignable c) (port_range (cfg_port_min c) (cfg_port_max c))
      \<longleftrightarrow> (\<exists>p. cfg_port_min c \<le> p \<and> p \<le> cfg_port_max c \<and> assignable c p)"
    by (auto simp: list_ex_iff in_port_range)
  show ?thesis
    unfolding validate_def a t[symmetric] u[symmetric]
    by (cases "validate_unique_ports ''TCP'' (tcp_ports c)";
        cases "validate_unique_ports ''UDP'' (udp_ports c)") (auto simp: not_less)
qed

lemma default_config_valid: "validate default_config = Inr ()"
proof -
  have z: "read_number 10 3 False 256 (CHR ''0'' # t) = Some (0, t)" if "t = [] \<or> hd t = CHR ''.''" for t
    using that by (cases t) (auto simp: read_number_def to_digit_def hex_digit_def byte_def Let_def)
  have ip: "parse_ip ''0.0.0.0'' = Some (V4 0 0 0 0)"
    by (simp add: parse_ip_def read_ipv4_def read_octet_def read_given_char_def z)
  have tcp: "validate_unique_ports ''TCP'' (tcp_ports default_config) = None"
    and udp: "validate_unique_ports ''UDP'' (udp_ports default_config) = None"
    by (simp_all add: validate_unique_ports_None tcp_ports_def udp_ports_def default_config_def)
  have "list_ex (assignable default_config) (port_range 7712 7720)"
    unfolding list_ex_iff
    by (intro bexI[of _ 7712]) (simp_all add: in_port_range assignable_def reserved_ports_def
        listener_ports_def effective_protected_ports_def default_config_def)
  then show ?thesis
    using tcp udp ip
    by (simp add: validate_def effective_proxy_bind_def default_config_def)
qed

end
