(* ===== verification/Service_Registry.thy ===== *)
theory Service_Registry
  imports Message Server_Config
begin

text \<open>
  The server's registry of services (\<^verbatim>\<open>cross233-server/src/service.rs\<close>, \<^verbatim>\<open>SharedServiceState\<close>): who
  registered what, which public port belongs to which service, the tunnels and static responses that
  are waited for, and the control channel of each client session.

  \<^verbatim>\<open>Arc<ServiceEntry>\<close> is shared between the maps by name and by group and its counters are
  atomic, so entries live in a store and the maps hold indices. A control channel is named by a
  number (\<^verbatim>\<open>same_channel\<close> is equality of these); the registry keeps the log of what was sent, and the
  set of channels whose receiver is gone. Each operation below runs with the locks the source takes;
  where the source releases a lock in between, the parts are separate definitions.
\<close>

definition STATIC_RESPONSE_CHUNK_MAX :: nat where "STATIC_RESPONSE_CHUNK_MAX = 8 * 1024"
definition STATIC_RESPONSE_QUEUE_CAPACITY :: nat where "STATIC_RESPONSE_QUEUE_CAPACITY = 16"
definition STATIC_CONTROL_MAX_IN_FLIGHT :: nat where "STATIC_CONTROL_MAX_IN_FLIGHT = 4"

lemmas static_consts = STATIC_RESPONSE_CHUNK_MAX_def STATIC_RESPONSE_QUEUE_CAPACITY_def
  STATIC_CONTROL_MAX_IN_FLIGHT_def

type_synonym chan = nat

record service_entry =
  config :: service
  entry_client_id :: string
  healthy :: bool
  enabled :: bool
  control_tx :: chan
  current_conns :: nat
  traffic_tx :: u64
  traffic_rx :: u64
  started_at :: nat
  last_health_check :: nat
  round_robin_idx :: u64

definition new_entry :: "service \<Rightarrow> string \<Rightarrow> chan \<Rightarrow> nat \<Rightarrow> service_entry" where
  "new_entry svc cid tx now = \<lparr>config = svc, entry_client_id = cid, healthy = True, enabled = True,
     control_tx = tx, current_conns = 0, traffic_tx = 0, traffic_rx = 0, started_at = now,
     last_health_check = now, round_robin_idx = 0\<rparr>"

record chunk =
  chunk_data :: bytes
  chunk_eof :: bool

text \<open>A pending static response: the session that owns it and the queue towards the public peer,
  named by a number. Dropping it releases its semaphore permit.\<close>

record pending_static_response =
  owner :: chan
  queue_id :: nat

text \<open>A bounded channel: its contents and whether the receiver is still there.\<close>

record queue =
  chunks_of :: "chunk list"
  receiver_alive :: bool

record 'stream registry =
  store :: "service_entry list"
  services_by_name :: "(string, nat) hmap"
  services_by_group :: "(string, nat list) hmap"
  client_services :: "(string, string list) hmap"
  allocated_ports :: "(u16, string) hmap"
  active_listeners :: "(u16, string \<times> nat) hmap"
  next_port :: u64
  port_min :: u16
  port_max :: u16
  proxy_bind :: string
  allow_privileged_ports :: bool
  protected_ports :: "u16 set"
  reserved :: "u16 set"
  pending_work :: "(string, nat) hmap"
  pending_static :: "(string, pending_static_response) hmap"
  static_slots :: nat
  client_control_tx :: "(string, chan) hmap"
  qcp_port :: u16
  sent_messages :: "(chan \<times> message) list"
  dead_channels :: "chan set"
  work_results :: "(nat \<times> (string + 'stream)) list"
  queues :: "queue list"
  aborted :: "nat list"
  next_work :: nat

definition new_with_network_policy ::
  "u16 \<Rightarrow> u16 \<Rightarrow> u16 \<Rightarrow> string \<Rightarrow> bool \<Rightarrow> u16 set \<Rightarrow> u16 set \<Rightarrow> 'stream registry" where
  "new_with_network_policy pmin pmax qcp pbind priv prot res = \<lparr>
     store = [], services_by_name = [], services_by_group = [], client_services = [],
     allocated_ports = [], active_listeners = [], next_port = ucast pmin, port_min = pmin,
     port_max = pmax, proxy_bind = pbind, allow_privileged_ports = priv, protected_ports = prot,
     reserved = res, pending_work = [], pending_static = [],
     static_slots = STATIC_CONTROL_MAX_IN_FLIGHT, client_control_tx = [], qcp_port = qcp,
     sent_messages = [], dead_channels = {}, work_results = [], queues = [], aborted = [],
     next_work = 0\<rparr>"

definition new_registry :: "u16 \<Rightarrow> u16 \<Rightarrow> u16 \<Rightarrow> 'stream registry" where
  "new_registry pmin pmax qcp = new_with_network_policy pmin pmax qcp ''0.0.0.0'' False {22} {}"

section \<open>Ports\<close>

definition uses_direct_public_port :: "service \<Rightarrow> bool" where
  "uses_direct_public_port s \<longleftrightarrow>
     effective_type s \<in> {[], ''tcp'', ''static'', ''udp'', ''qcp''} \<and> remote_port s \<noteq> 0"

definition has_listener_type :: "service \<Rightarrow> bool" where
  "has_listener_type s \<longleftrightarrow> effective_type s \<in> {[], ''tcp'', ''static''}"

definition validate_explicit_port :: "'s registry \<Rightarrow> u16 \<Rightarrow> string + unit" where
  "validate_explicit_port r p =
     (if p = 0 then Inl ''port zero is only valid for automatic allocation''
      else if p \<in> protected_ports r then Inl ''port is protected by server configuration''
      else if p \<in> reserved r then Inl ''port is reserved by a cross233 server listener''
      else if p < 1024 \<and> \<not> allow_privileged_ports r then Inl ''privileged ports below 1024 are disabled''
      else Inr ())"

text \<open>The loop of \<^verbatim>\<open>allocate_port\<close>: \<open>n\<close> attempts left; the counter wraps as \<^verbatim>\<open>AtomicUsize\<close> does,
  the width of the range is computed in \<^verbatim>\<open>u16\<close>.\<close>

definition port_count :: "'s registry \<Rightarrow> u16" where
  "port_count r = port_max r - port_min r + 1"

definition candidate_port :: "'s registry \<Rightarrow> u64 \<Rightarrow> u16" where
  "candidate_port r idx = port_min r + of_nat (unat idx mod unat (port_count r))"

fun allocate_loop :: "nat \<Rightarrow> string \<Rightarrow> 's registry \<Rightarrow> u16 option \<times> 's registry" where
  "allocate_loop 0 name r = (None, r)"
| "allocate_loop (Suc n) name r =
     (let p = candidate_port r (next_port r); r1 = r\<lparr>next_port := next_port r + 1\<rparr>
      in if validate_explicit_port r1 p = Inr () \<and> hm_get (allocated_ports r1) p = None
         then (Some p, r1\<lparr>allocated_ports := hm_insert p name (allocated_ports r1)\<rparr>)
         else allocate_loop n name r1)"

definition allocate_port :: "string \<Rightarrow> 's registry \<Rightarrow> u16 option \<times> 's registry" where
  "allocate_port name r = allocate_loop (unat (port_count r)) name r"

section \<open>Listeners\<close>

definition register_listener :: "u16 \<Rightarrow> string \<Rightarrow> nat \<Rightarrow> 's registry \<Rightarrow> 's registry" where
  "register_listener p name h r =
     r\<lparr>active_listeners := hm_insert p (name, h) (active_listeners r)\<rparr>"

definition is_listener_active :: "u16 \<Rightarrow> 's registry \<Rightarrow> bool" where
  "is_listener_active p r = hm_contains (active_listeners r) p"

definition remove_listener_handle :: "u16 \<Rightarrow> string \<Rightarrow> 's registry \<Rightarrow> 's registry" where
  "remove_listener_handle p name r =
     (case hm_get (active_listeners r) p of
        Some (own, _) \<Rightarrow> if own = name then r\<lparr>active_listeners := hm_remove p (active_listeners r)\<rparr> else r
      | None \<Rightarrow> r)"

definition stop_listener :: "u16 \<Rightarrow> string \<Rightarrow> 's registry \<Rightarrow> 's registry" where
  "stop_listener p name r =
     (case hm_get (active_listeners r) p of
        Some (own, h) \<Rightarrow> if own = name
          then r\<lparr>active_listeners := hm_remove p (active_listeners r), aborted := aborted r @ [h]\<rparr>
          else r
      | None \<Rightarrow> r)"

section \<open>Registration\<close>

definition entry_at :: "'s registry \<Rightarrow> string \<Rightarrow> service_entry option" where
  "entry_at r name = map_option (\<lambda>i. store r ! i) (hm_get (services_by_name r) name)"

text \<open>The port a registration gets, \<open>None\<close> when it is rejected. A service on an automatic port keeps
  the port of the entry it replaces while that port is still valid.\<close>

definition assign_port :: "string \<Rightarrow> service_entry option \<Rightarrow> service \<Rightarrow> 's registry \<Rightarrow> service option \<times> 's registry" where
  "assign_port name existing svc r =
     (if uses_auto_port svc then
        (case existing of
           Some e \<Rightarrow>
             if uses_direct_public_port (config e)
                \<and> validate_explicit_port r (remote_port (config e)) = Inr ()
             then let p = remote_port (config e)
                  in (Some (svc\<lparr>remote_port := p\<rparr>),
                      if hm_contains (allocated_ports r) p then r
                      else r\<lparr>allocated_ports := hm_insert p name (allocated_ports r)\<rparr>)
             else (case allocate_port name r of
                     (Some p, r1) \<Rightarrow> (Some (svc\<lparr>remote_port := p\<rparr>), r1)
                   | (None, r1) \<Rightarrow> (None, r1))
         | None \<Rightarrow> (case allocate_port name r of
                     (Some p, r1) \<Rightarrow> (Some (svc\<lparr>remote_port := p\<rparr>), r1)
                   | (None, r1) \<Rightarrow> (None, r1)))
      else if uses_direct_public_port svc then
        (case validate_explicit_port r (remote_port svc) of
           Inl _ \<Rightarrow> (None, r)
         | Inr _ \<Rightarrow>
             (case hm_get (allocated_ports r) (remote_port svc) of
                Some own \<Rightarrow> if own \<noteq> name then (None, r)
                  else (Some svc, r\<lparr>allocated_ports := hm_insert (remote_port svc) name (allocated_ports r)\<rparr>)
              | None \<Rightarrow> (Some svc, r\<lparr>allocated_ports := hm_insert (remote_port svc) name (allocated_ports r)\<rparr>)))
      else (Some svc, r))"

text \<open>Taking an entry out of its group.\<close>

definition leave_group :: "string option \<Rightarrow> string \<Rightarrow> 's registry \<Rightarrow> 's registry" where
  "leave_group g name r =
     (case g of
        None \<Rightarrow> r
      | Some grp \<Rightarrow> (case hm_get (services_by_group r) grp of
            None \<Rightarrow> r
          | Some es \<Rightarrow>
              let es' = filter (\<lambda>i. svc_name (config (store r ! i)) \<noteq> name) es
              in r\<lparr>services_by_group := (if es' = [] then hm_remove grp (services_by_group r)
                                        else hm_insert grp es' (services_by_group r))\<rparr>))"

text \<open>What happens to the entry that a registration replaces: its old public port is given back and
  its TCP listener stopped, and it leaves its group.\<close>

definition retire_previous :: "string \<Rightarrow> service_entry \<Rightarrow> service \<Rightarrow> 's registry \<Rightarrow> 's registry" where
  "retire_previous name previous svc r =
     (let pp = remote_port (config previous);
          r1 = (if uses_direct_public_port (config previous) \<and> pp \<noteq> remote_port svc
                then let ra = (if hm_get (allocated_ports r) pp = Some name
                               then r\<lparr>allocated_ports := hm_remove pp (allocated_ports r)\<rparr> else r)
                     in if has_listener_type (config previous) then stop_listener pp name ra else ra
                else r)
      in leave_group (group (config previous)) name r1)"

definition publish :: "nat \<Rightarrow> string \<Rightarrow> chan \<Rightarrow> service \<Rightarrow> 's registry \<Rightarrow> 's registry" where
  "publish now cid tx svc r =
     (let i = length (store r); name = svc_name svc;
          r1 = r\<lparr>store := store r @ [new_entry svc cid tx now],
                 services_by_name := hm_insert name i (services_by_name r)\<rparr>;
          r2 = (case group svc of
                  None \<Rightarrow> r1
                | Some g \<Rightarrow> r1\<lparr>services_by_group :=
                    hm_insert g ((case hm_get (services_by_group r1) g of None \<Rightarrow> [] | Some es \<Rightarrow> es) @ [i])
                      (services_by_group r1)\<rparr>);
          names = (case hm_get (client_services r2) cid of None \<Rightarrow> [] | Some ns \<Rightarrow> ns)
      in if name \<in> set names then r2
         else r2\<lparr>client_services := hm_insert cid (names @ [name]) (client_services r2)\<rparr>)"

definition register_one :: "nat \<Rightarrow> string \<Rightarrow> chan \<Rightarrow> service \<Rightarrow> 's registry \<Rightarrow> service option \<times> 's registry" where
  "register_one now cid tx svc r =
     (if \<not> is_enabled svc then (None, r)
      else
        let name = svc_name svc; existing = entry_at r name
        in if (case existing of Some e \<Rightarrow> entry_client_id e \<noteq> cid | None \<Rightarrow> False) then (None, r)
           else (case assign_port name existing svc r of
                   (None, r1) \<Rightarrow> (None, r1)
                 | (Some svc', r1) \<Rightarrow>
                     let r2 = (case existing of None \<Rightarrow> r1 | Some e \<Rightarrow> retire_previous name e svc' r1)
                     in (Some svc', publish now cid tx svc' r2)))"

fun register_all :: "nat \<Rightarrow> string \<Rightarrow> chan \<Rightarrow> service list \<Rightarrow> 's registry \<Rightarrow> service list \<times> 's registry" where
  "register_all now cid tx [] r = ([], r)"
| "register_all now cid tx (svc # svcs) r =
     (case register_one now cid tx svc r of
        (a, r1) \<Rightarrow> (case register_all now cid tx svcs r1 of
            (as, r2) \<Rightarrow> (case a of None \<Rightarrow> as | Some s \<Rightarrow> s # as, r2)))"

text \<open>The beginning of \<^verbatim>\<open>register_services\<close>: the session's control channel becomes the client's, and
  the client has a list of services.\<close>

definition enter_session :: "string \<Rightarrow> chan \<Rightarrow> 's registry \<Rightarrow> 's registry" where
  "enter_session cid tx r =
     (let r1 = r\<lparr>client_control_tx := hm_insert cid tx (client_control_tx r)\<rparr>
      in if hm_contains (client_services r1) cid then r1
         else r1\<lparr>client_services := hm_insert cid [] (client_services r1)\<rparr>)"

definition register_services :: "nat \<Rightarrow> string \<Rightarrow> chan \<Rightarrow> service list \<Rightarrow> 's registry \<Rightarrow> service list \<times> 's registry" where
  "register_services now cid tx svcs r = register_all now cid tx svcs (enter_session cid tx r)"

section \<open>Sessions and removal\<close>

definition is_current_control :: "string \<Rightarrow> chan \<Rightarrow> 's registry \<Rightarrow> bool" where
  "is_current_control cid tx r \<longleftrightarrow> hm_get (client_control_tx r) cid = Some tx"

text \<open>One name of \<^verbatim>\<open>remove_client_services\<close>; the listener to stop, if any, comes with it.\<close>

definition remove_service :: "string \<Rightarrow> 's registry \<Rightarrow> (u16 \<times> string) list \<times> 's registry" where
  "remove_service name r =
     (case hm_get (services_by_name r) name of
        None \<Rightarrow> ([], r)
      | Some i \<Rightarrow>
          let e = store r ! i; p = remote_port (config e);
              r1 = r\<lparr>services_by_name := hm_remove name (services_by_name r)\<rparr>;
              frees = p \<noteq> 0 \<and> \<not> is_vhost (config e);
              r2 = (if frees then r1\<lparr>allocated_ports := hm_remove p (allocated_ports r1)\<rparr> else r1);
              ls = (if frees \<and> has_listener_type (config e) then [(p, svc_name (config e))] else [])
          in (ls, leave_group (group (config e)) name r2))"

fun remove_names :: "string list \<Rightarrow> 's registry \<Rightarrow> (u16 \<times> string) list \<times> 's registry" where
  "remove_names [] r = ([], r)"
| "remove_names (n # ns) r =
     (case remove_service n r of (ls, r1) \<Rightarrow> (case remove_names ns r1 of (ls', r2) \<Rightarrow> (ls @ ls', r2)))"

definition remove_client_services :: "string \<Rightarrow> 's registry \<Rightarrow> 's registry" where
  "remove_client_services cid r =
     (let names = (case hm_get (client_services r) cid of None \<Rightarrow> [] | Some ns \<Rightarrow> ns);
          r1 = r\<lparr>client_services := hm_remove cid (client_services r)\<rparr>
      in case remove_names names r1 of
           (ls, r2) \<Rightarrow> fold (\<lambda>(p, n). stop_listener p n) ls r2)"

text \<open>The first critical section of \<^verbatim>\<open>unregister_client_if_current\<close>: compare and forget the control
  channel.\<close>

definition release_control :: "string \<Rightarrow> chan \<Rightarrow> 's registry \<Rightarrow> bool \<times> 's registry" where
  "release_control cid tx r =
     (if hm_get (client_control_tx r) cid = Some tx
      then (True, r\<lparr>client_control_tx := hm_remove cid (client_control_tx r)\<rparr>)
      else (False, r))"

definition unregister_client_if_current :: "string \<Rightarrow> chan \<Rightarrow> 's registry \<Rightarrow> bool \<times> 's registry" where
  "unregister_client_if_current cid tx r =
     (case release_control cid tx r of
        (False, r1) \<Rightarrow> (False, r1)
      | (True, r1) \<Rightarrow> (True, remove_client_services cid r1))"

definition unregister_client :: "string \<Rightarrow> 's registry \<Rightarrow> 's registry" where
  "unregister_client cid r =
     remove_client_services cid (r\<lparr>client_control_tx := hm_remove cid (client_control_tx r)\<rparr>)"

section \<open>Lookups\<close>

definition get_service_by_name :: "string \<Rightarrow> 's registry \<Rightarrow> nat option" where
  "get_service_by_name name r = hm_get (services_by_name r) name"

definition host_matches :: "string \<Rightarrow> service_entry \<Rightarrow> bool" where
  "host_matches host_lower e \<longleftrightarrow> enabled e \<and>
     ((case host (config e) of Some h \<Rightarrow> eq_ignore_ascii_case h host_lower | None \<Rightarrow> False)
      \<or> (case subdomain (config e) of Some s \<Rightarrow> starts_with host_lower s | None \<Rightarrow> False))"

definition get_service_by_host :: "string \<Rightarrow> 's registry \<Rightarrow> nat option" where
  "get_service_by_host h r =
     find (\<lambda>i. host_matches (to_ascii_lowercase h) (store r ! i)) (map snd (services_by_name r))"

definition get_group_service :: "string \<Rightarrow> 's registry \<Rightarrow> nat option \<times> 's registry" where
  "get_group_service g r =
     (case hm_get (services_by_group r) g of
        None \<Rightarrow> (None, r)
      | Some [] \<Rightarrow> (None, r)
      | Some (i # es) \<Rightarrow>
          let idx = round_robin_idx (store r ! i)
          in (Some ((i # es) ! (unat idx mod length (i # es))),
              r\<lparr>store := (store r)[i := (store r ! i)\<lparr>round_robin_idx := idx + 1\<rparr>]\<rparr>))"

definition get_all_services :: "'s registry \<Rightarrow> nat list" where
  "get_all_services r = map snd (services_by_name r)"

definition get_clients :: "'s registry \<Rightarrow> (string, string list) hmap" where
  "get_clients r = client_services r"

definition get_service_name_by_port :: "u16 \<Rightarrow> 's registry \<Rightarrow> string option" where
  "get_service_name_by_port p r =
     map_option (\<lambda>i. svc_name (config (store r ! i)))
       (find (\<lambda>i. remote_port (config (store r ! i)) = p) (map snd (services_by_name r)))"

section \<open>Tunnels\<close>

definition send_message :: "chan \<Rightarrow> message \<Rightarrow> 's registry \<Rightarrow> bool \<times> 's registry" where
  "send_message tx m r =
     (if tx \<in> dead_channels r then (False, r)
      else (True, r\<lparr>sent_messages := sent_messages r @ [(tx, m)]\<rparr>))"

definition cancel_pending_tunnel :: "string \<Rightarrow> 's registry \<Rightarrow> 's registry" where
  "cancel_pending_tunnel i r = r\<lparr>pending_work := hm_remove i (pending_work r)\<rparr>"

definition show_opt_addr :: "socket_addr option \<Rightarrow> string" where
  "show_opt_addr a = (case a of None \<Rightarrow> [] | Some x \<Rightarrow> show_socket_addr x)"

text \<open>\<^verbatim>\<open>open_tunnel\<close> up to its wait, with the random id as an argument: the number of the one-shot
  channel to wait on, or the error.\<close>

definition open_tunnel_begin ::
  "string \<Rightarrow> service_entry \<Rightarrow> socket_addr option \<Rightarrow> socket_addr option \<Rightarrow> 's registry \<Rightarrow> (string + nat) \<times> 's registry" where
  "open_tunnel_begin i e src dst r =
     (let n = next_work r;
          r1 = r\<lparr>next_work := n + 1, pending_work := hm_insert i n (pending_work r)\<rparr>
      in case send_message (control_tx e) (new_open i (show_opt_addr src) (show_opt_addr dst) (config e)) r1 of
           (True, r2) \<Rightarrow> (Inr n, r2)
         | (False, r2) \<Rightarrow> (Inl ''failed to send open: channel closed'', cancel_pending_tunnel i r2))"

text \<open>The end of the wait: a result, a dropped sender, or the time-out.\<close>

definition open_tunnel_end :: "string \<Rightarrow> nat \<Rightarrow> 's registry \<Rightarrow> (string + 's) \<times> 's registry" where
  "open_tunnel_end i n r =
     (case map_of (work_results r) n of
        Some (Inr t) \<Rightarrow> (Inr t, r)
      | Some (Inl e) \<Rightarrow> (Inl (''tunnel rejected: '' @ e), r)
      | None \<Rightarrow> if n \<notin> set (map snd (pending_work r)) then (Inl ''tunnel channel closed'', r)
                else (Inl ''tunnel open timeout'', cancel_pending_tunnel i r))"

definition complete_tunnel :: "string \<Rightarrow> 's \<Rightarrow> 's registry \<Rightarrow> bool \<times> 's registry" where
  "complete_tunnel i t r =
     (case hm_get (pending_work r) i of
        None \<Rightarrow> (False, r)
      | Some n \<Rightarrow> (True, r\<lparr>pending_work := hm_remove i (pending_work r),
                          work_results := work_results r @ [(n, Inr t)]\<rparr>))"

definition reject_tunnel :: "string \<Rightarrow> string \<Rightarrow> 's registry \<Rightarrow> 's registry" where
  "reject_tunnel i err r =
     (case hm_get (pending_work r) i of
        None \<Rightarrow> r
      | Some n \<Rightarrow> r\<lparr>pending_work := hm_remove i (pending_work r),
                    work_results := work_results r @ [(n, Inl err)]\<rparr>)"

section \<open>Static responses over the control channel\<close>

text \<open>Dropping a pending response gives its permit back.\<close>

definition cancel_static_response :: "string \<Rightarrow> 's registry \<Rightarrow> 's registry" where
  "cancel_static_response i r =
     (if hm_contains (pending_static r) i
      then r\<lparr>pending_static := hm_remove i (pending_static r), static_slots := static_slots r + 1\<rparr>
      else r)"

definition cancel_static_response_for_control :: "string \<Rightarrow> chan \<Rightarrow> 's registry \<Rightarrow> 's registry" where
  "cancel_static_response_for_control i tx r =
     (case hm_get (pending_static r) i of
        Some p \<Rightarrow> if owner p = tx then cancel_static_response i r else r
      | None \<Rightarrow> r)"

definition cancel_static_responses_for_control :: "chan \<Rightarrow> 's registry \<Rightarrow> 's registry" where
  "cancel_static_responses_for_control tx r =
     (let kept = hm_retain (\<lambda>_ p. owner p \<noteq> tx) (pending_static r)
      in r\<lparr>pending_static := kept,
           static_slots := static_slots r + (hm_len (pending_static r) - hm_len kept)\<rparr>)"

definition request_static_response ::
  "string \<Rightarrow> service_entry \<Rightarrow> bytes \<Rightarrow> 's registry \<Rightarrow> (string + string \<times> nat) \<times> 's registry" where
  "request_static_response i e request r =
     (if length request > STATIC_RESPONSE_CHUNK_MAX
      then (Inl ''static request headers exceed relay limit'', r)
      else if static_slots r = 0 then (Inl ''static control relay is busy'', r)
      else
        let q = length (queues r);
            r1 = r\<lparr>static_slots := static_slots r - 1,
                   queues := queues r @ [\<lparr>chunks_of = [], receiver_alive = True\<rparr>]\<rparr>;
            r2 = (cancel_static_response i r1);
            r3 = r2\<lparr>pending_static := hm_insert i \<lparr>owner = control_tx e, queue_id = q\<rparr> (pending_static r2)\<rparr>
        in case send_message (control_tx e) (new_static_request i (svc_name (config e)) request) r3 of
             (True, r4) \<Rightarrow> (Inr (i, q), r4)
           | (False, r4) \<Rightarrow> (Inl ''failed to send static request: channel closed'', cancel_static_response i r4))"

definition try_send :: "nat \<Rightarrow> chunk \<Rightarrow> 's registry \<Rightarrow> bool \<times> 's registry" where
  "try_send q ch r =
     (let qu = queues r ! q
      in if \<not> receiver_alive qu \<or> length (chunks_of qu) \<ge> STATIC_RESPONSE_QUEUE_CAPACITY then (False, r)
         else (True, r\<lparr>queues := (queues r)[q := qu\<lparr>chunks_of := chunks_of qu @ [ch]\<rparr>]\<rparr>))"

definition deliver_static_response :: "chan \<Rightarrow> string \<Rightarrow> bytes \<Rightarrow> bool \<Rightarrow> 's registry \<Rightarrow> bool \<times> 's registry" where
  "deliver_static_response tx i data eof r =
     (if length data > STATIC_RESPONSE_CHUNK_MAX then (False, cancel_static_response_for_control i tx r)
      else (case hm_get (pending_static r) i of
              Some p \<Rightarrow>
                if owner p = tx
                then (case try_send (queue_id p) \<lparr>chunk_data = data, chunk_eof = eof\<rparr> r of
                        (True, r1) \<Rightarrow> (True, if eof then cancel_static_response_for_control i tx r1 else r1)
                      | (False, r1) \<Rightarrow> (False, cancel_static_response_for_control i tx r1))
                else (False, r)
            | None \<Rightarrow> (False, r)))"

text \<open>The public side of a response queue: taking the next chunk, and going away.\<close>

definition queue_recv :: "nat \<Rightarrow> 's registry \<Rightarrow> chunk option \<times> 's registry" where
  "queue_recv q r =
     (case chunks_of (queues r ! q) of
        [] \<Rightarrow> (None, r)
      | ch # cs \<Rightarrow> (Some ch, r\<lparr>queues := (queues r)[q := (queues r ! q)\<lparr>chunks_of := cs\<rparr>]\<rparr>))"

definition queue_drop :: "nat \<Rightarrow> 's registry \<Rightarrow> 's registry" where
  "queue_drop q r = r\<lparr>queues := (queues r)[q := (queues r ! q)\<lparr>receiver_alive := False\<rparr>]\<rparr>"

section \<open>Health, traffic, switches\<close>

definition update_entry :: "string \<Rightarrow> (service_entry \<Rightarrow> service_entry) \<Rightarrow> 's registry \<Rightarrow> 's registry" where
  "update_entry name f r =
     (case hm_get (services_by_name r) name of
        None \<Rightarrow> r
      | Some i \<Rightarrow> r\<lparr>store := (store r)[i := f (store r ! i)]\<rparr>)"

definition report_health :: "nat \<Rightarrow> string \<Rightarrow> bool \<Rightarrow> 's registry \<Rightarrow> 's registry" where
  "report_health now name h r = update_entry name (\<lambda>e. e\<lparr>healthy := h, last_health_check := now\<rparr>) r"

definition record_traffic :: "string \<Rightarrow> u64 \<Rightarrow> u64 \<Rightarrow> 's registry \<Rightarrow> 's registry" where
  "record_traffic name tx rx r =
     update_entry name (\<lambda>e. e\<lparr>traffic_tx := traffic_tx e + tx, traffic_rx := traffic_rx e + rx\<rparr>) r"

definition toggle_service :: "string \<Rightarrow> bool \<Rightarrow> 's registry \<Rightarrow> bool \<times> 's registry" where
  "toggle_service name b r =
     (if hm_contains (services_by_name r) name
      then (True, update_entry name (\<lambda>e. e\<lparr>enabled := b\<rparr>) r) else (False, r))"

end
