(* ===== verification/Udp_Manager.thy ===== *)
theory Udp_Manager
  imports Service_Registry
begin

text \<open>
  The server's UDP services (\<^verbatim>\<open>cross233-server/src/udp.rs\<close>). A running service is its socket's port and
  a number for its identity; datagrams sent by the server are a log. Whether a port can be bound is an
  argument. The two critical sections of \<^verbatim>\<open>start_service\<close> are one step.
\<close>

section \<open>Parsing of socket addresses\<close>

text \<open>\<^verbatim>\<open>SocketAddr::from_str\<close>: an IPv4 address and a port, or a bracketed IPv6 address, with an optional
  scope, and a port.\<close>

definition read_port :: "string \<Rightarrow> (u16 \<times> string) option" where
  "read_port s = (case read_given_char (CHR '':'') s of None \<Rightarrow> None
     | Some t \<Rightarrow> (case read_number 10 (length t) True 65536 t of None \<Rightarrow> None | Some (n, u) \<Rightarrow> Some (of_nat n, u)))"

definition skip_scope :: "string \<Rightarrow> string" where
  "skip_scope s = (case read_given_char (CHR ''%'') s of None \<Rightarrow> s
     | Some t \<Rightarrow> (case read_number 10 (length t) True 4294967296 t of None \<Rightarrow> s | Some (_, u) \<Rightarrow> u))"

definition parse_v4_socket :: "string \<Rightarrow> socket_addr option" where
  "parse_v4_socket s = (case read_ipv4 s of None \<Rightarrow> None
     | Some ((a, b, c, d), t) \<Rightarrow> (case read_port t of
         Some (p, []) \<Rightarrow> Some \<lparr>ip = V4 a b c d, port = p\<rparr> | _ \<Rightarrow> None))"

definition parse_v6_socket :: "string \<Rightarrow> socket_addr option" where
  "parse_v6_socket s = (case read_given_char (CHR ''['') s of None \<Rightarrow> None
     | Some t \<Rightarrow> (case read_ipv6 t of None \<Rightarrow> None
         | Some (a, u) \<Rightarrow> (case read_given_char (CHR '']'') (skip_scope u) of None \<Rightarrow> None
             | Some v \<Rightarrow> (case read_port v of Some (p, []) \<Rightarrow> Some \<lparr>ip = a, port = p\<rparr> | _ \<Rightarrow> None))))"

definition parse_socket_addr :: "string \<Rightarrow> socket_addr option" where
  "parse_socket_addr s = (case parse_v4_socket s of Some a \<Rightarrow> Some a | None \<Rightarrow> parse_v6_socket s)"

section \<open>The manager\<close>

record udp_service =
  udp_port :: u16
  udp_ident :: nat

record udp_manager =
  udp_services :: "(string, udp_service) hmap"
  udp_clients :: "(nat \<times> socket_addr) list"
  udp_stopped :: "nat list"
  udp_sent :: "(u16 \<times> socket_addr \<times> bytes) list"
  next_ident :: nat

definition new_udp_manager :: udp_manager where
  "new_udp_manager = \<lparr>udp_services = [], udp_clients = [], udp_stopped = [], udp_sent = [], next_ident = 0\<rparr>"

definition start_service :: "(u16 \<Rightarrow> bool) \<Rightarrow> string \<Rightarrow> u16 \<Rightarrow> udp_manager \<Rightarrow> bool \<times> udp_manager" where
  "start_service bind_ok name p u =
     (if hm_contains (udp_services u) name then (True, u)
      else if \<not> bind_ok p then (False, u)
      else (True, u\<lparr>udp_services := hm_insert name \<lparr>udp_port = p, udp_ident = next_ident u\<rparr> (udp_services u),
                    next_ident := next_ident u + 1\<rparr>))"

definition stop_service :: "string \<Rightarrow> udp_manager \<Rightarrow> udp_manager" where
  "stop_service name u =
     (case hm_get (udp_services u) name of
        None \<Rightarrow> u
      | Some s \<Rightarrow> u\<lparr>udp_services := hm_remove name (udp_services u), udp_stopped := udp_stopped u @ [udp_ident s]\<rparr>)"

text \<open>One turn of \<^verbatim>\<open>run_udp_service\<close>: a datagram arrives.\<close>

definition udp_datagram ::
  "string \<Rightarrow> udp_service \<Rightarrow> socket_addr \<Rightarrow> bytes \<Rightarrow> udp_manager \<Rightarrow> 's registry \<Rightarrow> udp_manager \<times> 's registry" where
  "udp_datagram name svc from data u r =
     (case entry_at r name of
        None \<Rightarrow> (u, r)
      | Some e \<Rightarrow>
          if enabled e \<and> healthy e
          then (u\<lparr>udp_clients := (udp_ident svc, from) # udp_clients u\<rparr>,
                snd (send_message (control_tx e)
                       (new_udp (remote_port (config e)) (show_socket_addr from) data (config e)) r))
          else (u, r))"

text \<open>Its end: the entry goes, unless a successor has taken the name.\<close>

definition udp_ended :: "string \<Rightarrow> udp_service \<Rightarrow> udp_manager \<Rightarrow> udp_manager" where
  "udp_ended name svc u =
     (case hm_get (udp_services u) name of
        Some s \<Rightarrow> if udp_ident s = udp_ident svc then u\<lparr>udp_services := hm_remove name (udp_services u)\<rparr> else u
      | None \<Rightarrow> u)"

definition forward_response :: "string \<Rightarrow> string \<Rightarrow> bytes \<Rightarrow> udp_manager \<Rightarrow> udp_manager" where
  "forward_response name addr data u =
     (case parse_socket_addr addr of
        None \<Rightarrow> u
      | Some a \<Rightarrow> (case hm_get (udp_services u) name of
                    None \<Rightarrow> u
                  | Some s \<Rightarrow> u\<lparr>udp_sent := udp_sent u @ [(udp_port s, a, data)]\<rparr>))"

end
