(* ===== verification/Auth.thy ===== *)
theory Auth
  imports Rust_Strings
begin

text \<open>
  Challenge and response (\<^verbatim>\<open>cross233-server/src/auth.rs\<close>, and the proofs of
  \<^verbatim>\<open>cross233-protocol/src/crypto.rs\<close>). Time is in nanoseconds on the server's monotonic clock.
  Random bytes are arguments. HMAC-SHA256 with its base64 encoding is the parameter \<open>mac\<close>, a function
  of the key and the message; what is assumed of it is stated where it is used.
\<close>


section \<open>Proofs\<close>

abbreviation NUL :: char where "NUL \<equiv> CHR 0x00"

definition hex_lower :: "nat \<Rightarrow> char" where
  "hex_lower d = char_of (if d < 10 then 48 + d else 87 + d)"

definition hex_encode :: "nat list \<Rightarrow> string" where
  "hex_encode bs = concat (map (\<lambda>b. [hex_lower (b div 16), hex_lower (b mod 16)]) bs)"

text \<open>The 16 random bytes are the argument.\<close>

definition generate_nonce :: "nat list \<Rightarrow> string" where
  "generate_nonce bs = hex_encode bs"

definition proof_message :: "string \<Rightarrow> string \<Rightarrow> string \<Rightarrow> string \<Rightarrow> string" where
  "proof_message ty client_id ident nonce =
     ''cross233/v1'' @ [NUL] @ ty @ [NUL] @ client_id @ [NUL] @ ident @ [NUL] @ nonce"

definition compute_proof ::
  "(string \<Rightarrow> string \<Rightarrow> string) \<Rightarrow> string \<Rightarrow> string \<Rightarrow> string \<Rightarrow> string \<Rightarrow> string \<Rightarrow> string" where
  "compute_proof mac key ty client_id ident nonce = mac key (proof_message ty client_id ident nonce)"

definition verify_proof ::
  "(string \<Rightarrow> string \<Rightarrow> string) \<Rightarrow> string \<Rightarrow> string \<Rightarrow> string \<Rightarrow> string \<Rightarrow> string \<Rightarrow> string \<Rightarrow> bool" where
  "verify_proof mac key ty client_id ident nonce p \<longleftrightarrow> compute_proof mac key ty client_id ident nonce = p"

section \<open>The state\<close>

record pending_auth =
  pa_nonce :: string
  created_at :: nat

record auth_state =
  hmac_key :: string
  pending :: "(string, pending_auth) hmap"

definition new_auth_state :: "string \<Rightarrow> auth_state" where
  "new_auth_state key = \<lparr>hmac_key = key, pending = []\<rparr>"

definition insert_challenge :: "string \<Rightarrow> nat \<Rightarrow> string \<Rightarrow> auth_state \<Rightarrow> auth_state" where
  "insert_challenge nonce now conn_id st =
     st\<lparr>pending := hm_insert conn_id \<lparr>pa_nonce = nonce, created_at = now\<rparr> (pending st)\<rparr>"

definition cleanup_expired :: "nat \<Rightarrow> auth_state \<Rightarrow> auth_state" where
  "cleanup_expired now st = st\<lparr>pending := hm_retain (\<lambda>_ v. now - created_at v < secs 60) (pending st)\<rparr>"

text \<open>The clean-up takes the lock a second time, at a time of its own.\<close>

definition create_challenge :: "string \<Rightarrow> nat \<Rightarrow> nat \<Rightarrow> string \<Rightarrow> auth_state \<Rightarrow> string \<times> auth_state" where
  "create_challenge nonce now later conn_id st =
     (nonce, cleanup_expired later (insert_challenge nonce now conn_id st))"

definition verify ::
  "(string \<Rightarrow> string \<Rightarrow> string) \<Rightarrow> string \<Rightarrow> string \<Rightarrow> string \<Rightarrow> string \<Rightarrow> string \<Rightarrow> auth_state \<Rightarrow> bool \<times> auth_state" where
  "verify mac conn_id ty client_id ident p st =
     (case hm_get (pending st) conn_id of
        None \<Rightarrow> (False, st)
      | Some pa \<Rightarrow> (verify_proof mac (hmac_key st) ty client_id ident (pa_nonce pa) p,
                   st\<lparr>pending := hm_remove conn_id (pending st)\<rparr>))"

section \<open>The message determines what is proved\<close>

text \<open>The three kinds of connection, and the fields the server checks for each
  (\<^verbatim>\<open>cross233-server/src/control.rs\<close>).\<close>

datatype role = ClientRole string | TunnelRole string | VisitorRole string string

fun conn_key :: "role \<Rightarrow> string" where
  "conn_key (ClientRole cid) = cid"
| "conn_key (TunnelRole tid) = ''tunnel:'' @ tid"
| "conn_key (VisitorRole cid vid) = ''visitor:'' @ vid"

fun role_message :: "role \<Rightarrow> string \<Rightarrow> string" where
  "role_message (ClientRole cid) nonce = proof_message ''client'' cid cid nonce"
| "role_message (TunnelRole tid) nonce = proof_message ''tunnel'' [] tid nonce"
| "role_message (VisitorRole cid vid) nonce = proof_message ''visitor'' cid vid nonce"

lemma length_hex_encode: "length (hex_encode bs) = 2 * length bs"
  by (induction bs) (simp_all add: hex_encode_def)

text \<open>What precedes the nonce.\<close>

definition role_head :: "role \<Rightarrow> string" where
  "role_head r = role_message r []"

lemma role_message_head: "role_message r nonce = role_head r @ nonce"
  by (cases r) (simp_all add: role_head_def proof_message_def)

definition same_identity :: "role \<Rightarrow> role \<Rightarrow> bool" where
  "same_identity r r' \<longleftrightarrow> r = r' \<or> (\<exists>c v c' v'. r = VisitorRole c v \<and> r' = VisitorRole c' v'
     \<and> c @ [NUL] @ v = c' @ [NUL] @ v')"

lemma doubled_eq: "c @ x # c = d @ x # d \<Longrightarrow> c = d"
proof -
  assume e: "c @ x # c = d @ x # d"
  then have "length (c @ x # c) = length (d @ x # d)" by (rule arg_cong)
  then have "length c = length d" by simp
  with e show ?thesis by (simp add: append_eq_append_conv)
qed

lemma role_head_eq: "role_head r = role_head r' \<longleftrightarrow> same_identity r r'"
proof (cases r; cases r')
  fix c c' assume r: "r = ClientRole c" "r' = ClientRole c'"
  have "c @ NUL # c @ [NUL] = c' @ NUL # c' @ [NUL] \<longleftrightarrow> c @ NUL # c = c' @ NUL # c'"
    by (metis append_Cons append_assoc append_same_eq)
  then show ?thesis
    by (auto simp: r role_head_def proof_message_def same_identity_def dest: doubled_eq)
next
  fix c v c' v' assume r: "r = VisitorRole c v" "r' = VisitorRole c' v'"
  have "c @ NUL # v @ [NUL] = c' @ NUL # v' @ [NUL] \<longleftrightarrow> c @ NUL # v = c' @ NUL # v'"
    by (metis append_Cons append_assoc append_same_eq)
  then show ?thesis by (auto simp: r role_head_def proof_message_def same_identity_def)
qed (auto simp: role_head_def proof_message_def same_identity_def)

lemma role_message_eq:
  "length n = length n' \<Longrightarrow> role_message r n = role_message r' n' \<longleftrightarrow> n = n' \<and> same_identity r r'"
  by (auto simp: role_message_head append_eq_append_conv role_head_eq)

section \<open>Verification of a role\<close>

fun role_fields :: "role \<Rightarrow> string \<times> string \<times> string" where
  "role_fields (ClientRole cid) = (''client'', cid, cid)"
| "role_fields (TunnelRole tid) = (''tunnel'', [], tid)"
| "role_fields (VisitorRole cid vid) = (''visitor'', cid, vid)"

definition verify_role :: "(string \<Rightarrow> string \<Rightarrow> string) \<Rightarrow> role \<Rightarrow> string \<Rightarrow> auth_state \<Rightarrow> bool \<times> auth_state" where
  "verify_role mac r p st = (case role_fields r of (ty, c, i) \<Rightarrow> verify mac (conn_key r) ty c i p st)"

lemma verify_role_eq:
  "verify_role mac r p st =
     (case hm_get (pending st) (conn_key r) of
        None \<Rightarrow> (False, st)
      | Some pa \<Rightarrow> (mac (hmac_key st) (role_message r (pa_nonce pa)) = p,
                   st\<lparr>pending := hm_remove (conn_key r) (pending st)\<rparr>))"
  by (cases r) (auto simp: verify_role_def verify_def verify_proof_def compute_proof_def split: option.split)

text \<open>The clean-up removes nothing younger than a minute and leaves nothing older.\<close>

lemma cleanup_get:
  "hm_wf (pending st) \<Longrightarrow> hm_get (pending (cleanup_expired now st)) k =
     (case hm_get (pending st) k of None \<Rightarrow> None
      | Some v \<Rightarrow> if now - created_at v < secs 60 then Some v else None)"
  by (simp add: cleanup_expired_def hm_get_retain)

lemma hmac_key_ops [simp]:
  "hmac_key (insert_challenge n t k st) = hmac_key st"
  "hmac_key (cleanup_expired t st) = hmac_key st"
  "hmac_key (snd (verify_role mac r p st)) = hmac_key st"
  by (simp_all add: insert_challenge_def cleanup_expired_def verify_role_eq split: option.split)

lemma pending_wf_ops:
  "hm_wf (pending st) \<Longrightarrow> hm_wf (pending (insert_challenge n t k st))"
  "hm_wf (pending st) \<Longrightarrow> hm_wf (pending (cleanup_expired t st))"
  "hm_wf (pending st) \<Longrightarrow> hm_wf (pending (snd (verify_role mac r p st)))"
  by (simp_all add: insert_challenge_def cleanup_expired_def verify_role_eq split: option.split)

lemma create_challenge_get:
  assumes "hm_wf (pending st)" "later - now < secs 60"
  shows "hm_get (pending (snd (create_challenge nonce now later k st))) k = Some \<lparr>pa_nonce = nonce, created_at = now\<rparr>"
  using assms by (simp add: create_challenge_def cleanup_get pending_wf_ops) (simp add: insert_challenge_def)

section \<open>Runs of the handshake\<close>

text \<open>
  The server, the messages that holders of the key have signed, the nonces handed out and the
  connections accepted. An answer is any string that is not the code of a message nobody signed:
  this is what it means that the code cannot be forged. Nonces are fresh.
\<close>

record world =
  server :: auth_state
  signatures :: "string set"
  issued :: "string list"
  accepted :: "(role \<times> string) list"

inductive auth_step :: "(string \<Rightarrow> string \<Rightarrow> string) \<Rightarrow> world \<Rightarrow> world \<Rightarrow> bool" for mac where
  issue: "nonce \<notin> set (issued w) \<Longrightarrow> length bs = 16 \<Longrightarrow> nonce = generate_nonce bs \<Longrightarrow>
    auth_step mac w (w\<lparr>server := insert_challenge nonce now k (server w), issued := nonce # issued w\<rparr>)"
| expire: "auth_step mac w (w\<lparr>server := cleanup_expired now (server w)\<rparr>)"
| sign: "auth_step mac w (w\<lparr>signatures := insert m (signatures w)\<rparr>)"
| accept: "verify_role mac r p (server w) = (True, st) \<Longrightarrow>
    (\<And>m. mac (hmac_key (server w)) m = p \<Longrightarrow> m \<in> signatures w) \<Longrightarrow>
    hm_get (pending (server w)) (conn_key r) = Some pa \<Longrightarrow>
    auth_step mac w (w\<lparr>server := st, accepted := (r, pa_nonce pa) # accepted w\<rparr>)"
| refuse: "verify_role mac r p (server w) = (False, st) \<Longrightarrow> auth_step mac w (w\<lparr>server := st\<rparr>)"

inductive auth_reachable :: "(string \<Rightarrow> string \<Rightarrow> string) \<Rightarrow> string \<Rightarrow> world \<Rightarrow> bool" for mac key where
  start: "auth_reachable mac key \<lparr>server = new_auth_state key, signatures = {}, issued = [], accepted = []\<rparr>"
| step: "auth_reachable mac key w \<Longrightarrow> auth_step mac w w' \<Longrightarrow> auth_reachable mac key w'"

text \<open>The invariant: a pending nonce is issued, pending for one connection only and not yet accepted.\<close>

definition nonces_fresh :: "world \<Rightarrow> bool" where
  "nonces_fresh w \<longleftrightarrow> hm_wf (pending (server w))
     \<and> (\<forall>k v. hm_get (pending (server w)) k = Some v \<longrightarrow>
          pa_nonce v \<in> set (issued w) \<and> pa_nonce v \<notin> snd ` set (accepted w))
     \<and> (\<forall>k v k' v'. hm_get (pending (server w)) k = Some v \<longrightarrow> hm_get (pending (server w)) k' = Some v'
          \<longrightarrow> pa_nonce v = pa_nonce v' \<longrightarrow> k = k')"

definition acceptances_sound :: "world \<Rightarrow> bool" where
  "acceptances_sound w \<longleftrightarrow> distinct (map snd (accepted w)) \<and> (\<forall>n \<in> set (issued w). length n = 32)
     \<and> (\<forall>(r, n) \<in> set (accepted w). n \<in> set (issued w) \<and> role_message r n \<in> signatures w)"

text \<open>A server whose pending table only shrinks keeps the freshness of its nonces.\<close>

lemma nonces_fresh_shrink:
  assumes "nonces_fresh w" "hm_wf (pending st)"
    and "\<And>k v. hm_get (pending st) k = Some v \<Longrightarrow> hm_get (pending (server w)) k = Some v"
  shows "nonces_fresh (w\<lparr>server := st\<rparr>)"
proof -
  have "hm_get (pending (server w)) k = Some v \<Longrightarrow> pa_nonce v \<in> set (issued w) \<and> pa_nonce v \<notin> snd ` set (accepted w)"
    and "hm_get (pending (server w)) k = Some v \<Longrightarrow> hm_get (pending (server w)) k' = Some v'
      \<Longrightarrow> pa_nonce v = pa_nonce v' \<Longrightarrow> k = k'" for k v k' v'
    using assms(1) unfolding nonces_fresh_def by blast+
  with assms(2,3) show ?thesis unfolding nonces_fresh_def by simp metis
qed

lemma nonces_fresh_step:
  assumes "auth_step mac w w'" "nonces_fresh w" "acceptances_sound w"
  shows "nonces_fresh w'"
  using assms(1)
proof cases
  case (issue nonce bs now k)
  have "nonce \<notin> snd ` set (accepted w)"
    using issue(2) assms(3) by (auto simp: acceptances_sound_def)
  moreover have "pa_nonce v \<noteq> nonce" if "hm_get (pending (server w)) k' = Some v" for k' v
    using that issue(2) assms(2) by (auto simp: nonces_fresh_def)
  ultimately show ?thesis using assms(2) unfolding issue(1)
    by (auto simp: nonces_fresh_def insert_challenge_def split: if_splits)
next
  case (expire now)
  have "hm_wf (pending (server w))" using assms(2) by (simp add: nonces_fresh_def)
  then show ?thesis unfolding expire
    by (intro nonces_fresh_shrink assms(2)) (auto simp: pending_wf_ops cleanup_get split: option.splits if_splits)
next
  case (sign m)
  with assms(2) show ?thesis by (simp add: nonces_fresh_def)
next
  case (accept r p st pa)
  have st: "st = (server w)\<lparr>pending := hm_remove (conn_key r) (pending (server w))\<rparr>"
    using accept(2,4) by (simp add: verify_role_eq)
  have "nonces_fresh (w\<lparr>server := st\<rparr>)"
    using assms(2) by (intro nonces_fresh_shrink) (auto simp: st nonces_fresh_def split: if_splits)
  moreover have "pa_nonce v \<noteq> pa_nonce pa" if "hm_get (pending st) k = Some v" for k v
    using that assms(2) accept(4) unfolding nonces_fresh_def st by (auto split: if_splits)
  ultimately show ?thesis unfolding accept(1) by (auto simp: nonces_fresh_def)
next
  case (refuse r p st)
  then have "st = server w \<or> st = (server w)\<lparr>pending := hm_remove (conn_key r) (pending (server w))\<rparr>"
    by (simp add: verify_role_eq split: option.splits)
  with assms(2) show ?thesis unfolding refuse(1)
    by (intro nonces_fresh_shrink) (auto simp: nonces_fresh_def split: if_splits)
qed

lemma acceptances_sound_step:
  assumes "auth_step mac w w'" "nonces_fresh w" "acceptances_sound w"
  shows "acceptances_sound w'"
  using assms(1)
proof cases
  case (accept r p st pa)
  have "mac (hmac_key (server w)) (role_message r (pa_nonce pa)) = p"
    using accept(2,4) by (simp add: verify_role_eq)
  then have "role_message r (pa_nonce pa) \<in> signatures w" by (rule accept(3))
  moreover have "pa_nonce pa \<in> set (issued w)" "pa_nonce pa \<notin> snd ` set (accepted w)"
    using assms(2) accept(4) by (simp_all add: nonces_fresh_def)
  ultimately show ?thesis using assms(3) by (simp add: accept(1) acceptances_sound_def)
qed (use assms(3) in \<open>auto simp: acceptances_sound_def generate_nonce_def length_hex_encode\<close>)

lemma reachable_sound: "auth_reachable mac key w \<Longrightarrow> nonces_fresh w \<and> acceptances_sound w"
proof (induction rule: auth_reachable.induct)
  case start
  show ?case by (simp add: nonces_fresh_def acceptances_sound_def new_auth_state_def)
next
  case (step w w')
  then show ?case by (simp add: nonces_fresh_step acceptances_sound_step)
qed


text \<open>A run that accepts a client.\<close>

definition demo_nonce :: string where "demo_nonce = generate_nonce (replicate 16 0)"

definition demo_mac :: "string \<Rightarrow> string \<Rightarrow> string" where "demo_mac key m = key @ m"

definition demo_issued :: world where
  "demo_issued = \<lparr>server = insert_challenge demo_nonce 0 ''c1'' (new_auth_state ''k''),
     signatures = {role_message (ClientRole ''c1'') demo_nonce}, issued = [demo_nonce], accepted = []\<rparr>"

lemma demo_issued_reachable: "auth_reachable demo_mac ''k'' demo_issued"
proof -
  let ?w0 = "\<lparr>server = new_auth_state ''k'', signatures = {}, issued = [], accepted = []\<rparr>"
  let ?w1 = "?w0\<lparr>server := insert_challenge demo_nonce 0 ''c1'' (server ?w0), issued := demo_nonce # issued ?w0\<rparr>"
  have "auth_reachable demo_mac ''k'' ?w1"
    by (rule auth_reachable.step[OF auth_reachable.start auth_step.issue[where bs = "replicate 16 0"]])
      (simp_all add: demo_nonce_def)
  from auth_reachable.step[OF this auth_step.sign[where m = "role_message (ClientRole ''c1'') demo_nonce"]]
  show ?thesis by (simp add: demo_issued_def)
qed

lemma demo_accepts:
  "verify_role demo_mac (ClientRole ''c1'') (demo_mac ''k'' (role_message (ClientRole ''c1'') demo_nonce)) (server demo_issued)
     = (True, new_auth_state ''k'')"
  by (simp add: verify_role_eq demo_issued_def insert_challenge_def new_auth_state_def hm_defs)


text \<open>An honest handshake succeeds, once. When the holder of the key answers the challenge
  it was given, for whatever kind of connection, the server accepts; any further answer on that
  connection is refused. This takes that the clean-up runs less than a minute after the challenge and
  that nobody opens a connection under the same name in between.\<close>

theorem handshake_completes:
  assumes "hm_wf (pending st)" "later - now < secs 60"
    and "st1 = snd (create_challenge nonce now later (conn_key r) st)"
    and "verify_role mac r (mac (hmac_key st) (role_message r nonce)) st1 = (ok, st2)"
  shows "ok \<and> fst (verify_role mac r p st2) = False"
proof -
  have "hm_get (pending st1) (conn_key r) = Some \<lparr>pa_nonce = nonce, created_at = now\<rparr>"
    unfolding assms(3) by (rule create_challenge_get[OF assms(1,2)])
  moreover have "hmac_key st1 = hmac_key st" by (simp add: assms(3) create_challenge_def)
  ultimately show ?thesis using assms(4) by (auto simp: verify_role_eq)
qed

theorem handshake_completes_witness:
  "fst (verify_role demo_mac (TunnelRole ''t'')
       (demo_mac (hmac_key (new_auth_state ''k'')) (role_message (TunnelRole ''t'') demo_nonce))
       (snd (create_challenge demo_nonce 5 6 (conn_key (TunnelRole ''t'')) (new_auth_state ''k''))))
   \<and> fst (verify_role demo_mac (TunnelRole ''t'') ''anything''
       (snd (verify_role demo_mac (TunnelRole ''t'')
          (demo_mac (hmac_key (new_auth_state ''k'')) (role_message (TunnelRole ''t'') demo_nonce))
          (snd (create_challenge demo_nonce 5 6 (conn_key (TunnelRole ''t'')) (new_auth_state ''k'')))))) = False"
  by (rule handshake_completes[OF _ _ refl prod.collapse[symmetric]]) (simp_all add: new_auth_state_def secs_def)

text \<open>An outsider can spoil a handshake. The table of challenges is keyed by the name that
  the connecting side chose, and a second connection under that name replaces the challenge. The first
  connection's correct answer is then refused, and the second challenge is used up by it. No key
  is needed to do so, only the name; and names of clients share the table with tunnels and visitors,
  so a client named \<^verbatim>\<open>tunnel:\<close> followed by the id of a tunnel spoils that tunnel.\<close>

theorem challenge_overwritten:
  assumes "hm_wf (pending st)" "t2 - t1 < secs 60" "t4 - t3 < secs 60" "conn_key r' = conn_key r"
    and "mac (hmac_key st) (role_message r n2) \<noteq> mac (hmac_key st) (role_message r n1)"
    and "st1 = snd (create_challenge n1 t1 t2 (conn_key r) st)"
    and "st2 = snd (create_challenge n2 t3 t4 (conn_key r') st1)"
    and "verify_role mac r (mac (hmac_key st) (role_message r n1)) st2 = (ok, st3)"
  shows "\<not> ok \<and> hm_get (pending st3) (conn_key r') = None"
proof -
  have "hm_wf (pending st1)" by (simp add: assms(1,6) create_challenge_def pending_wf_ops)
  then have "hm_get (pending st2) (conn_key r) = Some \<lparr>pa_nonce = n2, created_at = t3\<rparr>"
    unfolding assms(7) assms(4) by (rule create_challenge_get[OF _ assms(3)])
  moreover have "hmac_key st2 = hmac_key st" by (simp add: assms(6,7) create_challenge_def)
  ultimately show ?thesis using assms(5,8) by (auto simp: verify_role_eq assms(4))
qed

theorem challenge_overwritten_witness:
  "\<not> fst (verify_role demo_mac (TunnelRole ''7'')
       (demo_mac (hmac_key (new_auth_state ''k'')) (role_message (TunnelRole ''7'') ''n1''))
       (snd (create_challenge ''n2'' 3 4 (conn_key (ClientRole ''tunnel:7''))
          (snd (create_challenge ''n1'' 1 2 (conn_key (TunnelRole ''7'')) (new_auth_state ''k''))))))"
  by (rule challenge_overwritten[OF _ _ _ _ _ refl refl prod.collapse[symmetric], THEN conjunct1])
    (simp_all add: new_auth_state_def secs_def demo_mac_def proof_message_def)

end
