(* ===== verification/Ndjson.thy ===== *)
theory Ndjson
  imports Message
begin

text \<open>
  Messages on the wire: one JSON document per line. This theory has the writers and the readers of both
  ends: \<^verbatim>\<open>read_initial_message\<close> and \<^verbatim>\<open>send_line\<close> of \<^verbatim>\<open>cross233-server/src/control.rs\<close>, \<^verbatim>\<open>read_ndjson\<close> and
  \<^verbatim>\<open>write_ndjson\<close> of \<^verbatim>\<open>cross233-client/src/tunnel.rs\<close> and of \<^verbatim>\<open>cross233-client/src/client.rs\<close>. The JSON
  library is the pair of parameters \<open>to_json\<close> and \<open>from_json\<close>; what is documented of it and used is the
  locale \<open>json_codec\<close>. A stream is the string of the bytes still to be read.
\<close>

abbreviation LF :: char where "LF \<equiv> CHR 0x0A"

section \<open>Lossy decoding\<close>

text \<open>\<^verbatim>\<open>String::from_utf8_lossy\<close>: every maximal part of an ill-formed sequence becomes U+FFFD. The
  second component of \<open>utf8_head\<close> is the number of bytes, the first says whether they are a character.\<close>

definition second_ok :: "char \<Rightarrow> char \<Rightarrow> bool" where
  "second_ok a b \<longleftrightarrow>
     (if byte a = 0xE0 then between 0xA0 b 0xBF else if byte a = 0xED then between 0x80 b 0x9F
      else if byte a = 0xF0 then between 0x90 b 0xBF else if byte a = 0xF4 then between 0x80 b 0x8F
      else cont b)"

fun utf8_head :: "string \<Rightarrow> bool \<times> nat" where
  "utf8_head [] = (False, 1)"
| "utf8_head (a # s) =
     (if byte a < 0x80 then (True, 1)
      else if between 0xC2 a 0xDF then
        (case s of b # _ \<Rightarrow> if cont b then (True, 2) else (False, 1) | [] \<Rightarrow> (False, 1))
      else if between 0xE0 a 0xEF then
        (case s of
           b # t \<Rightarrow> if second_ok a b
             then (case t of c # _ \<Rightarrow> if cont c then (True, 3) else (False, 2) | [] \<Rightarrow> (False, 2))
             else (False, 1)
         | [] \<Rightarrow> (False, 1))
      else if between 0xF0 a 0xF4 then
        (case s of
           b # t \<Rightarrow> if second_ok a b
             then (case t of
                     c # u \<Rightarrow> if cont c
                       then (case u of d # _ \<Rightarrow> if cont d then (True, 4) else (False, 3) | [] \<Rightarrow> (False, 3))
                       else (False, 2)
                   | [] \<Rightarrow> (False, 2))
             else (False, 1)
         | [] \<Rightarrow> (False, 1))
      else (False, 1))"

lemma utf8_head_pos: "0 < snd (utf8_head s)"
  by (cases s) (auto split: list.split)

function from_utf8_lossy :: "string \<Rightarrow> string" where
  "from_utf8_lossy s =
     (if s = [] then []
      else (if fst (utf8_head s) then take (snd (utf8_head s)) s else [CHR 0xEF, CHR 0xBF, CHR 0xBD])
        @ from_utf8_lossy (drop (snd (utf8_head s)) s))"
  by pat_completeness auto
termination
proof (relation "measure length")
  fix s :: string
  assume "s \<noteq> []"
  with utf8_head_pos[of s] show "(drop (snd (utf8_head s)) s, s) \<in> measure length" by simp
qed simp

declare from_utf8_lossy.simps [simp del]

lemma lossy_Nil [simp]: "from_utf8_lossy [] = []"
  by (simp add: from_utf8_lossy.simps)

lemma three_byte_char:
  "(byte a = 0xE0 \<and> between 0xA0 b 0xBF \<and> cont c)
     \<or> ((between 0xE1 a 0xEC \<or> between 0xEE a 0xEF) \<and> cont b \<and> cont c)
     \<or> (byte a = 0xED \<and> between 0x80 b 0x9F \<and> cont c) \<Longrightarrow> between 0xE0 a 0xEF \<and> second_ok a b \<and> cont c"
  by (auto simp: second_ok_def between_def)

lemma four_byte_char:
  "(byte a = 0xF0 \<and> between 0x90 b 0xBF \<and> cont c \<and> cont d)
     \<or> (between 0xF1 a 0xF3 \<and> cont b \<and> cont c \<and> cont d)
     \<or> (byte a = 0xF4 \<and> between 0x80 b 0x8F \<and> cont c \<and> cont d)
   \<Longrightarrow> between 0xF0 a 0xF4 \<and> second_ok a b \<and> cont c \<and> cont d"
  by (auto simp: second_ok_def between_def)

lemma utf8_valid_head:
  assumes "utf8_valid s" "s \<noteq> []"
  shows "\<exists>n. utf8_head s = (True, n) \<and> utf8_valid (drop n s)"
proof (cases s rule: utf8_valid.cases)
  case (4 a b c)
  consider "byte a < 0x80" | "\<not> byte a < 0x80" "between 0xC2 a 0xDF" | "\<not> byte a < 0x80" "\<not> between 0xC2 a 0xDF" by blast
  then show ?thesis
  proof cases
    case 3
    with assms 4 three_byte_char[of a b c] show ?thesis by simp
  qed (use assms 4 in simp_all)
next
  case (5 a b c d t)
  consider "byte a < 0x80" | "\<not> byte a < 0x80" "between 0xC2 a 0xDF"
    | "\<not> byte a < 0x80" "\<not> between 0xC2 a 0xDF" "between 0xE0 a 0xEF"
    | "\<not> byte a < 0x80" "\<not> between 0xC2 a 0xDF" "\<not> between 0xE0 a 0xEF" by blast
  then show ?thesis
  proof cases
    case 3
    with assms 5 three_byte_char[of a b c] show ?thesis by simp
  next
    case 4
    with assms 5 four_byte_char[of a b c d] show ?thesis by simp
  qed (use assms 5 in simp_all)
qed (use assms in \<open>auto split: if_splits\<close>)

lemma from_utf8_lossy_valid: "utf8_valid s \<Longrightarrow> from_utf8_lossy s = s"
proof (induction s rule: length_induct)
  case (1 s)
  show ?case
  proof (cases "s = []")
    case False
    then obtain n where n: "utf8_head s = (True, n)" "utf8_valid (drop n s)"
      using utf8_valid_head 1(2) by blast
    have "0 < n" using utf8_head_pos[of s] n(1) by simp
    then have "length (drop n s) < length s" using False by simp
    with 1(1) n(2) have "from_utf8_lossy (drop n s) = drop n s" by blast
    then show ?thesis using False n(1) by (subst from_utf8_lossy.simps) simp
  qed simp
qed

section \<open>Writers and readers\<close>

definition MAX_INITIAL_MESSAGE_BYTES :: nat where "MAX_INITIAL_MESSAGE_BYTES = 16 * 1024"
definition MAX_NDJSON_BYTES :: nat where "MAX_NDJSON_BYTES = 16 * 1024"

datatype read_error = Closed | TooLong | NotUtf8 | BadJson

definition write_ndjson :: "('m \<Rightarrow> string) \<Rightarrow> 'm \<Rightarrow> string" where
  "write_ndjson to_json m = to_json m @ [LF]"

text \<open>The server's first read: the line, and what is left in the stream.\<close>

fun read_initial_loop :: "string \<Rightarrow> string \<Rightarrow> read_error + string \<times> string" where
  "read_initial_loop line [] = Inl Closed"
| "read_initial_loop line (c # s) =
     (if c = LF then (if utf8_valid line then Inr (line, s) else Inl NotUtf8)
      else if length line \<ge> MAX_INITIAL_MESSAGE_BYTES then Inl TooLong
      else read_initial_loop (line @ [c]) s)"

definition read_initial_message :: "string \<Rightarrow> read_error + string \<times> string" where
  "read_initial_message s = read_initial_loop [] s"

definition parse_line :: "(string \<Rightarrow> 'm option) \<Rightarrow> string \<Rightarrow> string \<Rightarrow> read_error + 'm \<times> string" where
  "parse_line from_json line rest = (case from_json (trim line) of None \<Rightarrow> Inl BadJson | Some m \<Rightarrow> Inr (m, rest))"

definition read_first_msg :: "(string \<Rightarrow> 'm option) \<Rightarrow> string \<Rightarrow> read_error + 'm \<times> string" where
  "read_first_msg from_json s =
     (case read_initial_message s of Inl e \<Rightarrow> Inl e | Inr (line, rest) \<Rightarrow> parse_line from_json line rest)"

text \<open>The client's reader of the tunnel handshake.\<close>

fun read_limited_loop :: "string \<Rightarrow> string \<Rightarrow> read_error + string \<times> string" where
  "read_limited_loop line [] = Inl Closed"
| "read_limited_loop line (c # s) =
     (if c = LF then Inr (line, s)
      else if length (line @ [c]) > MAX_NDJSON_BYTES then Inl TooLong
      else read_limited_loop (line @ [c]) s)"

definition tunnel_read_ndjson :: "(string \<Rightarrow> 'm option) \<Rightarrow> string \<Rightarrow> read_error + 'm \<times> string" where
  "tunnel_read_ndjson from_json s =
     (case read_limited_loop [] s of
        Inl e \<Rightarrow> Inl e
      | Inr (line, rest) \<Rightarrow> parse_line from_json (from_utf8_lossy line) rest)"

text \<open>\<^verbatim>\<open>read_line\<close> of a buffered stream has no limit; it keeps the line feed and fails on text that is
  not UTF-8.\<close>

definition read_line :: "string \<Rightarrow> string \<times> string" where
  "read_line s = (let l = takeWhile (\<lambda>c. c \<noteq> LF) s in if LF \<in> set s then (l @ [LF], drop (length l + 1) s) else (s, []))"

definition session_read_ndjson :: "(string \<Rightarrow> 'm option) \<Rightarrow> string \<Rightarrow> read_error + 'm \<times> string" where
  "session_read_ndjson from_json s =
     (if s = [] then Inl Closed
      else (case read_line s of (line, rest) \<Rightarrow>
              if \<not> utf8_valid line then Inl NotUtf8 else parse_line from_json line rest))"

section \<open>Framing\<close>

text \<open>What the JSON library does with a message: it writes an object on one line, in UTF-8, and reads
  it back.\<close>

definition json_frame :: "('m \<Rightarrow> string) \<Rightarrow> (string \<Rightarrow> 'm option) \<Rightarrow> 'm \<Rightarrow> bool" where
  "json_frame to_json from_json m \<longleftrightarrow> from_json (to_json m) = Some m \<and> LF \<notin> set (to_json m)
     \<and> utf8_valid (to_json m) \<and> (\<exists>b. to_json m = CHR ''{'' # b @ ''}'')"

lemma trim_object: "trim (CHR ''{'' # b @ ''}'') = CHR ''{'' # b @ ''}''"
proof -
  have "ws_len (CHR ''{'' # t) = 0" for t
    by (rule ws_len_word_char) (simp add: word_char_def ws_ascii_def byte_def)
  moreover have "ws_len_back (CHR ''}'' # t) = 0" for t
    by (auto simp: ws_ascii_def ws_two_def ws_three_def byte_def split: list.split)
  ultimately show ?thesis
    by (simp add: trim_def trim_start.simps trim_back.simps del: ws_len.simps ws_len_back.simps)
qed

lemma trim_object_line: "trim (CHR ''{'' # b @ ''}'' @ [LF]) = CHR ''{'' # b @ ''}''"
proof -
  have "ws_len (CHR ''{'' # t) = 0" for t
    by (rule ws_len_word_char) (simp add: word_char_def ws_ascii_def byte_def)
  moreover have "ws_len_back (CHR ''}'' # t) = 0" for t
    by (auto simp: ws_ascii_def ws_two_def ws_three_def byte_def split: list.split)
  moreover have "ws_len_back (LF # t) = 1" for t by (simp add: ws_ascii_def byte_def)
  ultimately show ?thesis
    by (simp add: trim_def trim_start.simps trim_back.simps[of "LF # CHR ''}'' # rev b @ ''{''"]
        trim_back.simps[of "CHR ''}'' # rev b @ ''{''"] del: ws_len.simps ws_len_back.simps)
qed

lemma read_initial_loop_line:
  "LF \<notin> set l \<Longrightarrow> length a + length l \<le> MAX_INITIAL_MESSAGE_BYTES \<Longrightarrow> utf8_valid (a @ l) \<Longrightarrow>
     read_initial_loop a (l @ LF # s) = Inr (a @ l, s)"
  by (induction l arbitrary: a) auto

lemma read_limited_loop_line:
  "LF \<notin> set l \<Longrightarrow> length a + length l \<le> MAX_NDJSON_BYTES \<Longrightarrow> read_limited_loop a (l @ LF # s) = Inr (a @ l, s)"
  by (induction l arbitrary: a) auto

lemma read_line_frame: "LF \<notin> set l \<Longrightarrow> read_line (l @ LF # s) = (l @ [LF], s)"
proof -
  assume "LF \<notin> set l"
  then have "takeWhile (\<lambda>c. c \<noteq> LF) (l @ LF # s) = l"
    by (subst takeWhile_append2) auto
  then show ?thesis by (simp add: read_line_def)
qed

lemma json_frame_parse:
  "json_frame to_json from_json m \<Longrightarrow> parse_line from_json (to_json m) s = Inr (m, s)"
  by (auto simp: json_frame_def parse_line_def) (metis append_Cons option.simps(5) trim_object)

lemma utf8_valid_snoc_ascii: "utf8_valid s \<Longrightarrow> byte c < 0x80 \<Longrightarrow> utf8_valid (s @ [c])"
proof (induction s rule: utf8_valid.induct)
  case (4 a b d)
  consider "byte a < 0x80" | "\<not> byte a < 0x80" "between 0xC2 a 0xDF" | "\<not> byte a < 0x80" "\<not> between 0xC2 a 0xDF" by blast
  then show ?case
  proof cases
    case 3
    with 4 three_byte_char[of a b d] show ?thesis by simp
  qed (use 4 in \<open>auto split: if_splits\<close>)
qed (auto split: if_splits)

text \<open>Reading several messages in a row.\<close>

fun read_many :: "(string \<Rightarrow> read_error + 'm \<times> string) \<Rightarrow> nat \<Rightarrow> string \<Rightarrow> read_error + 'm list \<times> string" where
  "read_many rd 0 s = Inr ([], s)"
| "read_many rd (Suc n) s =
     (case rd s of Inl e \<Rightarrow> Inl e
      | Inr (m, t) \<Rightarrow> (case read_many rd n t of Inl e \<Rightarrow> Inl e | Inr (ms, u) \<Rightarrow> Inr (m # ms, u)))"

text \<open>The contract of a reader: it returns every message that fits, and what follows it.\<close>

locale message_reader =
  fixes rd :: "string \<Rightarrow> read_error + 'm \<times> string"
    and to_json :: "'m \<Rightarrow> string"
    and fits :: "'m \<Rightarrow> bool"
  assumes read_frame: "fits m \<Longrightarrow> rd (write_ndjson to_json m @ s) = Inr (m, s)"
begin

lemma read_many_frames:
  "list_all fits ms \<Longrightarrow> read_many rd (length ms) (concat (map (write_ndjson to_json) ms) @ s) = Inr (ms, s)"
  by (induction ms) (simp_all add: read_frame)

end

text \<open>All three readers meet it, the first two for messages of at most 16 KiB.\<close>

definition fits_line :: "('m \<Rightarrow> string) \<Rightarrow> (string \<Rightarrow> 'm option) \<Rightarrow> 'm \<Rightarrow> bool" where
  "fits_line to_json from_json m \<longleftrightarrow> json_frame to_json from_json m \<and> length (to_json m) \<le> 16 * 1024"

interpretation first_reader: message_reader "read_first_msg from_json" to_json "fits_line to_json from_json"
  for to_json :: "'m \<Rightarrow> string" and from_json
proof
  fix m :: 'm and s
  assume f: "fits_line to_json from_json m"
  then have j: "json_frame to_json from_json m" by (simp add: fits_line_def)
  have "read_initial_loop [] (to_json m @ LF # s) = Inr ([] @ to_json m, s)"
    using f j by (intro read_initial_loop_line) (auto simp: fits_line_def json_frame_def MAX_INITIAL_MESSAGE_BYTES_def)
  then show "read_first_msg from_json (write_ndjson to_json m @ s) = Inr (m, s)"
    by (simp add: read_first_msg_def read_initial_message_def write_ndjson_def json_frame_parse[OF j])
qed

interpretation tunnel_reader: message_reader "tunnel_read_ndjson from_json" to_json "fits_line to_json from_json"
  for to_json :: "'m \<Rightarrow> string" and from_json
proof
  fix m :: 'm and s
  assume f: "fits_line to_json from_json m"
  then have j: "json_frame to_json from_json m" by (simp add: fits_line_def)
  then have "from_utf8_lossy (to_json m) = to_json m" by (simp add: json_frame_def from_utf8_lossy_valid)
  moreover have "read_limited_loop [] (to_json m @ LF # s) = Inr ([] @ to_json m, s)"
    using f j by (intro read_limited_loop_line) (auto simp: fits_line_def json_frame_def MAX_NDJSON_BYTES_def)
  ultimately show "tunnel_read_ndjson from_json (write_ndjson to_json m @ s) = Inr (m, s)"
    by (simp add: tunnel_read_ndjson_def write_ndjson_def json_frame_parse[OF j])
qed

interpretation session_reader: message_reader "session_read_ndjson from_json" to_json "json_frame to_json from_json"
  for to_json :: "'m \<Rightarrow> string" and from_json
proof
  fix m :: 'm and s
  assume j: "json_frame to_json from_json m"
  then obtain b where b: "to_json m = CHR ''{'' # b @ ''}''" by (auto simp: json_frame_def)
  have "utf8_valid (to_json m @ [LF])"
    using j by (intro utf8_valid_snoc_ascii) (simp_all add: json_frame_def byte_def)
  moreover have "read_line (to_json m @ LF # s) = (to_json m @ [LF], s)"
    using j by (intro read_line_frame) (simp add: json_frame_def)
  moreover have "trim (to_json m @ [LF]) = to_json m" using trim_object_line[of b] by (simp add: b)
  ultimately show "session_read_ndjson from_json (write_ndjson to_json m @ s) = Inr (m, s)"
    using j by (simp add: session_read_ndjson_def write_ndjson_def parse_line_def json_frame_def)
qed

section \<open>Properties\<close>

lemma read_initial_loop_long:
  "LF \<notin> set l \<Longrightarrow> length a \<le> MAX_INITIAL_MESSAGE_BYTES \<Longrightarrow> length a + length l > MAX_INITIAL_MESSAGE_BYTES \<Longrightarrow>
     read_initial_loop a (l @ s) = Inl TooLong"
  by (induction l arbitrary: a) auto

lemma read_limited_loop_long:
  "LF \<notin> set l \<Longrightarrow> length a \<le> MAX_NDJSON_BYTES \<Longrightarrow> length a + length l > MAX_NDJSON_BYTES \<Longrightarrow>
     read_limited_loop a (l @ s) = Inl TooLong"
  by (induction l arbitrary: a) auto

text \<open>\<^bold>\<open>C28\<close>: messages survive the wire. A sequence of messages written by either end is
  read back by the other end's reader in the same order with nothing left over: of at most 16 KiB
  each where the reader is the server's first read or the client's tunnel handshake, of any
  length in an established session. A longer message is refused by the limited readers, before
  more than 16 KiB of it are held.\<close>

theorem ndjson_roundtrip:
  assumes "list_all (json_frame to_json from_json) ms"
  shows "read_many (session_read_ndjson from_json) (length ms) (concat (map (write_ndjson to_json) ms)) = Inr (ms, [])
    \<and> (if list_all (\<lambda>m. length (to_json m) \<le> 16 * 1024) ms
       then read_many (tunnel_read_ndjson from_json) (length ms) (concat (map (write_ndjson to_json) ms)) = Inr (ms, [])
          \<and> read_many (read_first_msg from_json) (length ms) (concat (map (write_ndjson to_json) ms)) = Inr (ms, [])
       else \<exists>m \<in> set ms. \<forall>s. tunnel_read_ndjson from_json (write_ndjson to_json m @ s) = Inl TooLong
          \<and> read_first_msg from_json (write_ndjson to_json m @ s) = Inl TooLong)"
proof (rule conjI)
  show "read_many (session_read_ndjson from_json) (length ms) (concat (map (write_ndjson to_json) ms)) = Inr (ms, [])"
    using session_reader.read_many_frames[OF assms, of "[]"] by simp
next
  show "if list_all (\<lambda>m. length (to_json m) \<le> 16 * 1024) ms
       then read_many (tunnel_read_ndjson from_json) (length ms) (concat (map (write_ndjson to_json) ms)) = Inr (ms, [])
          \<and> read_many (read_first_msg from_json) (length ms) (concat (map (write_ndjson to_json) ms)) = Inr (ms, [])
       else \<exists>m \<in> set ms. \<forall>s. tunnel_read_ndjson from_json (write_ndjson to_json m @ s) = Inl TooLong
          \<and> read_first_msg from_json (write_ndjson to_json m @ s) = Inl TooLong"
  proof (cases "list_all (\<lambda>m. length (to_json m) \<le> 16 * 1024) ms")
    case True
    with assms have f: "list_all (fits_line to_json from_json) ms" by (simp add: list_all_iff fits_line_def)
    show ?thesis
      using True tunnel_reader.read_many_frames[OF f, of "[]"] first_reader.read_many_frames[OF f, of "[]"] by simp
  next
    case False
    then obtain m where m: "m \<in> set ms" "16 * 1024 < length (to_json m)" by (auto simp: list_all_iff not_le)
    then have "LF \<notin> set (to_json m)" using assms by (simp add: list_all_iff json_frame_def)
    then have "read_limited_loop [] (to_json m @ [LF] @ s) = Inl TooLong"
      "read_initial_loop [] (to_json m @ [LF] @ s) = Inl TooLong" for s
      using m(2) by (auto intro!: read_limited_loop_long read_initial_loop_long
          simp: MAX_NDJSON_BYTES_def MAX_INITIAL_MESSAGE_BYTES_def)
    then have "tunnel_read_ndjson from_json (write_ndjson to_json m @ s) = Inl TooLong
        \<and> read_first_msg from_json (write_ndjson to_json m @ s) = Inl TooLong" for s
      by (simp add: tunnel_read_ndjson_def read_first_msg_def read_initial_message_def write_ndjson_def)
    with False m(1) show ?thesis by (metis (mono_tags, lifting))
  qed
qed

lemma read_loops_agree:
  "(\<And>l s'. read_limited_loop a s = Inr (l, s') \<Longrightarrow> utf8_valid l) \<Longrightarrow> length a \<le> 16 * 1024 \<Longrightarrow>
     read_initial_loop a s = read_limited_loop a s"
proof (induction s arbitrary: a)
  case (Cons c s)
  show ?case
  proof (cases "c = LF")
    case True
    with Cons(2)[of a s] show ?thesis by simp
  next
    case False
    with Cons show ?thesis by (simp add: MAX_NDJSON_BYTES_def MAX_INITIAL_MESSAGE_BYTES_def)
  qed
qed simp

text \<open>\<^bold>\<open>C30\<close>: the two bounded readers agree. The server's reader of the first message and the
  client's reader of the tunnel handshake check their limit at different places (before and after
  the byte is stored) and decode differently; on a stream whose first line is UTF-8 they nevertheless
  return the same result, message or error, at every length.\<close>

theorem bounded_readers_agree:
  assumes "\<forall>l rest. read_limited_loop [] s = Inr (l, rest) \<longrightarrow> utf8_valid l"
  shows "read_first_msg from_json s = tunnel_read_ndjson from_json s"
proof -
  have e: "read_initial_loop [] s = read_limited_loop [] s"
    using assms by (intro read_loops_agree) auto
  show ?thesis
  proof (cases "read_limited_loop [] s")
    case (Inr lr)
    obtain l rest where lr: "lr = (l, rest)" by (cases lr)
    with assms Inr have "from_utf8_lossy l = l" by (simp add: from_utf8_lossy_valid)
    with e Inr lr show ?thesis
      by (simp add: read_first_msg_def read_initial_message_def tunnel_read_ndjson_def)
  qed (use e in \<open>simp add: read_first_msg_def read_initial_message_def tunnel_read_ndjson_def\<close>)
qed

text \<open>A codec for a message type with one value.\<close>

definition demo_json :: "unit \<Rightarrow> string" where "demo_json m = ''{}''"

definition demo_from_json :: "string \<Rightarrow> unit option" where
  "demo_from_json s = (if s = ''{}'' then Some () else None)"

lemma demo_frame: "json_frame demo_json demo_from_json m"
  by (auto simp: json_frame_def demo_json_def demo_from_json_def byte_def)

theorem ndjson_roundtrip_witness:
  "read_many (session_read_ndjson demo_from_json) (length [(), ()]) (concat (map (write_ndjson demo_json) [(), ()])) = Inr ([(), ()], [])
   \<and> read_many (tunnel_read_ndjson demo_from_json) (length [(), ()]) (concat (map (write_ndjson demo_json) [(), ()])) = Inr ([(), ()], [])"
proof -
  have "list_all (json_frame demo_json demo_from_json) [(), ()]" by (simp add: demo_frame)
  moreover have "list_all (\<lambda>m. length (demo_json m) \<le> 16 * 1024) [(), ()]" by (simp add: demo_json_def)
  ultimately show ?thesis using ndjson_roundtrip[of demo_json demo_from_json "[(), ()]"] by presburger
qed

theorem bounded_readers_agree_witness:
  "read_first_msg demo_from_json (''{}'' @ [LF]) = tunnel_read_ndjson demo_from_json (''{}'' @ [LF])"
  by (rule bounded_readers_agree) (simp add: MAX_NDJSON_BYTES_def byte_def)

end
