(* ===== verification/Proxy_Protocol.thy ===== *)
theory Proxy_Protocol
  imports Net_Addr
begin

text \<open>
  The PROXY protocol headers that the server (\<^verbatim>\<open>cross233-server/src/proxy_protocol.rs\<close>, the constants of
  this theory that end in \<open>_server\<close>) and the client (\<^verbatim>\<open>cross233-client/src/proxy_protocol.rs\<close>, those
  that end in \<open>_client\<close>) put before the bytes of a connection.
\<close>

abbreviation is_v4 :: "socket_addr \<Rightarrow> bool" where "is_v4 a \<equiv> is_ipv4 (ip a)"

definition to_bytes :: "string \<Rightarrow> bytes" where
  "to_bytes s = map (\<lambda>c. of_nat (byte c)) s"

definition signature :: bytes where
  "signature = [0x0D, 0x0A, 0x0D, 0x0A, 0x00, 0x0D, 0x0A, 0x51, 0x55, 0x49, 0x54, 0x0A]"

definition v1_line :: "string \<Rightarrow> socket_addr \<Rightarrow> socket_addr \<Rightarrow> string" where
  "v1_line inet src dst = ''PROXY '' @ inet @ '' '' @ show_ip (ip src) @ '' '' @ show_ip (ip dst) @ '' ''
     @ show_nat (unat (port src)) @ '' '' @ show_nat (unat (port dst)) @ [CHR 0x0D, CHR 0x0A]"

section \<open>Server\<close>

definition build_v1_header_server :: "socket_addr \<Rightarrow> socket_addr \<Rightarrow> bytes" where
  "build_v1_header_server src dst = to_bytes (v1_line (if is_v4 src then ''TCP4'' else ''TCP6'') src dst)"

definition addr_bytes :: "socket_addr \<Rightarrow> bytes" where
  "addr_bytes a = octets (ip a) @ put_u16 (port a)"

definition build_v2_header_server :: "socket_addr \<Rightarrow> socket_addr \<Rightarrow> bytes" where
  "build_v2_header_server src dst =
     (let (family, b) =
        (if is_v4 src \<and> is_v4 dst then (0x11, addr_bytes src @ addr_bytes dst)
         else if \<not> is_v4 src \<and> \<not> is_v4 dst then (0x21, addr_bytes src @ addr_bytes dst)
         else (0x11, (if is_v4 src then addr_bytes src else replicate 6 0)
                     @ (if is_v4 dst then addr_bytes dst else replicate 6 0)))
      in signature @ [0x21, family] @ put_u16 (of_nat (length b)) @ b)"

definition build_header_server :: "string \<Rightarrow> socket_addr \<Rightarrow> socket_addr \<Rightarrow> bytes" where
  "build_header_server version src dst =
     (if version = ''v2'' then build_v2_header_server src dst else build_v1_header_server src dst)"

section \<open>Client\<close>

definition build_v1_header_client :: "socket_addr \<Rightarrow> socket_addr \<Rightarrow> bytes" where
  "build_v1_header_client src dst =
     to_bytes (v1_line (if is_v4 src \<and> is_v4 dst then ''TCP4'' else ''TCP6'') src dst)"

definition build_v2_header_client :: "socket_addr \<Rightarrow> socket_addr \<Rightarrow> bytes" where
  "build_v2_header_client src dst = signature @
     (if is_v4 src \<and> is_v4 dst then
        [0x21, 0x11] @ put_u16 12 @ octets (ip src) @ octets (ip dst) @ put_u16 (port src) @ put_u16 (port dst)
      else if \<not> is_v4 src \<and> \<not> is_v4 dst then
        [0x21, 0x21] @ put_u16 36 @ octets (ip src) @ octets (ip dst) @ put_u16 (port src) @ put_u16 (port dst)
      else [0x20, 0x00] @ put_u16 0)"

definition build_header_client :: "socket_addr \<Rightarrow> socket_addr \<Rightarrow> string option \<Rightarrow> bytes" where
  "build_header_client src dst version =
     (if version = Some ''v2'' then build_v2_header_client src dst else build_v1_header_client src dst)"

section \<open>A receiver\<close>

text \<open>How a receiver reads a version 2 header according to the protocol: after the signature the command
  (0x20 for a connection of the proxy itself, which carries no addresses), the family, the length of
  what follows, and in it source address, destination address, source port, destination port.\<close>

definition ip_of_octets :: "bytes \<Rightarrow> ip_addr" where
  "ip_of_octets b = (if length b = 4 then V4 (b ! 0) (b ! 1) (b ! 2) (b ! 3)
     else V6 (u16_from_be (b ! 0) (b ! 1)) (u16_from_be (b ! 2) (b ! 3)) (u16_from_be (b ! 4) (b ! 5))
       (u16_from_be (b ! 6) (b ! 7)) (u16_from_be (b ! 8) (b ! 9)) (u16_from_be (b ! 10) (b ! 11))
       (u16_from_be (b ! 12) (b ! 13)) (u16_from_be (b ! 14) (b ! 15)))"

definition read_addresses :: "nat \<Rightarrow> bytes \<Rightarrow> socket_addr \<times> socket_addr" where
  "read_addresses n b =
     (\<lparr>ip = ip_of_octets (take n b), port = u16_from_be (b ! (2 * n)) (b ! (2 * n + 1))\<rparr>,
      \<lparr>ip = ip_of_octets (take n (drop n b)), port = u16_from_be (b ! (2 * n + 2)) (b ! (2 * n + 3))\<rparr>)"

definition parse_v2 :: "bytes \<Rightarrow> ((socket_addr \<times> socket_addr) option \<times> bytes) option" where
  "parse_v2 bs =
     (if take 12 bs \<noteq> signature \<or> length bs < 16 then None
      else let len = unat (u16_from_be (bs ! 14) (bs ! 15)); b = take len (drop 16 bs); rest = drop (16 + len) bs
           in if length b < len then None
              else if bs ! 12 = 0x20 then Some (None, rest)
              else if bs ! 12 \<noteq> 0x21 then None
              else if bs ! 13 = 0x11 \<and> len \<ge> 12 then Some (Some (read_addresses 4 b), rest)
              else if bs ! 13 = 0x21 \<and> len \<ge> 36 then Some (Some (read_addresses 16 b), rest)
              else None)"

lemma ip_of_octets_octets [simp]: "ip_of_octets (octets a) = a"
  by (cases a) (simp_all add: ip_of_octets_def put_u16_def)

lemma signature_length [simp]: "length signature = 12"
  by (simp add: signature_def)

lemma parse_v2_header:
  assumes "length b = unat len"
  shows "parse_v2 (signature @ [c, fam] @ put_u16 len @ b @ rest) =
    (if c = 0x20 then Some (None, rest) else if c \<noteq> 0x21 then None
     else if fam = 0x11 \<and> unat len \<ge> 12 then Some (Some (read_addresses 4 b), rest)
     else if fam = 0x21 \<and> unat len \<ge> 36 then Some (Some (read_addresses 16 b), rest) else None)"
proof -
  define bs where "bs = signature @ [c, fam] @ put_u16 len @ b @ rest"
  have "take 12 bs = signature" "bs ! 12 = c" "bs ! 13 = fam" "u16_from_be (bs ! 14) (bs ! 15) = len" "16 \<le> length bs"
    by (simp_all add: bs_def nth_append put_u16_def signature_def)
  moreover have "drop 16 bs = b @ rest" by (simp add: bs_def put_u16_def signature_def)
  moreover have "drop (16 + unat len) bs = drop (unat len) (drop 16 bs)" by (simp only: drop_drop add.commute)
  ultimately have "parse_v2 bs =
    (if c = 0x20 then Some (None, rest) else if c \<noteq> 0x21 then None
     else if fam = 0x11 \<and> unat len \<ge> 12 then Some (Some (read_addresses 4 b), rest)
     else if fam = 0x21 \<and> unat len \<ge> 36 then Some (Some (read_addresses 16 b), rest) else None)"
    using assms unfolding parse_v2_def Let_def by simp
  then show ?thesis by (simp only: bs_def)
qed

lemma read_addresses_layout:
  assumes "length (octets a) = n" "length (octets b) = n"
  shows "read_addresses n (octets a @ octets b @ put_u16 p @ put_u16 q) = (\<lparr>ip = a, port = p\<rparr>, \<lparr>ip = b, port = q\<rparr>)"
  using assms by (simp add: read_addresses_def nth_append put_u16_def)

section \<open>What a receiver learns\<close>

definition same_family :: "socket_addr \<Rightarrow> socket_addr \<Rightarrow> bool" where
  "same_family a b \<longleftrightarrow> is_v4 a = is_v4 b"

lemma socket_addr_eta: "\<lparr>ip = ip a, port = port a\<rparr> = a"
  by simp

text \<open>The client's version 2 header says what it should. A receiver that follows the
  protocol reads from it the source and destination of the connection, in both families, and
  is left with exactly the bytes that follow; for addresses of different families it reads that there
  are none. The server's version 1 header is the client's whenever the families agree.\<close>

theorem client_v2_roundtrip:
  "parse_v2 (build_v2_header_client src dst @ payload)
     = Some (if same_family src dst then Some (src, dst) else None, payload)
   \<and> (if same_family src dst then build_v1_header_server src dst = build_v1_header_client src dst else True)"
proof -
  have l: "length (octets (ip a)) = (if is_v4 a then 4 else 16)" for a by (rule length_octets)
  consider (v4) "is_v4 src" "is_v4 dst" | (v6) "\<not> is_v4 src" "\<not> is_v4 dst" | (mixed) "is_v4 src \<noteq> is_v4 dst" by blast
  then have "parse_v2 (build_v2_header_client src dst @ payload)
     = Some (if same_family src dst then Some (src, dst) else None, payload)"
  proof cases
    case v4
    let ?b = "octets (ip src) @ octets (ip dst) @ put_u16 (port src) @ put_u16 (port dst)"
    have "length ?b = unat (12 :: u16)" using l[of src] l[of dst] v4 by simp
    from parse_v2_header[OF this, where c = "0x21" and fam = "0x11" and rest = payload] read_addresses_layout[of "ip src" 4 "ip dst"] v4 l
    show ?thesis by (simp add: build_v2_header_client_def same_family_def)
  next
    case v6
    let ?b = "octets (ip src) @ octets (ip dst) @ put_u16 (port src) @ put_u16 (port dst)"
    have "length ?b = unat (36 :: u16)" using l[of src] l[of dst] v6 by simp
    from parse_v2_header[OF this, where c = "0x21" and fam = "0x21" and rest = payload] read_addresses_layout[of "ip src" 16 "ip dst"] v6 l
    show ?thesis by (simp add: build_v2_header_client_def same_family_def)
  next
    case mixed
    have "length ([] :: bytes) = unat (0 :: u16)" by simp
    from parse_v2_header[OF this, where c = "0x20" and fam = "0x00" and rest = payload] mixed
    show ?thesis by (auto simp: build_v2_header_client_def same_family_def)
  qed
  then show ?thesis by (simp add: same_family_def build_v1_header_server_def build_v1_header_client_def)
qed

text \<open>The server's version 2 header is not in the protocol's order. It writes each
  address with its port, where the protocol has the two addresses first. A receiver therefore takes
  the source port for the first half of an IPv4 destination address, and the second half of the
  destination address for the source port.\<close>

theorem server_v2_misread:
  assumes "ip src = V4 a b c d" "ip dst = V4 e f g h"
  shows "parse_v2 (build_v2_header_server src dst @ payload)
     = Some (Some (\<lparr>ip = V4 a b c d, port = u16_from_be g h\<rparr>,
                   \<lparr>ip = V4 (ucast (drop_bit 8 (port src))) (ucast (port src)) e f, port = port dst\<rparr>), payload)"
proof -
  let ?b = "addr_bytes src @ addr_bytes dst"
  have "length ?b = unat (12 :: u16)" by (simp add: addr_bytes_def assms)
  from parse_v2_header[OF this, where c = "0x21" and fam = "0x11" and rest = payload] show ?thesis
    by (simp add: build_v2_header_server_def assms is_ipv4_def addr_bytes_def read_addresses_def
        ip_of_octets_def put_u16_def)
qed

theorem server_v2_misread_witness:
  "\<exists>s d. parse_v2 (build_v2_header_server \<lparr>ip = V4 203 0 113 7, port = 0x1234\<rparr> \<lparr>ip = V4 10 0 0 1, port = 80\<rparr> @ [])
     = Some (Some (s, d), []) \<and> port s = 1 \<and> ip d = V4 0x12 0x34 10 0"
  using server_v2_misread[of "\<lparr>ip = V4 203 0 113 7, port = 0x1234\<rparr>" 203 0 113 7 "\<lparr>ip = V4 10 0 0 1, port = 80\<rparr>" 10 0 0 1 "[]"]
  by (simp add: u16_from_be_def)

end
