(* ===== verification/Control_Session.thy ===== *)
theory Control_Session
  imports Udp_Manager Auth Ndjson Proxy_Protocol
begin

text \<open>
  The server's control port (\<^verbatim>\<open>cross233-server/src/control.rs\<close>): the sessions of clients, tunnels and
  visitors, the listeners of services and the connections they accept. Each handler is one function
  from the state it finds, and the messages it reads, to what it writes, how it ends and the state it
  leaves; the operations of other tasks that may come between its awaits are covered by the step
  relations of the registry and of the authentication. TLS, the wire format and time-outs show
  only as reads that fail. Writing to the peer can fail: \<open>io\<close> says which messages can be written.
\<close>

section \<open>State\<close>

record 's control =
  auth :: auth_state
  reg :: "'s registry"
  udp_mgr :: "udp_manager option"

text \<open>What the operating system decides: which TCP and UDP ports can be bound, and what it says when not.\<close>

record os =
  tcp_bind :: "u16 \<Rightarrow> bool"
  udp_bind :: "u16 \<Rightarrow> bool"
  bind_error :: string

datatype session_error =
    EmptyClientId | EmptyTunnelId | ReadFailed | WriteFailed | ExpectedAuth string | MissingProof
  | AuthFailed | ExposeFailed string | NoPendingWork | UnknownFirst string | VisitorAuthFailed

section \<open>Listeners of services\<close>

text \<open>The handle of the accept loop is a number.\<close>

definition start_tcp_listener_for_service :: "os \<Rightarrow> nat \<Rightarrow> string \<Rightarrow> u16 \<Rightarrow> 's registry \<Rightarrow> bool \<times> 's registry" where
  "start_tcp_listener_for_service sys h name p r =
     (if is_listener_active p r then (True, r)
      else if \<not> tcp_bind sys p then (False, r)
      else (True, register_listener p name h r))"

text \<open>One service of the loop over the assigned services.\<close>

definition expose_service :: "os \<Rightarrow> nat \<Rightarrow> service \<Rightarrow> 's control \<Rightarrow> bool \<times> 's control" where
  "expose_service sys h svc st =
     (if effective_type svc \<in> {''tcp'', ''static'', []} then
        (if \<not> is_vhost svc \<and> remote_port svc \<noteq> 0 \<and> \<not> is_listener_active (remote_port svc) (reg st)
         then (case start_tcp_listener_for_service sys h (svc_name svc) (remote_port svc) (reg st) of
                 (ok, r) \<Rightarrow> (ok, st\<lparr>reg := r\<rparr>))
         else (True, st))
      else if effective_type svc = ''udp'' then
        (case udp_mgr st of
           None \<Rightarrow> (True, st)
         | Some u \<Rightarrow> if remote_port svc \<noteq> 0
             then (case start_service (udp_bind sys) (svc_name svc) (remote_port svc) u of
                     (ok, u') \<Rightarrow> (ok, st\<lparr>udp_mgr := Some u'\<rparr>))
             else (True, st))
      else (True, st))"

fun expose_services :: "os \<Rightarrow> nat \<Rightarrow> service list \<Rightarrow> 's control \<Rightarrow> (service + unit) \<times> 's control" where
  "expose_services sys h [] st = (Inr (), st)"
| "expose_services sys h (svc # svcs) st =
     (case expose_service sys h svc st of
        (True, st1) \<Rightarrow> expose_services sys (h + 1) svcs st1
      | (False, st1) \<Rightarrow> (Inl svc, st1))"

definition expose_message :: "os \<Rightarrow> service \<Rightarrow> 's registry \<Rightarrow> string" where
  "expose_message sys svc r =
     (if effective_type svc = ''udp'' then ''cannot expose UDP service '' else ''cannot expose service '')
     @ svc_name svc @ '' on '' @ proxy_bind r @ '':'' @ show_nat (unat (remote_port svc)) @ '': '' @ bind_error sys"

section \<open>The end of a session\<close>

fun stop_services :: "string list \<Rightarrow> udp_manager \<Rightarrow> udp_manager" where
  "stop_services [] u = u"
| "stop_services (n # ns) u = stop_services ns (stop_service n u)"

definition cleanup_registered_session :: "string \<Rightarrow> chan \<Rightarrow> 's control \<Rightarrow> 's control" where
  "cleanup_registered_session cid tx st =
     (let r = cancel_static_responses_for_control tx (reg st)
      in if is_current_control cid tx r
         then let names = (case hm_get (client_services r) cid of None \<Rightarrow> [] | Some ns \<Rightarrow> ns)
              in st\<lparr>udp_mgr := map_option (stop_services names) (udp_mgr st),
                    reg := snd (unregister_client_if_current cid tx r)\<rparr>
         else st\<lparr>reg := r\<rparr>)"

section \<open>Client sessions\<close>

text \<open>The outcome of a handler: the messages written, the error or success, the state.\<close>

type_synonym 's outcome = "message list \<times> (session_error + unit) \<times> 's control"

text \<open>\<^verbatim>\<open>handle_control_session\<close> up to the verification of the proof. The random nonce and the two times
  of the challenge are arguments, and so is what is read back, if anything.\<close>

record entropy =
  nonce :: string
  t_insert :: nat
  t_cleanup :: nat

definition default_str :: "string option \<Rightarrow> string" where
  "default_str x = (case x of None \<Rightarrow> [] | Some s \<Rightarrow> s)"

definition control_handshake ::
  "(string \<Rightarrow> string \<Rightarrow> string) \<Rightarrow> (message \<Rightarrow> bool) \<Rightarrow> entropy \<Rightarrow> message \<Rightarrow> message option \<Rightarrow> 's control \<Rightarrow> 's outcome" where
  "control_handshake mac io en first_msg reply st =
     (let cid = default_str (m_client_id first_msg)
      in if cid = [] then ([], Inl EmptyClientId, st)
         else
           let a1 = snd (create_challenge (nonce en) (t_insert en) (t_cleanup en) cid (auth st));
               st1 = st\<lparr>auth := a1\<rparr>; challenge = new_challenge (nonce en)
           in if \<not> io challenge then ([], Inl WriteFailed, st1)
              else (case reply of
                      None \<Rightarrow> ([challenge], Inl ReadFailed, st1)
                    | Some am \<Rightarrow>
                        if m_ty am \<noteq> ''auth''
                        then (let e = new_error ''expected auth''
                              in (challenge # filter io [e],
                                  Inl (if io e then ExpectedAuth (m_ty am) else WriteFailed), st1))
                        else (case m_proof am of
                                None \<Rightarrow> ([challenge], Inl MissingProof, st1)
                              | Some p \<Rightarrow>
                                  (case verify mac cid ''client'' cid cid p a1 of
                                     (True, a2) \<Rightarrow> ([challenge], Inr (), st1\<lparr>auth := a2\<rparr>)
                                   | (False, a2) \<Rightarrow>
                                       let e = new_error ''auth failed''
                                       in (challenge # filter io [e],
                                           Inl (if io e then AuthFailed else WriteFailed), st1\<lparr>auth := a2\<rparr>)))))"

text \<open>From the verified proof to the running session: the services are registered and exposed,
  and the client learns which it got.\<close>

definition begin_session ::
  "os \<Rightarrow> (message \<Rightarrow> bool) \<Rightarrow> nat \<Rightarrow> chan \<Rightarrow> nat \<Rightarrow> u16 \<Rightarrow> u16 \<Rightarrow> message \<Rightarrow> 's control \<Rightarrow> 's outcome" where
  "begin_session sys io now tx h qport qtport first_msg st =
     (let cid = default_str (m_client_id first_msg);
          (assigned, r1) = register_services now cid tx (m_services first_msg) (reg st)
      in case expose_services sys h assigned (st\<lparr>reg := r1\<rparr>) of
           (Inl svc, st2) \<Rightarrow>
             (let e = new_error (expose_message sys svc (reg st2))
              in (filter io [e], Inl (if io e then ExposeFailed (svc_name svc) else WriteFailed),
                  cleanup_registered_session cid tx st2))
         | (Inr _, st2) \<Rightarrow>
             (let ready = new_ready assigned qport qtport
              in if io ready then ([ready], Inr (), st2)
                 else ([], Inl WriteFailed, cleanup_registered_session cid tx st2)))"

text \<open>One message of an established session. What the other side then reads are the messages
  sent to its channel, in order.\<close>

definition control_message :: "nat \<Rightarrow> chan \<Rightarrow> message \<Rightarrow> 's control \<Rightarrow> 's control" where
  "control_message now tx msg st =
     (if m_ty msg = ''ping'' then st\<lparr>reg := snd (send_message tx new_pong (reg st))\<rparr>
      else if m_ty msg = ''health'' then
        (case (m_service_name msg, m_healthy msg) of
           (Some name, Some h) \<Rightarrow> st\<lparr>reg := report_health now name h (reg st)\<rparr>
         | _ \<Rightarrow> st)
      else if m_ty msg = ''static_response'' then
        (case m_id msg of
           Some i \<Rightarrow> st\<lparr>reg := snd (deliver_static_response tx i
                         (case m_data msg of None \<Rightarrow> [] | Some d \<Rightarrow> d)
                         (case m_eof msg of None \<Rightarrow> False | Some b \<Rightarrow> b) (reg st))\<rparr>
         | None \<Rightarrow> st)
      else if m_ty msg = ''udp_response'' then
        (case (m_remote_port msg, m_address msg, m_data msg, udp_mgr st) of
           (Some p, Some addr, Some data, Some u) \<Rightarrow>
             (case get_service_name_by_port p (reg st) of
                Some name \<Rightarrow> st\<lparr>udp_mgr := Some (forward_response name addr data u)\<rparr>
              | None \<Rightarrow> st)
         | _ \<Rightarrow> st)
      else st)"

text \<open>The loop of the session. It waits for a line of the client, for at most 90 seconds, and for a message on
  its own channel, whichever comes first. Its state: the part of a line that the pending read has
  taken from the stream, the time of the last line, and how many of the messages sent to its
  channel it has written, which are recorded in order.\<close>

record session_view =
  ses_partial :: string
  ses_last :: nat
  ses_taken :: nat
  ses_written :: "message list"

text \<open>What wakes the loop: a piece of the stream that ends with a line feed or has none, the end of the
  stream, a read error, 90 seconds without a line, a message on the channel; and the tick of the task that
  sends a ping every 20 seconds.\<close>

datatype session_event = Arrive string | StreamEnd | BrokenRead | ReadTimeout | Outgoing | PingTick

definition outgoing :: "chan \<Rightarrow> nat \<Rightarrow> 's registry \<Rightarrow> message list" where
  "outgoing tx k r = drop k (map snd (filter (\<lambda>m. fst m = tx) (sent_messages r)))"

text \<open>All waiting messages go out in one write; when it fails the session ends.\<close>

definition drain :: "(message \<Rightarrow> bool) \<Rightarrow> chan \<Rightarrow> 's registry \<Rightarrow> session_view \<Rightarrow> bool \<times> session_view" where
  "drain io tx r v =
     (let ms = outgoing tx (ses_taken v) r
      in if list_all io ms
         then (True, v\<lparr>ses_taken := ses_taken v + length ms, ses_written := ses_written v @ ms\<rparr>)
         else (False, v\<lparr>ses_taken := ses_taken v + length ms\<rparr>))"

text \<open>A line that has been read, with \<open>parse\<close> for the JSON library. A line that is no message counts as
  activity and is otherwise ignored.\<close>

definition session_line ::
  "(string \<Rightarrow> message option) \<Rightarrow> (message \<Rightarrow> bool) \<Rightarrow> chan \<Rightarrow> nat \<Rightarrow> string \<Rightarrow> session_view \<Rightarrow> 's control
    \<Rightarrow> (bool \<times> session_view) \<times> 's control" where
  "session_line parse io tx now line v st =
     (if \<not> utf8_valid line then ((False, v), st)
      else if trim line = [] then (drain io tx (reg st) v, st)
      else let st1 = (case parse (trim line) of Some msg \<Rightarrow> control_message now tx msg st | None \<Rightarrow> st)
           in (drain io tx (reg st1) (v\<lparr>ses_last := now\<rparr>), st1))"

text \<open>One turn. Serving the channel or the time-out cancels the pending read; \<open>kept\<close> is what the
  asynchronous runtime keeps of the bytes that such a read has already taken.\<close>

definition session_turn ::
  "(string \<Rightarrow> message option) \<Rightarrow> (string \<Rightarrow> string) \<Rightarrow> (message \<Rightarrow> bool) \<Rightarrow> chan \<Rightarrow> nat \<Rightarrow> session_event
    \<Rightarrow> session_view \<Rightarrow> 's control \<Rightarrow> (bool \<times> session_view) \<times> 's control" where
  "session_turn parse kept io tx now ev v st =
     (case ev of
        Arrive seg \<Rightarrow>
          if LF \<in> set seg then session_line parse io tx now (ses_partial v @ seg) (v\<lparr>ses_partial := []\<rparr>) st
          else ((True, v\<lparr>ses_partial := ses_partial v @ seg\<rparr>), st)
      | StreamEnd \<Rightarrow>
          if ses_partial v = [] then ((False, v), st)
          else session_line parse io tx now (ses_partial v) (v\<lparr>ses_partial := []\<rparr>) st
      | BrokenRead \<Rightarrow> ((False, v), st)
      | ReadTimeout \<Rightarrow>
          if now - ses_last v > secs 60 then ((False, v), st)
          else (drain io tx (reg st) (v\<lparr>ses_partial := kept (ses_partial v)\<rparr>), st)
      | Outgoing \<Rightarrow>
          (case outgoing tx (ses_taken v) (reg st) of
             [] \<Rightarrow> ((True, v), st)
           | m # _ \<Rightarrow>
               let v1 = v\<lparr>ses_partial := kept (ses_partial v), ses_taken := ses_taken v + 1\<rparr>
               in (if io m then (True, v1\<lparr>ses_written := ses_written v @ [m]\<rparr>) else (False, v1), st))
      | PingTick \<Rightarrow> ((True, v), st\<lparr>reg := snd (send_message tx new_ping (reg st))\<rparr>))"

fun session_loop ::
  "(string \<Rightarrow> message option) \<Rightarrow> (string \<Rightarrow> string) \<Rightarrow> (message \<Rightarrow> bool) \<Rightarrow> chan \<Rightarrow> (nat \<times> session_event) list
    \<Rightarrow> session_view \<Rightarrow> 's control \<Rightarrow> session_view \<times> 's control" where
  "session_loop parse kept io tx [] v st = (v, st)"
| "session_loop parse kept io tx ((now, ev) # evs) v st =
     (case session_turn parse kept io tx now ev v st of
        ((True, v1), st1) \<Rightarrow> session_loop parse kept io tx evs v1 st1
      | ((False, v1), st1) \<Rightarrow> (v1, st1))"

text \<open>The whole session: handshake, registration, the loop, clean-up. Other tasks may run between the
  turns; a session that ends early has no events.\<close>

definition handle_control_session ::
  "(string \<Rightarrow> string \<Rightarrow> string) \<Rightarrow> (string \<Rightarrow> message option) \<Rightarrow> (string \<Rightarrow> string) \<Rightarrow> os \<Rightarrow> (message \<Rightarrow> bool) \<Rightarrow> entropy
    \<Rightarrow> nat \<Rightarrow> chan \<Rightarrow> nat \<Rightarrow> u16 \<Rightarrow> u16 \<Rightarrow> message \<Rightarrow> message option \<Rightarrow> (nat \<times> session_event) list \<Rightarrow> 's control \<Rightarrow> 's outcome" where
  "handle_control_session mac parse kept sys io en now tx h qport qtport first_msg reply evs st =
     (case control_handshake mac io en first_msg reply st of
        (out, Inl e, st1) \<Rightarrow> (out, Inl e, st1)
      | (out, Inr _, st1) \<Rightarrow>
          (case begin_session sys io now tx h qport qtport first_msg st1 of
             (out2, Inl e, st2) \<Rightarrow> (out @ out2, Inl e, st2)
           | (out2, Inr _, st2) \<Rightarrow>
               (case session_loop parse kept io tx evs
                       \<lparr>ses_partial = [], ses_last = now, ses_taken = 0, ses_written = []\<rparr> st2 of
                  (v, st3) \<Rightarrow>
                    (out @ out2 @ ses_written v, Inr (),
                     cleanup_registered_session (default_str (m_client_id first_msg)) tx st3))))"

section \<open>Tunnels\<close>

definition handle_tunnel_connection ::
  "(string \<Rightarrow> string \<Rightarrow> string) \<Rightarrow> (message \<Rightarrow> bool) \<Rightarrow> entropy \<Rightarrow> 's \<Rightarrow> message \<Rightarrow> message option \<Rightarrow> 's control \<Rightarrow> 's outcome" where
  "handle_tunnel_connection mac io en stream first_msg reply st =
     (let tid = default_str (m_id first_msg)
      in if tid = [] then ([], Inl EmptyTunnelId, st)
         else
           let key = ''tunnel:'' @ tid;
               a1 = snd (create_challenge (nonce en) (t_insert en) (t_cleanup en) key (auth st));
               st1 = st\<lparr>auth := a1\<rparr>; challenge = new_challenge (nonce en);
               asked = (case m_proof first_msg of
                          Some p \<Rightarrow> ([], Inr p)
                        | None \<Rightarrow> if \<not> io challenge then ([], Inl WriteFailed)
                                  else ([challenge], case reply of
                                          None \<Rightarrow> Inl ReadFailed
                                        | Some am \<Rightarrow> (case m_proof am of None \<Rightarrow> Inl MissingProof | Some p \<Rightarrow> Inr p)))
           in case asked of
                (out, Inl e) \<Rightarrow> (out, Inl e, st1)
              | (out, Inr p) \<Rightarrow>
                  (case verify mac key ''tunnel'' [] tid p a1 of
                     (False, a2) \<Rightarrow>
                       (let e = new_reject tid ''auth failed''
                        in if io e then (out @ [e], Inl AuthFailed,
                                         st1\<lparr>auth := a2, reg := reject_tunnel tid ''auth failed'' (reg st)\<rparr>)
                           else (out, Inl WriteFailed, st1\<lparr>auth := a2\<rparr>))
                   | (True, a2) \<Rightarrow>
                       (if hm_contains (pending_work (reg st)) tid
                        then (if io (new_ready [] 0 0)
                              then (out @ [new_ready [] 0 0], Inr (),
                                    st1\<lparr>auth := a2, reg := snd (complete_tunnel tid stream (reg st))\<rparr>)
                              else (out, Inl WriteFailed,
                                    st1\<lparr>auth := a2, reg := cancel_pending_tunnel tid (reg st)\<rparr>))
                        else (let e = new_reject tid ''no pending work''
                              in (out @ filter io [e], Inl (if io e then NoPendingWork else WriteFailed),
                                  st1\<lparr>auth := a2\<rparr>)))))"

section \<open>Visitors\<close>

definition handle_visitor_connection ::
  "(string \<Rightarrow> string \<Rightarrow> string) \<Rightarrow> (message \<Rightarrow> bool) \<Rightarrow> entropy \<Rightarrow> message \<Rightarrow> message option \<Rightarrow> 's control \<Rightarrow> 's outcome" where
  "handle_visitor_connection mac io en first_msg reply st =
     (let cid = default_str (m_client_id first_msg); vid = default_str (m_id first_msg);
          key = ''visitor:'' @ vid;
          a1 = snd (create_challenge (nonce en) (t_insert en) (t_cleanup en) key (auth st));
          st1 = st\<lparr>auth := a1\<rparr>; challenge = new_challenge (nonce en);
          asked = (case m_proof first_msg of
                     Some p \<Rightarrow> ([], Inr (Some p))
                   | None \<Rightarrow> if \<not> io challenge then ([], Inl WriteFailed)
                             else ([challenge], Inr (case reply of None \<Rightarrow> None | Some am \<Rightarrow> m_proof am)))
      in case asked of
           (out, Inl e) \<Rightarrow> (out, Inl e, st1)
         | (out, Inr None) \<Rightarrow> (out, Inl VisitorAuthFailed, st1)
         | (out, Inr (Some p)) \<Rightarrow>
             (case verify mac key ''visitor'' cid vid p a1 of
                (ok, a2) \<Rightarrow> (out, if ok then Inr () else Inl VisitorAuthFailed, st1\<lparr>auth := a2\<rparr>)))"

section \<open>The first message\<close>

definition handle_connection ::
  "(string \<Rightarrow> string \<Rightarrow> string) \<Rightarrow> (string \<Rightarrow> message option) \<Rightarrow> (string \<Rightarrow> string) \<Rightarrow> os \<Rightarrow> (message \<Rightarrow> bool) \<Rightarrow> entropy \<Rightarrow> nat \<Rightarrow> chan \<Rightarrow> nat \<Rightarrow> u16 \<Rightarrow> u16 \<Rightarrow> 's
    \<Rightarrow> message \<Rightarrow> message option \<Rightarrow> (nat \<times> session_event) list \<Rightarrow> 's control \<Rightarrow> 's outcome" where
  "handle_connection mac parse kept sys io en now tx h qport qtport stream first_msg reply evs st =
     (if m_ty first_msg = ''client''
      then handle_control_session mac parse kept sys io en now tx h qport qtport first_msg reply evs st
      else if m_ty first_msg = ''tunnel'' then handle_tunnel_connection mac io en stream first_msg reply st
      else if m_ty first_msg = ''visitor'' then handle_visitor_connection mac io en first_msg reply st
      else ([], Inr (), st))"

end
