(* ===== verification/Inbound.thy ===== *)
theory Inbound
  imports Control_Session
begin

text \<open>
  Public connections (\<^verbatim>\<open>handle_inbound_tcp\<close> and what it calls, \<^verbatim>\<open>cross233-server/src/control.rs\<close>): admission,
  the capture of the request of a static service, the relay of its response over the control
  channel, and the fall-back to a tunnel.
\<close>

section \<open>Admission\<close>

definition admit :: "service_entry \<Rightarrow> string + unit" where
  "admit e =
     (if \<not> enabled e \<or> \<not> healthy e then Inl ''service not available''
      else if max_connections (config e) > 0 \<and> current_conns e \<ge> unat (max_connections (config e))
      then Inl ''max connections reached'' else Inr ())"

text \<open>The counter is read, checked and then incremented; the entry is shared, so it is named by its
  place in the store.\<close>

definition update_store :: "nat \<Rightarrow> (service_entry \<Rightarrow> service_entry) \<Rightarrow> 's registry \<Rightarrow> 's registry" where
  "update_store i f r = r\<lparr>store := (store r)[i := f (store r ! i)]\<rparr>"

definition enter_conn :: "nat \<Rightarrow> 's registry \<Rightarrow> 's registry" where
  "enter_conn i r = update_store i (\<lambda>e. e\<lparr>current_conns := current_conns e + 1\<rparr>) r"

definition leave_conn :: "nat \<Rightarrow> 's registry \<Rightarrow> 's registry" where
  "leave_conn i r = update_store i (\<lambda>e. e\<lparr>current_conns := current_conns e - 1\<rparr>) r"

datatype route = StaticRoute | TunnelRoute

definition choose_route :: "service_entry \<Rightarrow> route" where
  "choose_route e = (if effective_type (config e) = ''static'' \<and> \<not> proxy_protocol (config e) then StaticRoute else TunnelRoute)"

text \<open>What happens to a connection accepted on a port: the entry it is counted on and the way it goes,
  or the reason it is dropped.\<close>

definition handle_inbound_tcp :: "u16 \<Rightarrow> 's registry \<Rightarrow> (string + nat \<times> route) \<times> 's registry" where
  "handle_inbound_tcp p r =
     (case get_service_name_by_port p r of
        None \<Rightarrow> (Inl ''no registered service'', r)
      | Some name \<Rightarrow>
          (case get_service_by_name name r of
             None \<Rightarrow> (Inl ''service not found'', r)
           | Some i \<Rightarrow>
               (case admit (store r ! i) of
                  Inl e \<Rightarrow> (Inl e, r)
                | Inr _ \<Rightarrow> (Inr (i, choose_route (store r ! i)), enter_conn i r))))"

section \<open>The request of a static service\<close>

record static_request_capture =
  control_request :: "bytes option"
  replay :: bytes

text \<open>What a read of the connection gives: bytes (none at the end of the stream), the deadline, or
  an error. The list of reads ends when the deadline has passed.\<close>

datatype inbound_read = Got bytes | Deadline | ReadError

abbreviation crlf2 :: bytes where "crlf2 \<equiv> [0x0D, 0x0A, 0x0D, 0x0A]"

fun header_end :: "nat \<Rightarrow> bytes \<Rightarrow> nat option" where
  "header_end i [] = None"
| "header_end i (b # bs) = (if take 4 (b # bs) = crlf2 then Some (i + 4) else header_end (i + 1) bs)"

fun capture_loop :: "bytes \<Rightarrow> inbound_read list \<Rightarrow> unit + static_request_capture" where
  "capture_loop acc [] = Inr \<lparr>control_request = None, replay = acc\<rparr>"
| "capture_loop acc (Deadline # rs) = Inr \<lparr>control_request = None, replay = acc\<rparr>"
| "capture_loop acc (ReadError # rs) = Inl ()"
| "capture_loop acc (Got b # rs) =
     (if b = [] then Inr \<lparr>control_request = None, replay = acc\<rparr>
      else let acc' = acc @ b
           in case header_end 0 acc' of
                Some e \<Rightarrow> if e \<le> STATIC_RESPONSE_CHUNK_MAX
                  then Inr \<lparr>control_request = Some (take e acc'), replay = acc'\<rparr>
                  else if length acc' \<ge> STATIC_RESPONSE_CHUNK_MAX
                  then Inr \<lparr>control_request = None, replay = acc'\<rparr> else capture_loop acc' rs
              | None \<Rightarrow> if length acc' \<ge> STATIC_RESPONSE_CHUNK_MAX
                  then Inr \<lparr>control_request = None, replay = acc'\<rparr> else capture_loop acc' rs)"

definition capture_static_request_headers :: "inbound_read list \<Rightarrow> unit + static_request_capture" where
  "capture_static_request_headers rs = capture_loop [] rs"

section \<open>The response over the control channel\<close>

text \<open>What the relay receives: a chunk, the end of the queue, or silence for too long.\<close>

datatype relay_event = Chunk chunk | Ended | Silent

datatype relay_result = Relayed | FallBack | RelayFailed string

text \<open>The loop after the first chunk: the bytes written to the peer (writing succeeds while \<open>wr\<close> says
  so) and how it ends.\<close>

fun relay_loop :: "(bytes \<Rightarrow> bool) \<Rightarrow> bytes \<Rightarrow> bool \<Rightarrow> relay_event list \<Rightarrow> relay_result \<times> bytes" where
  "relay_loop wr sent True rs = (Relayed, sent)"
| "relay_loop wr sent False [] = (RelayFailed ''static control response idle timeout'', sent)"
| "relay_loop wr sent False (Silent # rs) = (RelayFailed ''static control response idle timeout'', sent)"
| "relay_loop wr sent False (Ended # rs) = (RelayFailed ''static control response ended before eof'', sent)"
| "relay_loop wr sent False (Chunk c # rs) =
     (if wr (chunk_data c) then relay_loop wr (sent @ chunk_data c) (chunk_eof c) rs
      else (RelayFailed ''write error'', sent))"

text \<open>\<^verbatim>\<open>relay_static_control_response\<close> after its request got through: what it writes to the peer, its result, and
  the registry, from which a response that does not complete is removed.\<close>

definition relay_responses ::
  "(bytes \<Rightarrow> bool) \<Rightarrow> string \<Rightarrow> string \<Rightarrow> bytes \<Rightarrow> relay_event list \<Rightarrow> 's registry \<Rightarrow> relay_result \<times> bytes \<times> 's registry" where
  "relay_responses wr i name request rs r =
     (case rs of
        Chunk c # rest \<Rightarrow>
          if chunk_data c = [] then (FallBack, [], cancel_static_response i r)
          else if \<not> wr (chunk_data c) then (RelayFailed ''write error'', [], cancel_static_response i r)
          else (case relay_loop wr (chunk_data c) (chunk_eof c) rest of
                  (Relayed, sent) \<Rightarrow> (Relayed, sent, record_traffic name (of_nat (length sent)) (of_nat (length request)) r)
                | (res, sent) \<Rightarrow> (res, sent, cancel_static_response i r))
      | _ \<Rightarrow> (FallBack, [], cancel_static_response i r))"

section \<open>The tunnel\<close>

text \<open>What is written to the tunnel before the two directions are copied: the PROXY header, when the
  service wants one and the local address is known, and the bytes already read.\<close>

definition tunnel_preamble :: "service_entry \<Rightarrow> socket_addr \<Rightarrow> socket_addr option \<Rightarrow> bytes \<Rightarrow> bytes" where
  "tunnel_preamble e src dst rep =
     (if proxy_protocol (config e)
      then (case dst of
              Some d \<Rightarrow> build_header_server
                (case proxy_protocol_version (config e) of None \<Rightarrow> ''v1'' | Some v \<Rightarrow> v) src d
            | None \<Rightarrow> [])
      else []) @ rep"

section \<open>The handlers\<close>

text \<open>While a handler waits, other tasks work on the registry: \<open>meanwhile\<close> is what they do to it. The random
  identifiers are arguments, and so is the result of the two-way copy. A handler ends with its result,
  what it wrote to the peer, what it wrote to the tunnel before the copy, and the registry.\<close>

definition relay_inbound_tunnel ::
  "string \<Rightarrow> ('s registry \<Rightarrow> 's registry) \<Rightarrow> (bytes \<Rightarrow> bool) \<Rightarrow> (u64 \<times> u64) option \<Rightarrow> string \<Rightarrow> service_entry
    \<Rightarrow> socket_addr \<Rightarrow> socket_addr option \<Rightarrow> bytes \<Rightarrow> 's registry \<Rightarrow> (string + unit) \<times> bytes \<times> 's registry" where
  "relay_inbound_tunnel tid meanwhile wr copied name e src dst rep r =
     (case open_tunnel_begin tid e (Some src) dst r of
        (Inl err, r1) \<Rightarrow> (Inl err, [], r1)
      | (Inr n, r1) \<Rightarrow>
          (case open_tunnel_end tid n (meanwhile r1) of
             (Inl err, r2) \<Rightarrow> (Inl err, [], r2)
           | (Inr t, r2) \<Rightarrow>
               let pre = tunnel_preamble e src dst rep
               in if \<not> wr pre then (Inl ''write error'', [], r2)
                  else (case copied of
                          None \<Rightarrow> (Inl ''copy error'', pre, r2)
                        | Some (sent, received) \<Rightarrow> (Inr (), pre, record_traffic name sent received r2))))"

definition relay_static_control_response ::
  "string \<Rightarrow> ('s registry \<Rightarrow> 's registry) \<Rightarrow> (bytes \<Rightarrow> bool) \<Rightarrow> relay_event list \<Rightarrow> string \<Rightarrow> service_entry \<Rightarrow> bytes
    \<Rightarrow> 's registry \<Rightarrow> relay_result \<times> bytes \<times> 's registry" where
  "relay_static_control_response rid meanwhile wr evs name e request r =
     (case request_static_response rid e request r of
        (Inl _, r1) \<Rightarrow> (FallBack, [], r1)
      | (Inr (i, q), r1) \<Rightarrow> relay_responses wr i name request evs (meanwhile r1))"

text \<open>A client can reconnect after the header was read, so the fall-back looks the service up again.\<close>

definition handle_static_inbound ::
  "string \<times> string \<Rightarrow> ('s registry \<Rightarrow> 's registry) \<Rightarrow> (bytes \<Rightarrow> bool) \<Rightarrow> inbound_read list \<Rightarrow> relay_event list
    \<Rightarrow> (u64 \<times> u64) option \<Rightarrow> string \<Rightarrow> service_entry \<Rightarrow> socket_addr \<Rightarrow> socket_addr option \<Rightarrow> 's registry
    \<Rightarrow> (string + unit) \<times> bytes \<times> bytes \<times> 's registry" where
  "handle_static_inbound ids meanwhile wr reads evs copied name e src dst r =
     (case capture_static_request_headers reads of
        Inl _ \<Rightarrow> (Inl ''read error'', [], [], r)
      | Inr c \<Rightarrow>
          (case (case control_request c of
                   None \<Rightarrow> (FallBack, [], r)
                 | Some q \<Rightarrow> relay_static_control_response (fst ids) meanwhile wr evs name e q r) of
             (Relayed, sent, r1) \<Rightarrow> (Inr (), sent, [], r1)
           | (RelayFailed err, sent, r1) \<Rightarrow> (Inl err, sent, [], r1)
           | (FallBack, sent, r1) \<Rightarrow>
               (case get_service_by_name name r1 of
                  None \<Rightarrow> (Inl ''service disconnected before tunnel fallback'', sent, [], r1)
                | Some i \<Rightarrow>
                    (case relay_inbound_tunnel (snd ids) meanwhile wr copied name (store r1 ! i) src dst (replay c) r1 of
                       (res, tun, r2) \<Rightarrow> (res, sent, tun, r2)))))"

section \<open>Nothing of a request is lost\<close>

lemma header_end_Some:
  "header_end i bs = Some e \<Longrightarrow> \<exists>k. e = i + k + 4 \<and> take 4 (drop k bs) = crlf2 \<and> k + 4 \<le> length bs
     \<and> (\<forall>j < k. take 4 (drop j bs) \<noteq> crlf2)"
proof (induction i bs rule: header_end.induct)
  case (2 i b bs)
  show ?case
  proof (cases "take 4 (b # bs) = crlf2")
    case True
    then have "length (take 4 (b # bs)) = 4" by simp
    then have "4 \<le> length (b # bs)" by simp
    with 2 True show ?thesis by (intro exI[of _ 0]) auto
  next
    case False
    with 2 obtain k where k: "e = i + 1 + k + 4" "take 4 (drop k bs) = crlf2" "k + 4 \<le> length bs"
      "\<forall>j < k. take 4 (drop j bs) \<noteq> crlf2" by auto
    have "\<forall>j < Suc k. take 4 (drop j (b # bs)) \<noteq> crlf2"
      using False k(4) by (auto simp: less_Suc_eq_0_disj)
    with k show ?thesis by (intro exI[of _ "Suc k"]) auto
  qed
qed simp

text \<open>The bytes of the reads up to and including the last one that the capture looked at.\<close>

fun got :: "inbound_read list \<Rightarrow> bytes" where
  "got [] = []"
| "got (Got b # rs) = b @ got rs"
| "got (r # rs) = got rs"

lemma capture_loop_replay:
  "capture_loop acc rs = Inr c \<Longrightarrow> \<exists>n. replay c = acc @ got (take n rs)
     \<and> (\<forall>q. control_request c = Some q \<longrightarrow> length q \<le> STATIC_RESPONSE_CHUNK_MAX \<and>
          (\<exists>rest. replay c = q @ rest) \<and> header_end 0 (replay c) = Some (length q))"
proof (induction acc rs rule: capture_loop.induct)
  case (4 acc b rs)
  show ?case
  proof (cases "b = [] \<or> (\<exists>e. header_end 0 (acc @ b) = Some e \<and> e \<le> STATIC_RESPONSE_CHUNK_MAX)
      \<or> STATIC_RESPONSE_CHUNK_MAX \<le> length (acc @ b)")
    case True
    then have "replay c = acc @ b" using 4(3) by (auto simp: Let_def split: option.splits if_splits)
    moreover have "length q \<le> STATIC_RESPONSE_CHUNK_MAX \<and> (\<exists>rest. replay c = q @ rest) \<and> header_end 0 (replay c) = Some (length q)"
      if cr: "control_request c = Some q" for q
    proof -
      obtain e where e: "header_end 0 (acc @ b) = Some e" "e \<le> STATIC_RESPONSE_CHUNK_MAX" "q = take e (acc @ b)" "replay c = acc @ b"
        using 4(3) cr True by (auto simp: Let_def split: option.splits if_splits)
      have "e \<le> length (acc @ b)" using header_end_Some[OF e(1)] by auto
      then have "length q = e" using e(3) by simp
      moreover have "acc @ b = q @ drop e (acc @ b)" unfolding e(3) by (rule append_take_drop_id[symmetric])
      ultimately show ?thesis using e by metis
    qed
    ultimately show ?thesis by (intro exI[of _ 1]) auto
  next
    case False
    then have c: "capture_loop (acc @ b) rs = Inr c" using 4(3) by (auto simp: Let_def split: option.splits if_splits)
    have "\<exists>n. replay c = (acc @ b) @ got (take n rs)
       \<and> (\<forall>q. control_request c = Some q \<longrightarrow> length q \<le> STATIC_RESPONSE_CHUNK_MAX \<and>
          (\<exists>rest. replay c = q @ rest) \<and> header_end 0 (replay c) = Some (length q))"
      using False 4(1,2) c by (cases "header_end 0 (acc @ b)") auto
    then obtain n where "replay c = (acc @ b) @ got (take n rs)"
      "\<forall>q. control_request c = Some q \<longrightarrow> length q \<le> STATIC_RESPONSE_CHUNK_MAX \<and>
        (\<exists>rest. replay c = q @ rest) \<and> header_end 0 (replay c) = Some (length q)" by blast
    then show ?thesis by (intro exI[of _ "Suc n"]) simp
  qed
qed (auto intro: exI[of _ 0])

text \<open>Whatever way the peer's bytes arrive, and wherever reading stops, what is kept for the tunnel is
  exactly what was read. What goes to the client over the control channel is the request up to its
  first empty line, of at most 8 KiB.\<close>

theorem capture_lossless:
  assumes "capture_static_request_headers rs = Inr c"
  shows "(\<exists>n. replay c = got (take n rs))
    \<and> (\<not> proxy_protocol (config e) \<longrightarrow> tunnel_preamble e src dst (replay c) = replay c)
    \<and> (\<forall>q. control_request c = Some q \<longrightarrow> length q \<le> 8 * 1024 \<and> (\<exists>rest. replay c = q @ rest)
         \<and> (\<exists>k. length q = k + 4 \<and> take 4 (drop k q) = crlf2 \<and> (\<forall>j < k. take 4 (drop j q) \<noteq> crlf2)))"
proof -
  obtain n where n: "replay c = got (take n rs)"
    "\<forall>q. control_request c = Some q \<longrightarrow> length q \<le> STATIC_RESPONSE_CHUNK_MAX \<and>
          (\<exists>rest. replay c = q @ rest) \<and> header_end 0 (replay c) = Some (length q)"
    using capture_loop_replay[of "[]" rs c] assms by (auto simp: capture_static_request_headers_def)
  have "\<exists>k. length q = k + 4 \<and> take 4 (drop k q) = crlf2 \<and> (\<forall>j < k. take 4 (drop j q) \<noteq> crlf2)"
    if "control_request c = Some q" for q
  proof -
    from n(2) that obtain rest where q: "replay c = q @ rest" "header_end 0 (replay c) = Some (length q)" by blast
    from header_end_Some[OF q(2)] obtain k where k: "length q = k + 4" "take 4 (drop k (replay c)) = crlf2"
      "\<forall>j < k. take 4 (drop j (replay c)) \<noteq> crlf2" by auto
    have "take 4 (drop j (replay c)) = take 4 (drop j q)" if "j \<le> k" for j
      using that k(1) q(1) by simp
    with k show ?thesis by (intro exI[of _ k]) auto
  qed
  with n show ?thesis by (auto simp: tunnel_preamble_def static_consts)
qed

text \<open>A relay that gives up in favour of the tunnel has written nothing.\<close>

lemma relay_fallback_silent:
  assumes "relay_static_control_response rid mw wr evs name e q r = (FallBack, sent, r')"
  shows "sent = []"
proof -
  have "fst (relay_loop wr s b es) \<noteq> FallBack" for s b es
    by (induction wr s b es rule: relay_loop.induct) auto
  then have "relay_loop wr s b es \<noteq> (FallBack, x)" for s b es x by (metis fst_conv)
  with assms show ?thesis
    by (auto simp: relay_static_control_response_def relay_responses_def
        split: prod.splits sum.splits list.splits relay_event.splits if_splits relay_result.splits)
qed



section \<open>The limit on connections\<close>

text \<open>The counter is checked and then incremented in a separate step. A connection that is checked
  after another was counted is turned away at the limit; two that are both checked before either is
  counted are both let in and exceed it.\<close>

theorem max_connections_race:
  assumes "i < length (store r)" "admit (store r ! i) = Inr ()"
    and "unat (max_connections (config (store r ! i))) = current_conns (store r ! i) + 1"
  shows "admit (store (enter_conn i r) ! i) = Inl ''max connections reached''
    \<and> current_conns (store (enter_conn i (enter_conn i r)) ! i) > unat (max_connections (config (store r ! i)))"
proof -
  have "0 < max_connections (config (store r ! i))"
    using assms(3) by (metis Suc_eq_plus1 old.nat.distinct(2) unat_0 word_gt_0)
  then show ?thesis
    using assms by (auto simp: admit_def enter_conn_def update_store_def split: if_splits)
qed

end
