(* ===== verification/Static_Files.thy ===== *)
theory Static_Files
  imports Rust_Strings
begin

text \<open>
  The client's static file server (\<^verbatim>\<open>cross233-client/src/static_files.rs\<close>): parsing of the request,
  decoding and resolution of the path, and the responses, over a tunnel and over the control
  channel. Byte strings are HOL strings. A path is the list of its components below the file system's
  root. The file system is a parameter, and so is the MIME table of the \<^verbatim>\<open>mime_guess\<close> package.
\<close>

definition MAX_HEADER_BYTES :: nat where "MAX_HEADER_BYTES = 16 * 1024"
definition CONTROL_RESPONSE_CHUNK_BYTES :: nat where "CONTROL_RESPONSE_CHUNK_BYTES = 8 * 1024"
definition MAX_CONTROL_RESPONSE_BYTES :: nat where "MAX_CONTROL_RESPONSE_BYTES = 16 * 1024 * 1024"

type_synonym path = "string list"

text \<open>What the code asks of the file system.\<close>

record fs =
  canonicalize_str :: "string \<Rightarrow> path option"
  canonicalize :: "path \<Rightarrow> path option"
  is_dir :: "path \<Rightarrow> bool"
  is_file :: "path \<Rightarrow> bool"
  file_len :: "path \<Rightarrow> nat"
  open_file :: "path \<Rightarrow> string option"

section \<open>Requests\<close>

abbreviation crlf :: string where "crlf \<equiv> [CHR 0x0D, CHR 0x0A]"

datatype request_error =
    IncompleteHeaders | NotUtf8 | MissingMethod | MissingTarget | MissingVersion
  | ClosedBeforeHeaders | HeadersTooLong

definition parse_request :: "string \<Rightarrow> request_error + string \<times> string" where
  "parse_request b =
     (if \<not> ends_with b (crlf @ crlf) then Inl IncompleteHeaders
      else if \<not> utf8_valid b then Inl NotUtf8
      else (case split_whitespace (hd (split_crlf b)) of
              [] \<Rightarrow> Inl MissingMethod
            | [_] \<Rightarrow> Inl MissingTarget
            | [_, _] \<Rightarrow> Inl MissingVersion
            | meth # target # _ # _ \<Rightarrow> Inr (to_ascii_uppercase meth, target)))"

text \<open>\<^verbatim>\<open>read_request\<close> reads byte by byte up to the blank line; the rest of the input is left.\<close>

fun read_request_loop :: "string \<Rightarrow> string \<Rightarrow> nat \<Rightarrow> request_error + string \<times> string" where
  "read_request_loop acc input 0 = Inl HeadersTooLong"
| "read_request_loop acc [] (Suc n) = Inl ClosedBeforeHeaders"
| "read_request_loop acc (c # input) (Suc n) =
     (if ends_with (acc @ [c]) (crlf @ crlf) then parse_request (acc @ [c])
      else read_request_loop (acc @ [c]) input n)"

definition read_request :: "string \<Rightarrow> request_error + string \<times> string" where
  "read_request input = read_request_loop [] input MAX_HEADER_BYTES"

section \<open>Paths\<close>

datatype path_error = BadRequest | NotFound

definition hex_value :: "char \<Rightarrow> nat option" where
  "hex_value c = (let v = byte c
     in if 48 \<le> v \<and> v \<le> 57 then Some (v - 48)
        else if 97 \<le> v \<and> v \<le> 102 then Some (v - 97 + 10)
        else if 65 \<le> v \<and> v \<le> 70 then Some (v - 65 + 10) else None)"

fun percent_loop :: "string \<Rightarrow> string option" where
  "percent_loop [] = Some []"
| "percent_loop (c # s) =
     (if c = CHR ''%'' then
        (case s of
           h # l # t \<Rightarrow> (case (hex_value h, hex_value l) of
               (Some a, Some b) \<Rightarrow> map_option (Cons (char_of (a * 16 + b))) (percent_loop t)
             | _ \<Rightarrow> None)
         | _ \<Rightarrow> None)
      else map_option (Cons c) (percent_loop s))"

definition percent_decode :: "string \<Rightarrow> string option" where
  "percent_decode input =
     (case percent_loop input of
        None \<Rightarrow> None
      | Some out \<Rightarrow> if utf8_valid out then Some out else None)"

datatype component = Normal string | CurDir | ParentDir

text \<open>\<^verbatim>\<open>Path::components\<close> of a relative path: empty pieces and inner dots disappear, a leading dot is
  \<^verbatim>\<open>CurDir\<close>.\<close>

definition piece :: "string \<Rightarrow> component list" where
  "piece w = (if w = [] \<or> w = ''.'' then [] else if w = ''..'' then [ParentDir] else [Normal w])"

definition components :: "string \<Rightarrow> component list" where
  "components s =
     (let ws = split_char (CHR ''/'') s
      in (if hd ws = ''.'' then [CurDir] else []) @ concat (map piece ws))"

fun relative_path :: "component list \<Rightarrow> path_error + path" where
  "relative_path [] = Inr []"
| "relative_path (Normal w # cs) =
     (case relative_path cs of Inl e \<Rightarrow> Inl e | Inr p \<Rightarrow> Inr (w # p))"
| "relative_path (CurDir # cs) = relative_path cs"
| "relative_path (ParentDir # cs) = Inl BadRequest"

definition trim_start_slashes :: "string \<Rightarrow> string" where
  "trim_start_slashes s = dropWhile (\<lambda>c. c = CHR ''/'') s"

text \<open>\<^verbatim>\<open>resolve_path\<close>, up to the path that is handed to the file system.\<close>

definition candidate_path :: "fs \<Rightarrow> path \<Rightarrow> string \<Rightarrow> path_error + path" where
  "candidate_path f base target =
     (let raw = (case split_once (CHR ''?'') target of None \<Rightarrow> target | Some (p, _) \<Rightarrow> p)
      in if \<not> starts_with raw ''/'' then Inl BadRequest
         else (case percent_decode raw of
                 None \<Rightarrow> Inl BadRequest
               | Some decoded \<Rightarrow>
                   if CHR 0x00 \<in> set decoded \<or> CHR 0x5C \<in> set decoded then Inl BadRequest
                   else (case relative_path (components (trim_start_slashes decoded)) of
                           Inl e \<Rightarrow> Inl e
                         | Inr rel \<Rightarrow>
                             let cand = base @ rel
                             in Inr (if ends_with decoded ''/'' \<or> is_dir f cand
                                     then cand @ [''index.html''] else cand))))"

definition path_starts_with :: "path \<Rightarrow> path \<Rightarrow> bool" where
  "path_starts_with p base \<longleftrightarrow> take (length base) p = base"

definition resolve_path :: "fs \<Rightarrow> path \<Rightarrow> string \<Rightarrow> path_error + path" where
  "resolve_path f base target =
     (case candidate_path f base target of
        Inl e \<Rightarrow> Inl e
      | Inr cand \<Rightarrow> (case canonicalize f cand of
            None \<Rightarrow> Inl NotFound
          | Some p \<Rightarrow> if \<not> path_starts_with p base \<or> \<not> is_file f p then Inl NotFound else Inr p))"

section \<open>Responses\<close>

definition error_response :: "nat \<Rightarrow> string \<Rightarrow> string \<Rightarrow> string" where
  "error_response status reason body =
     ''HTTP/1.1 '' @ show_nat status @ '' '' @ reason @ crlf
     @ ''Content-Length: '' @ show_nat (length body) @ crlf
     @ ''Content-Type: text/plain; charset=utf-8'' @ crlf @ ''Connection: close'' @ crlf @ crlf @ body"

definition ok_headers :: "nat \<Rightarrow> string \<Rightarrow> string" where
  "ok_headers len content_type =
     ''HTTP/1.1 200 OK'' @ crlf @ ''Content-Length: '' @ show_nat len @ crlf
     @ ''Content-Type: '' @ content_type @ crlf @ ''X-Content-Type-Options: nosniff'' @ crlf
     @ ''Connection: close'' @ crlf @ crlf"

datatype control_response = Bytes string | File string path

text \<open>The steps that both servers share: what to answer for a method and a target.\<close>

datatype lookup = Refused string | Found path

definition lookup_target :: "fs \<Rightarrow> string \<Rightarrow> string \<Rightarrow> string \<Rightarrow> lookup" where
  "lookup_target f base meth target =
     (if meth \<noteq> ''GET'' \<and> meth \<noteq> ''HEAD''
      then Refused (error_response 405 ''Method Not Allowed'' ''only GET and HEAD are supported'')
      else (case canonicalize_str f base of
              None \<Rightarrow> Refused (error_response 500 ''Internal Server Error'' ''static root is unavailable'')
            | Some r \<Rightarrow>
                if \<not> is_dir f r
                then Refused (error_response 500 ''Internal Server Error'' ''static root is not a directory'')
                else (case resolve_path f r target of
                        Inl BadRequest \<Rightarrow> Refused (error_response 400 ''Bad Request'' ''invalid path'')
                      | Inl NotFound \<Rightarrow> Refused (error_response 404 ''Not Found'' ''not found'')
                      | Inr p \<Rightarrow> if is_file f p then Found p
                                else Refused (error_response 404 ''Not Found'' ''not found''))))"

definition prepare_control_response :: "fs \<Rightarrow> (path \<Rightarrow> string) \<Rightarrow> string \<Rightarrow> string \<Rightarrow> control_response" where
  "prepare_control_response f mime base request =
     (case parse_request request of
        Inl _ \<Rightarrow> Bytes (error_response 400 ''Bad Request'' ''bad request'')
      | Inr (meth, target) \<Rightarrow>
          (case lookup_target f base meth target of
             Refused e \<Rightarrow> Bytes e
           | Found p \<Rightarrow>
               if file_len f p > MAX_CONTROL_RESPONSE_BYTES
               then Bytes (error_response 413 ''Payload Too Large'' ''static response exceeds control relay limit'')
               else let headers = ok_headers (file_len f p) (mime p)
                    in if meth = ''HEAD'' then Bytes headers
                       else (case open_file f p of
                               Some _ \<Rightarrow> File headers p
                             | None \<Rightarrow> Bytes (error_response 404 ''Not Found'' ''not found''))))"

text \<open>What \<^verbatim>\<open>serve\<close> writes to the tunnel, and whether it ends in an error.\<close>

definition serve :: "fs \<Rightarrow> (path \<Rightarrow> string) \<Rightarrow> string \<Rightarrow> string \<Rightarrow> string \<times> bool" where
  "serve f mime base input =
     (case read_request input of
        Inl _ \<Rightarrow> (error_response 400 ''Bad Request'' ''bad request'', False)
      | Inr (meth, target) \<Rightarrow>
          (case lookup_target f base meth target of
             Refused e \<Rightarrow> (e, True)
           | Found p \<Rightarrow>
               let headers = ok_headers (file_len f p) (mime p)
               in if meth = ''GET''
                  then (case open_file f p of
                          Some content \<Rightarrow> (headers @ content, True)
                        | None \<Rightarrow> (headers, False))
                  else (headers, True)))"

section \<open>Confinement\<close>

text \<open>A component that stays where it is put.\<close>

definition plain_component :: "string \<Rightarrow> bool" where
  "plain_component w \<longleftrightarrow> w \<noteq> [] \<and> w \<noteq> ''.'' \<and> w \<noteq> ''..'' \<and> CHR ''/'' \<notin> set w"

lemma relative_path_plain:
  "relative_path cs = Inr p \<Longrightarrow> (\<And>w. Normal w \<in> set cs \<Longrightarrow> plain_component w) \<Longrightarrow> list_all plain_component p"
  by (induction cs arbitrary: p rule: relative_path.induct) (auto split: sum.splits)

lemma components_plain: "Normal w \<in> set (components s) \<Longrightarrow> plain_component w"
  by (auto simp: components_def piece_def plain_component_def Let_def split: if_splits
      dest: split_char_no_delim)

lemma candidate_confined:
  assumes "candidate_path f base target = Inr cand"
  obtains rel where "cand = base @ rel" "list_all plain_component rel"
proof -
  obtain decoded rel where rel: "relative_path (components (trim_start_slashes decoded)) = Inr rel"
    and cand: "cand = base @ rel \<or> cand = base @ rel @ [''index.html'']"
    using assms by (auto simp: candidate_path_def Let_def split: option.splits if_splits sum.splits)
  have "list_all plain_component rel"
    by (rule relative_path_plain[OF rel components_plain])
  moreover have "plain_component ''index.html''" by (simp add: plain_component_def)
  ultimately have "list_all plain_component rel" "list_all plain_component (rel @ [''index.html''])"
    by simp_all
  with cand that show ?thesis by blast
qed

text \<open>What may be served: the file that plain names below the canonical root resolve to, if it lies
  below that root.\<close>

definition servable :: "fs \<Rightarrow> string \<Rightarrow> path \<Rightarrow> bool" where
  "servable f base p \<longleftrightarrow> (\<exists>r rel below. canonicalize_str f base = Some r \<and> is_dir f r
     \<and> list_all plain_component rel \<and> canonicalize f (r @ rel) = Some p \<and> p = r @ below \<and> is_file f p)"

lemma resolve_path_confined:
  assumes "resolve_path f r target = Inr p"
  shows "\<exists>rel below. list_all plain_component rel \<and> canonicalize f (r @ rel) = Some p \<and> p = r @ below \<and> is_file f p"
proof -
  obtain cand where c: "candidate_path f r target = Inr cand" "canonicalize f cand = Some p"
    "path_starts_with p r" "is_file f p"
    using assms by (auto simp: resolve_path_def split: sum.splits option.splits if_splits)
  obtain rel where "cand = r @ rel" "list_all plain_component rel"
    by (rule candidate_confined[OF c(1)])
  moreover have "p = r @ drop (length r) p"
    using c(3) by (metis append_take_drop_id path_starts_with_def)
  ultimately show ?thesis using c by blast
qed

lemma lookup_servable: "lookup_target f base meth target = Found p \<Longrightarrow> servable f base p"
  by (auto simp: lookup_target_def servable_def split: if_splits option.splits sum.splits path_error.splits
      dest!: resolve_path_confined)

lemma lookup_refused: "lookup_target f base meth target = Refused e \<Longrightarrow> \<exists>s r b. e = error_response s r b"
  by (auto simp: lookup_target_def split: if_splits option.splits sum.splits path_error.splits)


section \<open>Percent encoding and service of a file\<close>

text \<open>How a user agent writes a path: every byte outside the unreserved set becomes a percent triple.\<close>

definition unreserved :: "char \<Rightarrow> bool" where
  "unreserved c \<longleftrightarrow> (let v = byte c in (48 \<le> v \<and> v \<le> 57) \<or> (65 \<le> v \<and> v \<le> 90) \<or> (97 \<le> v \<and> v \<le> 122)
     \<or> v = 45 \<or> v = 46 \<or> v = 47 \<or> v = 95 \<or> v = 126)"

definition nibble_char :: "nat \<Rightarrow> char" where
  "nibble_char d = char_of (if d < 10 then 48 + d else 55 + d)"

definition percent_encode :: "string \<Rightarrow> string" where
  "percent_encode s = concat (map (\<lambda>c. if unreserved c then [c]
     else [CHR ''%'', nibble_char (byte c div 16), nibble_char (byte c mod 16)]) s)"

lemma byte_char_of [simp]: "n < 256 \<Longrightarrow> byte (char_of n) = n"
  by (simp add: byte_def)

lemma char_of_byte [simp]: "char_of (byte c) = c"
  by (simp add: byte_def)

lemma byte_nibble_char: "d < 16 \<Longrightarrow> byte (nibble_char d) = (if d < 10 then 48 + d else 55 + d)"
  by (simp add: nibble_char_def)

lemma hex_value_nibble_char [simp]: "d < 16 \<Longrightarrow> hex_value (nibble_char d) = Some d"
  by (simp add: hex_value_def byte_nibble_char Let_def)

lemma unreserved_not_percent: "unreserved c \<Longrightarrow> c \<noteq> CHR ''%''"
  by (auto simp: unreserved_def byte_def Let_def)

lemma nibble_less [simp]: "byte c div 16 < 16"
proof -
  have "byte c < 16 * 16" using byte_less[of c] by (simp only: numeral_times_numeral) simp
  then show ?thesis by (rule less_mult_imp_div_less)
qed

lemma nibbles [simp]: "byte c div 16 * 16 + byte c mod 16 = byte c"
  by (simp add: mult.commute)

lemma percent_loop_encode: "percent_loop (percent_encode s) = Some s"
proof (induction s)
  case (Cons c s)
  from Cons show ?case using unreserved_not_percent[of c] by (simp add: percent_encode_def)
qed (simp add: percent_encode_def)

lemma encoded_char:
  "c \<in> set (percent_encode s) \<Longrightarrow> unreserved c \<or> c = CHR ''%''"
proof -
  assume "c \<in> set (percent_encode s)"
  then obtain d where "unreserved c \<or> c = CHR ''%'' \<or> c = nibble_char (byte d div 16) \<or> c = nibble_char (byte d mod 16)"
    by (auto simp: percent_encode_def split: if_splits)
  moreover have "byte d mod 16 < 16" by simp
  ultimately have "unreserved c \<or> c = CHR ''%'' \<or> (\<exists>n < 16. c = nibble_char n)"
    using nibble_less by blast
  then show ?thesis by (auto simp: unreserved_def byte_nibble_char Let_def split: if_splits)
qed

lemma encoded_word: "list_all word_char (percent_encode s)"
  unfolding list_all_iff
proof
  fix c
  assume "c \<in> set (percent_encode s)"
  then have "unreserved c \<or> byte c = 37" by (auto dest!: encoded_char simp: byte_def)
  then show "word_char c" by (auto simp: word_char_def ws_ascii_def unreserved_def Let_def)
qed

lemma encoded_no_query: "CHR ''?'' \<notin> set (percent_encode s)"
  by (auto dest!: encoded_char simp: unreserved_def byte_def Let_def)

text \<open>A request line of three words in ASCII is read as its first two.\<close>

lemma word_char_ascii: "list_all word_char w \<Longrightarrow> \<forall>c \<in> set w. byte c < 0x80"
  by (auto simp: list_all_iff word_char_def)

lemma word_char_no_cr: "list_all word_char w \<Longrightarrow> CHR 0x0D \<notin> set w"
  by (auto simp: list_all_iff word_char_def ws_ascii_def byte_def)

lemma parse_request_line:
  assumes "list_all word_char w" "w \<noteq> []" "list_all word_char t" "t \<noteq> []" "list_all word_char v" "v \<noteq> []"
  shows "parse_request (w @ '' '' @ t @ '' '' @ v @ crlf @ crlf) = Inr (to_ascii_uppercase w, t)"
proof -
  let ?line = "w @ '' '' @ t @ '' '' @ v"
  let ?req = "w @ '' '' @ t @ '' '' @ v @ crlf @ crlf"
  have ascii: "\<forall>c \<in> set ?req. byte c < 0x80"
    using word_char_ascii[OF assms(1)] word_char_ascii[OF assms(3)] word_char_ascii[OF assms(5)]
    by (auto simp: byte_def)
  have "CHR 0x0D \<notin> set ?line"
    using word_char_no_cr[OF assms(1)] word_char_no_cr[OF assms(3)] word_char_no_cr[OF assms(5)] by simp
  from split_crlf_append[OF this, of crlf] have "hd (split_crlf ?req) = ?line" by simp
  moreover have "split_whitespace ?line = [w, t, v]"
    using assms by (simp add: split_whitespace_Cons split_whitespace_word)
  moreover have "ends_with ?req (crlf @ crlf)"
    using ends_with_append[of ?line "crlf @ crlf"] by simp
  ultimately show ?thesis
    unfolding parse_request_def using utf8_valid_ascii[OF ascii] by simp
qed

text \<open>The names of a path, each after a slash.\<close>

definition url_path :: "path \<Rightarrow> string" where
  "url_path p = concat (map (Cons (CHR ''/'')) p)"

lemma components_url_path:
  "list_all plain_component (w # p) \<Longrightarrow> components (w @ url_path p) = map Normal (w # p)"
proof -
  have "list_all plain_component (w # p) \<Longrightarrow> split_char (CHR ''/'') (w @ url_path p) = w # p" for w
  proof (induction p arbitrary: w)
    case Nil
    then show ?case by (simp add: url_path_def plain_component_def split_char_word)
  next
    case (Cons v p)
    have "split_char (CHR ''/'') (w @ CHR ''/'' # (v @ url_path p)) = w # split_char (CHR ''/'') (v @ url_path p)"
      using Cons.prems by (intro split_char_append) (simp add: plain_component_def)
    with Cons show ?case by (simp add: url_path_def)
  qed
  moreover have "list_all plain_component p \<Longrightarrow> concat (map piece p) = map Normal p" for p
    by (induction p) (auto simp: piece_def plain_component_def)
  moreover assume "list_all plain_component (w # p)"
  ultimately show ?thesis by (simp add: components_def plain_component_def piece_def)
qed

lemma relative_path_Normal [simp]: "relative_path (map Normal p) = Inr p"
  by (induction p) auto

lemma url_path_no_final_slash:
  "list_all plain_component p \<Longrightarrow> p \<noteq> [] \<Longrightarrow> \<not> ends_with (url_path p) ''/''"
proof (induction p rule: rev_induct)
  case (snoc w p)
  then obtain v c where "w = v @ [c]" "c \<noteq> CHR ''/''"
    by (cases w rule: rev_cases) (auto simp: plain_component_def)
  then show ?case by (simp add: url_path_def ends_with_def)
qed simp

lemma trim_start_url_path:
  assumes "plain_component w"
  shows "trim_start_slashes (url_path (w # p)) = w @ url_path p"
  using assms by (cases w) (auto simp: trim_start_slashes_def url_path_def plain_component_def)

text \<open>A path that can be asked for: plain names, UTF-8, none with a NUL or a backslash.\<close>

definition addressable :: "path \<Rightarrow> bool" where
  "addressable p \<longleftrightarrow> p \<noteq> [] \<and> list_all plain_component p \<and> utf8_valid (url_path p)
     \<and> CHR 0x00 \<notin> set (url_path p) \<and> CHR 0x5C \<notin> set (url_path p)"

lemma encoded_url_path:
  assumes "p \<noteq> []"
  shows "\<exists>t. percent_encode (url_path p) = CHR ''/'' # t"
  using assms by (cases p) (auto simp: percent_encode_def url_path_def unreserved_def byte_def Let_def)

lemma candidate_addressable:
  assumes "addressable p"
  shows "candidate_path f r (percent_encode (url_path p))
    = Inr (if is_dir f (r @ p) then r @ p @ [''index.html''] else r @ p)"
proof -
  obtain w q where p: "p = w # q" using assms by (cases p) (auto simp: addressable_def)
  have rel: "relative_path (components (trim_start_slashes (url_path p))) = Inr p"
    using assms unfolding p
    by (simp add: addressable_def trim_start_url_path components_url_path del: list.map flip: list.map(2))
  have "starts_with (percent_encode (url_path p)) ''/''"
    using encoded_url_path[of p] p by (auto simp: starts_with_def)
  moreover have "percent_decode (percent_encode (url_path p)) = Some (url_path p)"
    using assms by (simp add: percent_decode_def percent_loop_encode addressable_def)
  moreover have "\<not> ends_with (url_path p) ''/''"
    using assms url_path_no_final_slash by (simp add: addressable_def)
  ultimately show ?thesis
    using assms rel by (simp add: candidate_path_def split_once_def encoded_no_query addressable_def Let_def)
qed

definition get_request :: "string \<Rightarrow> path \<Rightarrow> string" where
  "get_request meth p = meth @ '' '' @ percent_encode (url_path p) @ '' '' @ ''HTTP/1.1'' @ crlf @ crlf"

lemma parse_get_request:
  assumes "p \<noteq> []" "meth = ''GET'' \<or> meth = ''HEAD''"
  shows "parse_request (get_request meth p) = Inr (meth, percent_encode (url_path p))"
proof -
  have "percent_encode (url_path p) \<noteq> []" using encoded_url_path[OF assms(1)] by auto
  moreover have "list_all word_char ''HTTP/1.1''" by (simp add: word_char_def ws_ascii_def byte_def)
  moreover have "list_all word_char meth" "meth \<noteq> []" "to_ascii_uppercase meth = meth"
    using assms(2) by (auto simp: word_char_def ws_ascii_def byte_def to_ascii_uppercase_def upper_char_def)
  ultimately show ?thesis
    unfolding get_request_def using encoded_word[of "url_path p"]
    by (subst parse_request_line) simp_all
qed

text \<open>A file below the root that is its own canonical path, is not a directory and can be opened.\<close>

definition published :: "fs \<Rightarrow> string \<Rightarrow> path \<Rightarrow> path \<Rightarrow> bool" where
  "published f base r p \<longleftrightarrow> canonicalize_str f base = Some r \<and> is_dir f r \<and> \<not> is_dir f (r @ p)
     \<and> canonicalize f (r @ p) = Some (r @ p) \<and> is_file f (r @ p) \<and> open_file f (r @ p) \<noteq> None"

lemma lookup_published:
  assumes "published f base r p" "addressable p" "meth = ''GET'' \<or> meth = ''HEAD''"
  shows "lookup_target f base meth (percent_encode (url_path p)) = Found (r @ p)"
  using assms by (auto simp: lookup_target_def resolve_path_def candidate_addressable published_def path_starts_with_def)

lemma addressable_not_Nil: "addressable p \<Longrightarrow> p \<noteq> []"
  by (simp add: addressable_def)

text \<open>\<^bold>\<open>C32\<close>: every published file can be had. For a regular file below the root whose names are
  plain, the request that names it, with any byte of the path outside the unreserved set written as
  a percent triple, is answered with the file over the control channel when it is at most 16 MiB,
  with the 413 error when it is larger, and with the header alone for \<^verbatim>\<open>HEAD\<close>.\<close>

theorem static_server_complete:
  assumes "published f base r p" "addressable p"
  shows "prepare_control_response f mime base (get_request ''GET'' p) =
           (if file_len f (r @ p) \<le> 16 * 1024 * 1024
            then File (ok_headers (file_len f (r @ p)) (mime (r @ p))) (r @ p)
            else Bytes (error_response 413 ''Payload Too Large'' ''static response exceeds control relay limit''))
    \<and> prepare_control_response f mime base (get_request ''HEAD'' p) =
           (if file_len f (r @ p) \<le> 16 * 1024 * 1024
            then Bytes (ok_headers (file_len f (r @ p)) (mime (r @ p)))
            else Bytes (error_response 413 ''Payload Too Large'' ''static response exceeds control relay limit''))"
  using assms(1) lookup_published[OF assms, of "''GET''"] lookup_published[OF assms, of "''HEAD''"]
  by (auto simp: prepare_control_response_def parse_get_request addressable_not_Nil[OF assms(2)]
      published_def MAX_CONTROL_RESPONSE_BYTES_def Let_def)

text \<open>A file system with one directory and one file.\<close>

definition demo_fs :: fs where
  "demo_fs = \<lparr>canonicalize_str = (\<lambda>s. if s = ''/srv'' then Some [''srv''] else None),
     canonicalize = (\<lambda>p. if p = [''srv'', ''a.txt''] then Some p else None),
     is_dir = (\<lambda>p. p = [''srv'']), is_file = (\<lambda>p. p = [''srv'', ''a.txt'']),
     file_len = (\<lambda>p. 2), open_file = (\<lambda>p. Some ''hi'')\<rparr>"

lemma demo_published: "published demo_fs ''/srv'' [''srv''] [''a.txt'']"
  by (simp add: published_def demo_fs_def)

lemma demo_addressable: "addressable [''a.txt'']"
proof -
  have "utf8_valid (url_path [''a.txt''])"
    by (rule utf8_valid_ascii) (simp add: url_path_def byte_def)
  then show ?thesis by (simp add: addressable_def plain_component_def url_path_def)
qed

theorem static_server_complete_witness:
  "prepare_control_response demo_fs (\<lambda>_. ''text/plain'') ''/srv'' (get_request ''GET'' [''a.txt''])
     = File (ok_headers 2 ''text/plain'') [''srv'', ''a.txt'']
   \<and> prepare_control_response demo_fs (\<lambda>_. ''text/plain'') ''/srv'' (get_request ''HEAD'' [''a.txt''])
     = Bytes (ok_headers 2 ''text/plain'')"
  using static_server_complete[OF demo_published demo_addressable, of "\<lambda>_. ''text/plain''"]
  by (simp add: demo_fs_def)


end
