(* ===== verification/Client_Session.thy ===== *)
theory Client_Session
  imports Udp_Manager Auth Proxy_Protocol Static_Files
begin

text \<open>
  The client (\<^verbatim>\<open>cross233-client/src/client.rs\<close>, the handshake of \<^verbatim>\<open>cross233-client/src/tunnel.rs\<close> and
  \<^verbatim>\<open>cross233-client/src/udp.rs\<close>): the handshakes, the handling of the server's messages, and static responses over
  the control channel. Tasks that the session spawns are recorded with their
  arguments; what the network and the file system answer are arguments.
\<close>

section \<open>Handshakes\<close>

definition opt_str :: "string option \<Rightarrow> string \<Rightarrow> string" where
  "opt_str x d = (case x of None \<Rightarrow> d | Some s \<Rightarrow> s)"

datatype handshake_error = HsRead | ExpectedChallenge string | Rejected string | ExpectedReady string

text \<open>The proof that answers a challenge.\<close>

definition answer_challenge ::
  "(string \<Rightarrow> string \<Rightarrow> string) \<Rightarrow> string \<Rightarrow> string \<Rightarrow> string \<Rightarrow> string \<Rightarrow> message option \<Rightarrow> handshake_error + message" where
  "answer_challenge mac key ty client_id ident challenge =
     (case challenge of
        None \<Rightarrow> Inl HsRead
      | Some c \<Rightarrow> if m_ty c \<noteq> ''challenge'' then Inl (ExpectedChallenge (m_ty c))
                 else Inr (new_auth (compute_proof mac key ty client_id ident (opt_str (m_nonce c) []))))"

text \<open>What the session sends first, and its reaction to the two answers: the answer it sends and the
  ready message it ends with.\<close>

definition session_handshake ::
  "(string \<Rightarrow> string \<Rightarrow> string) \<Rightarrow> string \<Rightarrow> string \<Rightarrow> service list \<Rightarrow> message option \<Rightarrow> message option
    \<Rightarrow> message list \<times> (handshake_error + message)" where
  "session_handshake mac key client_id services challenge ready =
     (let hello = new_client_hello client_id services
      in case answer_challenge mac key ''client'' client_id client_id challenge of
           Inl e \<Rightarrow> ([hello], Inl e)
         | Inr am \<Rightarrow>
             ([hello, am],
              case ready of
                None \<Rightarrow> Inl HsRead
              | Some r \<Rightarrow> if m_ty r = ''error'' then Inl (Rejected (opt_str (m_error r) ''unknown''))
                         else if m_ty r \<noteq> ''ready'' then Inl (ExpectedReady (m_ty r)) else Inr r))"

definition authenticate_tunnel ::
  "(string \<Rightarrow> string \<Rightarrow> string) \<Rightarrow> string \<Rightarrow> string \<Rightarrow> message option \<Rightarrow> message option \<Rightarrow> message list \<times> (handshake_error + unit)" where
  "authenticate_tunnel mac key tunnel_id challenge resp =
     (let hello = new_tunnel_hello tunnel_id
      in case answer_challenge mac key ''tunnel'' [] tunnel_id challenge of
           Inl e \<Rightarrow> ([hello], Inl e)
         | Inr am \<Rightarrow>
             ([hello, am],
              case resp of
                None \<Rightarrow> Inl HsRead
              | Some r \<Rightarrow> if m_ty r = ''error'' then Inl (Rejected (opt_str (m_error r) ''unknown''))
                         else if m_ty r \<noteq> ''ready'' \<and> m_ty r \<noteq> ''tunnel_ok'' then Inl (ExpectedReady (m_ty r))
                         else Inr ()))"

section \<open>UDP\<close>

text \<open>The forwarders by remote port, and the datagrams they have sent to local peers.\<close>

record udp_forwarders =
  forwarder_ports :: "u16 list"
  local_sent :: "(u16 \<times> socket_addr \<times> bytes) list"

definition handle_udp_response :: "u16 \<Rightarrow> string \<Rightarrow> bytes \<Rightarrow> udp_forwarders \<Rightarrow> udp_forwarders" where
  "handle_udp_response rp addr data u =
     (if rp \<in> set (forwarder_ports u)
      then (case parse_socket_addr addr of
              Some a \<Rightarrow> u\<lparr>local_sent := local_sent u @ [(rp, a, data)]\<rparr>
            | None \<Rightarrow> u)
      else u)"

text \<open>A datagram that arrives at a forwarder's socket.\<close>

definition forwarder_datagram :: "service \<Rightarrow> u16 \<Rightarrow> socket_addr \<Rightarrow> bytes \<Rightarrow> message" where
  "forwarder_datagram svc rp from data = new_udp rp (show_socket_addr from) data svc"

section \<open>The session\<close>

definition STATIC_CONTROL_REQUEST_BYTES :: nat where "STATIC_CONTROL_REQUEST_BYTES = 8 * 1024"
definition CLIENT_STATIC_IN_FLIGHT :: nat where "CLIENT_STATIC_IN_FLIGHT = 4"

text \<open>The directories of the static services of the local configuration, by name.\<close>

definition static_service_roots :: "service list \<Rightarrow> (string, string) hmap" where
  "static_service_roots services =
     foldl (\<lambda>m s. hm_insert (svc_name s) (local_addr s) m) [] (filter (\<lambda>s. effective_type s = ''static'') services)"

record client_session =
  static_roots :: "(string, string) hmap"
  free_slots :: nat
  out_msgs :: "message list"
  opened :: "(string \<times> string \<times> service) list"
  static_tasks :: "(string \<times> string \<times> bytes) list"
  udp :: udp_forwarders
  last_pong :: nat

text \<open>How a turn of the session loop ends: it goes on, or the session returns, with or without error.\<close>

datatype turn = Go client_session | Return "string + unit"

definition contains_str :: "string \<Rightarrow> string \<Rightarrow> bool" where
  "contains_str s p \<longleftrightarrow> list_ex (\<lambda>i. starts_with (drop i s) p) [0..<length s + 1]"

definition client_message :: "nat \<Rightarrow> message \<Rightarrow> client_session \<Rightarrow> turn" where
  "client_message now msg s0 =
     (let s = s0\<lparr>last_pong := now\<rparr>
      in if m_ty msg = ''ping'' then Go (s\<lparr>out_msgs := out_msgs s @ [new_pong]\<rparr>)
         else if m_ty msg = ''pong'' then Go s
         else if m_ty msg = ''error'' then
           (let err = opt_str (m_error msg) ''unknown''
            in if contains_str err ''auth'' \<or> contains_str err ''fatal'' then Return (Inl (''server error: '' @ err)) else Go s)
         else if m_ty msg = ''open'' then
           (case m_service msg of
              Some svc \<Rightarrow> Go (s\<lparr>opened := opened s @ [(opt_str (m_id msg) [], opt_str (m_address msg) [], svc)]\<rparr>)
            | None \<Rightarrow> Go s)
         else if m_ty msg = ''static_request'' then
           (let rid = opt_str (m_id msg) []; name = opt_str (m_service_name msg) [];
                request = (case m_data msg of None \<Rightarrow> [] | Some d \<Rightarrow> d)
            in if rid = [] \<or> length request > STATIC_CONTROL_REQUEST_BYTES then Go s
               else (case hm_get (static_roots s) name of
                       None \<Rightarrow> Go s
                     | Some base \<Rightarrow>
                         if free_slots s = 0 then Go s
                         else Go (s\<lparr>free_slots := free_slots s - 1,
                                    static_tasks := static_tasks s @ [(rid, base, request)]\<rparr>)))
         else if m_ty msg = ''udp_response'' then
           (case (m_remote_port msg, m_address msg, m_data msg) of
              (Some rp, Some addr, Some data) \<Rightarrow> Go (s\<lparr>udp := handle_udp_response rp addr data (udp s)\<rparr>)
            | _ \<Rightarrow> Go s)
         else if m_ty msg = ''bye'' then Return (Inr ())
         else if m_ty msg = ''close'' then Return (Inr ())
         else Go s)"

text \<open>The keep-alive tick, every 20 seconds.\<close>

definition client_tick :: "nat \<Rightarrow> client_session \<Rightarrow> turn" where
  "client_tick now s =
     (if now - last_pong s > secs 60 then Return (Inl ''keepalive timeout'')
      else Go (s\<lparr>out_msgs := out_msgs s @ [new_ping]\<rparr>))"

text \<open>The end of a static task gives its permit back.\<close>

definition static_task_done :: "client_session \<Rightarrow> client_session" where
  "static_task_done s = s\<lparr>free_slots := free_slots s + 1\<rparr>"

section \<open>Static responses\<close>

definition of_bytes :: "bytes \<Rightarrow> string" where
  "of_bytes b = map (\<lambda>w. char_of (unat w)) b"

fun flag_last :: "bool \<Rightarrow> bytes list \<Rightarrow> (bytes \<times> bool) list" where
  "flag_last final [] = []"
| "flag_last final [c] = [(c, final)]"
| "flag_last final (c # d # cs) = (c, False) # flag_last final (d # cs)"

definition send_static_response_bytes :: "string \<Rightarrow> bytes \<Rightarrow> bool \<Rightarrow> message list" where
  "send_static_response_bytes rid b final =
     (if b = [] then [new_static_response rid [] final]
      else map (\<lambda>(c, eof). new_static_response rid c eof) (flag_last final (chunks CONTROL_RESPONSE_CHUNK_BYTES b)))"

text \<open>The file is read in pieces, up to its end or an error; either ends the response.\<close>

definition send_static_control_response ::
  "fs \<Rightarrow> (path \<Rightarrow> string) \<Rightarrow> string \<Rightarrow> string \<Rightarrow> bytes \<Rightarrow> bytes list \<Rightarrow> message list" where
  "send_static_control_response f mime rid base request reads =
     (case prepare_control_response f mime base (of_bytes request) of
        Bytes response \<Rightarrow> send_static_response_bytes rid (to_bytes response) True
      | File headers p \<Rightarrow>
          send_static_response_bytes rid (to_bytes headers) False
          @ map (\<lambda>c. new_static_response rid c False) reads
          @ [new_static_response rid [] True])"

definition static_root_is_available :: "fs \<Rightarrow> string \<Rightarrow> bool" where
  "static_root_is_available f base = (case canonicalize_str f base of Some p \<Rightarrow> is_dir f p | None \<Rightarrow> False)"

text \<open>One tick of the health check of a static service.\<close>

definition static_health_tick :: "fs \<Rightarrow> string \<Rightarrow> string \<Rightarrow> message" where
  "static_health_tick f name base = new_health name (static_root_is_available f base)"

section \<open>Opening local connections\<close>

text \<open>What \<^verbatim>\<open>handle_open\<close> writes to the local service before the directions are copied; \<open>la\<close> is the local
  address of that connection.\<close>

definition local_preamble :: "service \<Rightarrow> string \<Rightarrow> socket_addr \<Rightarrow> bytes" where
  "local_preamble svc remote la =
     (if proxy_protocol svc
      then build_header_client (case parse_socket_addr remote of Some a \<Rightarrow> a | None \<Rightarrow> la) la (proxy_protocol_version svc)
      else [])"

section \<open>The chunks of a response\<close>

lemma static_response_sel [simp]:
  "m_ty (new_static_response i d eof) = ''static_response''" "m_id (new_static_response i d eof) = Some i"
  "m_data (new_static_response i d eof) = Some d" "m_eof (new_static_response i d eof) = Some eof"
  by (simp_all add: new_static_response_def default_message_def)

lemma flag_last_data: "map fst (flag_last final cs) = cs"
  by (induction final cs rule: flag_last.induct) auto

lemma flag_last_flags: "cs \<noteq> [] \<Longrightarrow> map snd (flag_last final cs) = replicate (length cs - 1) False @ [final]"
  by (induction final cs rule: flag_last.induct) auto

text \<open>A response in pieces: who it answers, what it carries, and that the last piece and no other ends
  it.\<close>

definition carries :: "string \<Rightarrow> bytes \<Rightarrow> bool \<Rightarrow> message list \<Rightarrow> bool" where
  "carries rid b final ms \<longleftrightarrow> (\<exists>cs. ms = map (\<lambda>(c, eof). new_static_response rid c eof) cs \<and> concat (map fst cs) = b
     \<and> cs \<noteq> [] \<and> map snd cs = replicate (length cs - 1) False @ [final] \<and> (\<forall>(c, eof) \<in> set cs. length c \<le> 8 * 1024)
     \<and> (b \<noteq> [] \<longrightarrow> fst (hd cs) \<noteq> []))"

lemma carries_bytes: "carries rid b final (send_static_response_bytes rid b final)"
proof (cases "b = []")
  case True
  then show ?thesis
    by (simp add: carries_def send_static_response_bytes_def) (rule exI[of _ "[([], final)]"], simp)
next
  case False
  let ?cs = "flag_last final (chunks CONTROL_RESPONSE_CHUNK_BYTES b)"
  have n: "chunks CONTROL_RESPONSE_CHUNK_BYTES b \<noteq> []" "0 < CONTROL_RESPONSE_CHUNK_BYTES"
    using False by (simp_all add: chunks_eq_Nil_iff CONTROL_RESPONSE_CHUNK_BYTES_def)
  have len: "length ?cs = length (chunks CONTROL_RESPONSE_CHUNK_BYTES b)"
    by (metis flag_last_data length_map)
  then have cs: "?cs \<noteq> []" using n(1) by (metis length_0_conv)
  have b: "length c \<le> 8 * 1024 \<and> c \<noteq> []" if "(c, eof) \<in> set ?cs" for c eof
  proof -
    have "c \<in> set (map fst ?cs)" using that by force
    then have "c \<in> set (chunks CONTROL_RESPONSE_CHUNK_BYTES b)" by (simp only: flag_last_data)
    from chunks_bound[OF this] show ?thesis by (simp add: CONTROL_RESPONSE_CHUNK_BYTES_def)
  qed
  have "fst (hd ?cs) \<noteq> []" using b[of "fst (hd ?cs)" "snd (hd ?cs)"] cs by simp
  then show ?thesis
    unfolding carries_def using False n cs b len
    by (intro exI[of _ ?cs]) (auto simp: send_static_response_bytes_def flag_last_data flag_last_flags)
qed

lemma carries_append:
  assumes "carries rid b False ms" "b \<noteq> []" "carries rid c final ns"
  shows "carries rid (b @ c) final (ms @ ns)"
proof -
  obtain cs where cs: "ms = map (\<lambda>(c, eof). new_static_response rid c eof) cs" "concat (map fst cs) = b" "cs \<noteq> []"
    "map snd cs = replicate (length cs - 1) False @ [False]" "\<forall>(c, eof) \<in> set cs. length c \<le> 8 * 1024" "fst (hd cs) \<noteq> []"
    using assms(1,2) by (auto simp: carries_def)
  obtain ds where ds: "ns = map (\<lambda>(c, eof). new_static_response rid c eof) ds" "concat (map fst ds) = c" "ds \<noteq> []"
    "map snd ds = replicate (length ds - 1) False @ [final]" "\<forall>(c, eof) \<in> set ds. length c \<le> 8 * 1024"
    using assms(3) by (auto simp: carries_def)
  have "map snd cs = replicate (length cs) False"
    using cs(3,4) by (metis One_nat_def Suc_pred length_greater_0_conv replicate_Suc replicate_append_same)
  then have "map snd (cs @ ds) = replicate (length (cs @ ds) - 1) False @ [final]"
    using ds(3,4) by (cases ds) (simp_all add: replicate_add)
  with cs ds show ?thesis unfolding carries_def by (intro exI[of _ "cs @ ds"]) auto
qed

lemma carries_reads:
  assumes "\<forall>c \<in> set reads. length c \<le> 8 * 1024 \<and> c \<noteq> []"
  shows "carries rid (concat reads) True (map (\<lambda>c. new_static_response rid c False) reads @ [new_static_response rid [] True])"
proof -
  let ?cs = "map (\<lambda>c. (c, False)) reads @ [([], True)]"
  have m: "map snd (map (\<lambda>c. (c, False)) reads) = replicate (length reads) False"
    by (induction reads) auto
  have "concat reads \<noteq> [] \<longrightarrow> fst (hd ?cs) \<noteq> []" using assms by (cases reads) auto
  then show ?thesis unfolding carries_def using assms m by (intro exI[of _ ?cs]) (auto simp: o_def)
qed

lemma to_bytes_append [simp]: "to_bytes (a @ b) = to_bytes a @ to_bytes b"
  by (simp add: to_bytes_def)

lemma to_bytes_Nil_iff [simp]: "to_bytes s = [] \<longleftrightarrow> s = []"
  by (simp add: to_bytes_def)

lemma of_to_bytes [simp]: "of_bytes (to_bytes s) = s"
  by (induction s) (simp_all add: of_bytes_def to_bytes_def unat_of_nat byte_def)

lemma static_response_carries:
  assumes "prepare_control_response f mime base (of_bytes request) = File h p" "h \<noteq> []"
    and "\<forall>c \<in> set reads. length c \<le> 8 * 1024 \<and> c \<noteq> []"
  shows "carries rid (to_bytes h @ concat reads) True (send_static_control_response f mime rid base request reads)"
  unfolding send_static_control_response_def assms(1) control_response.case
  using assms(2) by (intro carries_append carries_bytes carries_reads[OF assms(3)]) simp

section \<open>What the server can make the client do\<close>

text \<open>The sessions that messages, ticks and finishing tasks lead to; the number counts the static
  tasks that are running.\<close>

inductive client_reachable :: "service list \<Rightarrow> nat \<Rightarrow> client_session \<Rightarrow> bool" for services where
  start: "static_roots s = static_service_roots services \<Longrightarrow> free_slots s = CLIENT_STATIC_IN_FLIGHT \<Longrightarrow>
    static_tasks s = [] \<Longrightarrow> client_reachable services 0 s"
| message: "client_reachable services n s \<Longrightarrow> client_message now msg s = Go s' \<Longrightarrow>
    client_reachable services (n + (length (static_tasks s') - length (static_tasks s))) s'"
| tick: "client_reachable services n s \<Longrightarrow> client_tick now s = Go s' \<Longrightarrow> client_reachable services n s'"
| finish: "client_reachable services (Suc n) s \<Longrightarrow> client_reachable services n (static_task_done s)"

lemma client_message_effect:
  assumes "client_message now msg s = Go s'"
  shows "static_roots s' = static_roots s \<and>
    (static_tasks s' = static_tasks s \<and> free_slots s' = free_slots s
     \<or> (\<exists>rid name base request. static_tasks s' = static_tasks s @ [(rid, base, request)]
          \<and> hm_get (static_roots s) name = Some base \<and> length request \<le> 8 * 1024 \<and> rid \<noteq> []
          \<and> free_slots s = Suc (free_slots s')))"
  using assms
  by (auto simp: client_message_def Let_def STATIC_CONTROL_REQUEST_BYTES_def split: if_splits option.splits)

lemma roots_configured:
  "hm_get (static_service_roots services) name = Some base \<Longrightarrow>
     \<exists>s \<in> set services. svc_name s = name \<and> local_addr s = base \<and> effective_type s = ''static''"
proof -
  have "hm_get (foldl (\<lambda>m s. hm_insert (svc_name s) (local_addr s) m) m ss) name = Some base \<Longrightarrow>
      hm_get m name = Some base \<or> (\<exists>s \<in> set ss. svc_name s = name \<and> local_addr s = base)" for m ss
  proof (induction ss arbitrary: m)
    case (Cons s ss)
    from Cons.IH[OF Cons.prems[simplified]] show ?case by (auto split: if_splits)
  qed simp
  from this[of "[]" "filter (\<lambda>s. effective_type s = ''static'') services"]
  show "hm_get (static_service_roots services) name = Some base \<Longrightarrow> ?thesis"
    by (auto simp: static_service_roots_def)
qed


definition demo_session :: "service list \<Rightarrow> client_session" where
  "demo_session services = \<lparr>static_roots = static_service_roots services, free_slots = 4, out_msgs = [], opened = [],
     static_tasks = [], udp = \<lparr>forwarder_ports = [], local_sent = []\<rparr>, last_pong = 0\<rparr>"


end
