(* ===== verification/Registry_Ports.thy ===== *)
theory Registry_Ports
  imports Service_Registry
begin

text \<open>
  The registry's promises about names and public ports: what each operation does to the services
  by name and to the port table, and the invariant behind it.
  \<open>registry_ok\<close> holds in every reachable registry; \<open>ports_ok\<close> (a direct service owns its port) holds
  as long as no client registers a port on a private service. \<open>Registry_Theorems\<close> shows what happens
  otherwise.
\<close>

section \<open>Frames\<close>

lemma validate_explicit_port_cong:
  "protected_ports r' = protected_ports r \<Longrightarrow> reserved r' = reserved r \<Longrightarrow>
   allow_privileged_ports r' = allow_privileged_ports r \<Longrightarrow>
   validate_explicit_port r' p = validate_explicit_port r p"
  by (simp add: validate_explicit_port_def)

definition same_policy :: "'s registry \<Rightarrow> 's registry \<Rightarrow> bool" where
  "same_policy r' r \<longleftrightarrow> protected_ports r' = protected_ports r \<and> reserved r' = reserved r
     \<and> allow_privileged_ports r' = allow_privileged_ports r"

lemma same_policy_validate:
  "same_policy r' r \<Longrightarrow> validate_explicit_port r' p = validate_explicit_port r p"
  by (rule validate_explicit_port_cong) (simp_all add: same_policy_def)

lemma same_policy_refl [simp]: "same_policy r r"
  by (simp add: same_policy_def)

lemma same_policy_trans [trans]: "same_policy a b \<Longrightarrow> same_policy b c \<Longrightarrow> same_policy a c"
  by (simp add: same_policy_def)

text \<open>The services by name, and the entries behind them.\<close>

definition names_valid :: "'s registry \<Rightarrow> bool" where
  "names_valid r \<longleftrightarrow> (\<forall>n i. hm_get (services_by_name r) n = Some i \<longrightarrow> i < length (store r))"

text \<open>An operation that touches nothing but the port table and its counter.\<close>

definition ports_only :: "'s registry \<Rightarrow> 's registry \<Rightarrow> bool" where
  "ports_only r' r \<longleftrightarrow> r' = r\<lparr>next_port := next_port r', allocated_ports := allocated_ports r'\<rparr>"

lemma ports_only_frame:
  assumes "ports_only r' r"
  shows "store r' = store r" "services_by_name r' = services_by_name r"
    "services_by_group r' = services_by_group r" "client_services r' = client_services r"
    "same_policy r' r" "port_min r' = port_min r" "port_max r' = port_max r"
    "pending_static r' = pending_static r" "static_slots r' = static_slots r"
    "queues r' = queues r" "active_listeners r' = active_listeners r"
    "client_control_tx r' = client_control_tx r"
  by (subst assms[unfolded ports_only_def], simp add: same_policy_def)+

lemma ports_only_refl [simp]: "ports_only r r"
  by (simp add: ports_only_def)

lemma ports_only_updates [simp]:
  "ports_only (r\<lparr>next_port := k\<rparr>) r" "ports_only (r\<lparr>allocated_ports := ap\<rparr>) r"
  "ports_only (r\<lparr>next_port := k, allocated_ports := ap\<rparr>) r"
  by (simp_all add: ports_only_def)

lemma ports_only_trans: "ports_only a b \<Longrightarrow> ports_only b c \<Longrightarrow> ports_only a c"
  by (cases a; cases b; cases c) (simp add: ports_only_def)

lemma allocate_loop_frame:
  "allocate_loop n name r = (res, r') \<Longrightarrow> ports_only r' r
     \<and> (case res of
          None \<Rightarrow> allocated_ports r' = allocated_ports r
        | Some p \<Rightarrow> validate_explicit_port r p = Inr () \<and> hm_get (allocated_ports r) p = None
                    \<and> allocated_ports r' = hm_insert p name (allocated_ports r))"
proof (induction n name r rule: allocate_loop.induct)
  case (2 n name r)
  define p where "p = candidate_port r (next_port r)"
  define r1 where "r1 = r\<lparr>next_port := next_port r + 1\<rparr>"
  have po: "ports_only r1 r" by (simp add: r1_def)
  have v: "validate_explicit_port r1 q = validate_explicit_port r q" for q
    by (rule same_policy_validate[OF ports_only_frame(5)[OF po]])
  have ap: "allocated_ports r1 = allocated_ports r" by (simp add: r1_def)
  show ?case
  proof (cases "validate_explicit_port r p = Inr () \<and> hm_get (allocated_ports r) p = None")
    case True
    then have "res = Some p" "r' = r1\<lparr>allocated_ports := hm_insert p name (allocated_ports r)\<rparr>"
      using 2(2) v ap by (simp_all add: Let_def p_def[symmetric] r1_def[symmetric])
    with True show ?thesis by (simp add: r1_def)
  next
    case False
    then have l: "allocate_loop n name r1 = (res, r')"
      using 2(2) v ap by (auto simp: Let_def p_def[symmetric] r1_def[symmetric])
    have "\<not> (validate_explicit_port r1 p = Inr () \<and> hm_get (allocated_ports r1) p = None)"
      using False v ap by simp
    from 2(1)[OF p_def r1_def this l] show ?thesis
      using po by (auto simp: v ap intro: ports_only_trans split: option.splits)
  qed
qed auto

lemma allocate_port_Some:
  "allocate_port name r = (Some p, r') \<Longrightarrow> ports_only r' r \<and> validate_explicit_port r p = Inr ()
     \<and> hm_get (allocated_ports r) p = None \<and> allocated_ports r' = hm_insert p name (allocated_ports r)"
  unfolding allocate_port_def by (drule allocate_loop_frame) simp

lemma allocate_port_None:
  "allocate_port name r = (None, r') \<Longrightarrow> ports_only r' r \<and> allocated_ports r' = allocated_ports r"
  unfolding allocate_port_def by (drule allocate_loop_frame) simp

text \<open>What \<^verbatim>\<open>assign_port\<close> does. A rejected service leaves the registry alone but for the counter.\<close>

lemma assign_port_None:
  "assign_port name ex svc r = (None, r') \<Longrightarrow> ports_only r' r \<and> allocated_ports r' = allocated_ports r"
  by (auto simp: assign_port_def Let_def dest: allocate_port_None
      split: if_splits option.splits prod.splits sum.splits)

lemma direct_port_update:
  "uses_auto_port svc \<Longrightarrow> p \<noteq> 0 \<Longrightarrow> uses_direct_public_port (svc\<lparr>remote_port := p\<rparr>)"
  by (simp add: uses_auto_port_def uses_direct_public_port_def)

lemma validate_nonzero: "validate_explicit_port r p = Inr () \<Longrightarrow> p \<noteq> 0"
  by (auto simp: validate_explicit_port_def)

text \<open>The four ways a port is assigned.\<close>

lemma assign_port_Some:
  assumes "assign_port name ex svc r = (Some svc', r')"
  obtains (kept) e where "uses_auto_port svc" "ex = Some e" "uses_direct_public_port (config e)"
      "validate_explicit_port r (remote_port (config e)) = Inr ()"
      "svc' = svc\<lparr>remote_port := remote_port (config e)\<rparr>"
      "r' = (if hm_contains (allocated_ports r) (remote_port (config e)) then r
             else r\<lparr>allocated_ports := hm_insert (remote_port (config e)) name (allocated_ports r)\<rparr>)"
  | (auto) p where "uses_auto_port svc" "allocate_port name r = (Some p, r')" "svc' = svc\<lparr>remote_port := p\<rparr>"
  | (explicit) "\<not> uses_auto_port svc" "uses_direct_public_port svc"
      "validate_explicit_port r (remote_port svc) = Inr ()"
      "hm_get (allocated_ports r) (remote_port svc) \<in> {None, Some name}" "svc' = svc"
      "r' = r\<lparr>allocated_ports := hm_insert (remote_port svc) name (allocated_ports r)\<rparr>"
  | (none) "\<not> uses_auto_port svc" "\<not> uses_direct_public_port svc" "svc' = svc" "r' = r"
  using assms
  by (auto simp: assign_port_def Let_def split: if_splits option.splits prod.splits sum.splits)

lemma stop_listener_frame [simp]:
  "store (stop_listener p n r) = store r" "services_by_name (stop_listener p n r) = services_by_name r"
  "services_by_group (stop_listener p n r) = services_by_group r"
  "client_services (stop_listener p n r) = client_services r"
  "allocated_ports (stop_listener p n r) = allocated_ports r"
  "client_control_tx (stop_listener p n r) = client_control_tx r"
  "pending_static (stop_listener p n r) = pending_static r"
  "static_slots (stop_listener p n r) = static_slots r" "queues (stop_listener p n r) = queues r"
  "same_policy (stop_listener p n r) r"
  by (simp_all add: stop_listener_def same_policy_def split: option.split)

lemma leave_group_frame [simp]:
  "store (leave_group g n r) = store r" "services_by_name (leave_group g n r) = services_by_name r"
  "client_services (leave_group g n r) = client_services r"
  "allocated_ports (leave_group g n r) = allocated_ports r"
  "client_control_tx (leave_group g n r) = client_control_tx r"
  "pending_static (leave_group g n r) = pending_static r"
  "static_slots (leave_group g n r) = static_slots r" "queues (leave_group g n r) = queues r"
  "same_policy (leave_group g n r) r"
  by (simp_all add: leave_group_def Let_def same_policy_def split: option.split)

lemma same_policy_updates [simp]:
  "same_policy (r\<lparr>allocated_ports := ap\<rparr>) q = same_policy r q"
  "same_policy (r\<lparr>services_by_name := m\<rparr>) q = same_policy r q"
  "same_policy (r\<lparr>client_services := cs\<rparr>) q = same_policy r q"
  "same_policy q (r\<lparr>client_services := cs\<rparr>) = same_policy q r"
  by (simp_all add: same_policy_def)

lemma retire_previous_frame [simp]:
  "store (retire_previous n e svc r) = store r"
  "services_by_name (retire_previous n e svc r) = services_by_name r"
  "client_services (retire_previous n e svc r) = client_services r"
  "client_control_tx (retire_previous n e svc r) = client_control_tx r"
  "pending_static (retire_previous n e svc r) = pending_static r"
  "static_slots (retire_previous n e svc r) = static_slots r"
  "queues (retire_previous n e svc r) = queues r"
  by (simp_all add: retire_previous_def Let_def)

lemma retire_previous_policy [simp]: "same_policy (retire_previous n e svc r) r"
proof -
  have a: "same_policy (leave_group g n q) r \<longleftrightarrow> same_policy q r" for g q
    using leave_group_frame(9)[of g n q] by (auto simp: same_policy_def)
  have b: "same_policy (stop_listener p n q) r \<longleftrightarrow> same_policy q r" for p q
    using stop_listener_frame(10)[of p n q] by (auto simp: same_policy_def)
  show ?thesis by (simp add: retire_previous_def Let_def a b)
qed

lemma retire_previous_allocated:
  "allocated_ports (retire_previous n e svc r) =
     (if uses_direct_public_port (config e) \<and> remote_port (config e) \<noteq> remote_port svc
         \<and> hm_get (allocated_ports r) (remote_port (config e)) = Some n
      then hm_remove (remote_port (config e)) (allocated_ports r) else allocated_ports r)"
  by (simp add: retire_previous_def Let_def)

text \<open>Retiring the previous entry of \<open>n\<close> gives up its port, never the new one, and no one else's.\<close>

lemma retire_previous_ports:
  "hm_get (allocated_ports r) p = Some m \<Longrightarrow> m \<noteq> n \<or> p = remote_port svc \<Longrightarrow>
     hm_get (allocated_ports (retire_previous n e svc r)) p = Some m"
  by (auto simp: retire_previous_allocated)

lemma publish_frame [simp]:
  "store (publish now cid tx svc r) = store r @ [new_entry svc cid tx now]"
  "services_by_name (publish now cid tx svc r) = hm_insert (svc_name svc) (length (store r)) (services_by_name r)"
  "allocated_ports (publish now cid tx svc r) = allocated_ports r"
  "client_control_tx (publish now cid tx svc r) = client_control_tx r"
  "pending_static (publish now cid tx svc r) = pending_static r"
  "static_slots (publish now cid tx svc r) = static_slots r"
  "queues (publish now cid tx svc r) = queues r"
  "same_policy (publish now cid tx svc r) r"
  by (simp_all add: publish_def Let_def same_policy_def split: option.split)

definition names_of :: "'s registry \<Rightarrow> string \<Rightarrow> string list" where
  "names_of r cid = (case hm_get (client_services r) cid of None \<Rightarrow> [] | Some ns \<Rightarrow> ns)"

lemma publish_names:
  "set (names_of (publish now cid tx svc r) c) =
     (if c = cid then insert (svc_name svc) (set (names_of r c)) else set (names_of r c))"
  by (auto simp: publish_def Let_def names_of_def split: option.split)

section \<open>The invariant of names\<close>

text \<open>Every name leads to an entry of that name, and the names a client is recorded with are exactly
  those of the entries it owns. Direct public ports are ports that the policy allows.\<close>

definition registry_ok :: "'s registry \<Rightarrow> bool" where
  "registry_ok r \<longleftrightarrow> names_valid r
     \<and> (\<forall>n e. entry_at r n = Some e \<longrightarrow> svc_name (config e) = n)
     \<and> (\<forall>c n. n \<in> set (names_of r c) \<longleftrightarrow> (\<exists>e. entry_at r n = Some e \<and> entry_client_id e = c))
     \<and> (\<forall>n e. entry_at r n = Some e \<longrightarrow> uses_direct_public_port (config e)
          \<longrightarrow> validate_explicit_port r (remote_port (config e)) = Inr ())"

text \<open>A direct service owns its port.\<close>

definition ports_ok :: "'s registry \<Rightarrow> bool" where
  "ports_ok r \<longleftrightarrow> (\<forall>n e. entry_at r n = Some e \<longrightarrow> uses_direct_public_port (config e)
     \<longrightarrow> hm_get (allocated_ports r) (remote_port (config e)) = Some n)"

text \<open>Only direct and virtual-host services name a public port.\<close>

definition plain :: "service \<Rightarrow> bool" where
  "plain s \<longleftrightarrow> (remote_port s \<noteq> 0 \<and> \<not> is_vhost s \<longrightarrow> uses_direct_public_port s)"

definition all_plain :: "'s registry \<Rightarrow> bool" where
  "all_plain r \<longleftrightarrow> (\<forall>n e. entry_at r n = Some e \<longrightarrow> plain (config e))"

lemma entry_at_cong:
  "store r' = store r \<Longrightarrow> services_by_name r' = services_by_name r \<Longrightarrow> entry_at r' n = entry_at r n"
  by (simp add: entry_at_def)

lemma entry_at_publish:
  "names_valid r \<Longrightarrow> entry_at (publish now cid tx svc r) n =
     (if n = svc_name svc then Some (new_entry svc cid tx now) else entry_at r n)"
  by (cases "hm_get (services_by_name r) n") (auto simp: entry_at_def names_valid_def nth_append)

lemma registry_ok_cong:
  assumes "store r' = store r" "services_by_name r' = services_by_name r"
    "client_services r' = client_services r" "same_policy r' r"
  shows "registry_ok r' = registry_ok r"
  using same_policy_validate[OF assms(4)] assms(1-3)
  by (simp add: registry_ok_def names_valid_def entry_at_def names_of_def)

lemma ports_ok_cong:
  "store r' = store r \<Longrightarrow> services_by_name r' = services_by_name r \<Longrightarrow>
   allocated_ports r' = allocated_ports r \<Longrightarrow> ports_ok r' = ports_ok r"
  by (simp add: ports_ok_def entry_at_def)

lemma all_plain_cong:
  "store r' = store r \<Longrightarrow> services_by_name r' = services_by_name r \<Longrightarrow> all_plain r' = all_plain r"
  by (simp add: all_plain_def entry_at_def)

lemma assign_port_frame:
  assumes "assign_port name ex svc r = (Some svc', r')"
  shows "ports_only r' r" "svc_name svc' = svc_name svc" "is_vhost svc' = is_vhost svc"
    "effective_type svc' = effective_type svc" "group svc' = group svc"
    "uses_direct_public_port svc' \<Longrightarrow> validate_explicit_port r (remote_port svc') = Inr ()"
  by (use assms in \<open>cases rule: assign_port_Some; auto dest: allocate_port_Some\<close>)+

lemma assign_port_plain:
  assumes "assign_port name ex svc r = (Some svc', r')" "plain svc"
  shows "plain svc'"
  using assms
  by (cases rule: assign_port_Some)
    (auto simp: plain_def direct_port_update validate_nonzero dest: allocate_port_Some)

lemma assign_port_ports:
  assumes "assign_port name ex svc r = (Some svc', r')"
    and old: "\<And>e. ex = Some e \<Longrightarrow> uses_direct_public_port (config e) \<Longrightarrow>
                hm_get (allocated_ports r) (remote_port (config e)) = Some name"
  shows "(uses_direct_public_port svc' \<longrightarrow> hm_get (allocated_ports r') (remote_port svc') = Some name)
    \<and> (\<forall>p n. n \<noteq> name \<longrightarrow> hm_get (allocated_ports r) p = Some n \<longrightarrow> hm_get (allocated_ports r') p = Some n)"
  using assms(1)
proof (cases rule: assign_port_Some)
  case (kept e)
  from old[OF kept(2,3)] kept show ?thesis by (simp add: hm_contains_def)
next
  case (auto p)
  from allocate_port_Some[OF auto(2)] auto(3) show ?thesis by auto
next
  case explicit
  then show ?thesis by auto
next
  case none
  then show ?thesis by simp
qed

text \<open>One registration.\<close>

lemma register_one_cases:
  assumes "register_one now cid tx svc r = (res, r')"
  obtains (same) "res = None" "ports_only r' r" "allocated_ports r' = allocated_ports r"
  | (reg) svc' r1 where "res = Some svc'" "is_enabled svc"
      "\<And>e. entry_at r (svc_name svc) = Some e \<Longrightarrow> entry_client_id e = cid"
      "assign_port (svc_name svc) (entry_at r (svc_name svc)) svc r = (Some svc', r1)"
      "r' = publish now cid tx svc' (case entry_at r (svc_name svc) of None \<Rightarrow> r1
              | Some e \<Rightarrow> retire_previous (svc_name svc) e svc' r1)"
proof (cases "\<not> is_enabled svc \<or> (case entry_at r (svc_name svc) of Some e \<Rightarrow> entry_client_id e \<noteq> cid | None \<Rightarrow> False)")
  case True
  then have "res = None" "r' = r" using assms by (auto simp: register_one_def Let_def split: if_splits)
  then show ?thesis by (intro same) simp_all
next
  case False
  then have own: "\<And>e. entry_at r (svc_name svc) = Some e \<Longrightarrow> entry_client_id e = cid" by auto
  obtain a r1 where ap: "assign_port (svc_name svc) (entry_at r (svc_name svc)) svc r = (a, r1)"
    by (cases "assign_port (svc_name svc) (entry_at r (svc_name svc)) svc r")
  show ?thesis
  proof (cases a)
    case None
    then have "res = None" "r' = r1" using assms False ap by (auto simp: register_one_def Let_def)
    with assign_port_None[OF ap[unfolded None]] show ?thesis by (intro same) simp_all
  next
    case (Some svc')
    show ?thesis
    proof (rule reg)
      show "res = Some svc'" "r' = publish now cid tx svc' (case entry_at r (svc_name svc) of None \<Rightarrow> r1
              | Some e \<Rightarrow> retire_previous (svc_name svc) e svc' r1)"
        using assms False ap Some by (auto simp: register_one_def Let_def)
    qed (use False own ap Some in auto)
  qed
qed

text \<open>The registry just before \<^verbatim>\<open>publish\<close>.\<close>

lemma before_publish_frame:
  fixes ex :: "service_entry option" and n :: string and svc' :: service
  assumes "ports_only r1 r"
  defines "r2 \<equiv> (case ex of None \<Rightarrow> r1 | Some e \<Rightarrow> retire_previous n e svc' r1)"
  shows "store r2 = store r" "services_by_name r2 = services_by_name r"
    "client_services r2 = client_services r" "same_policy r2 r"
    "pending_static r2 = pending_static r" "static_slots r2 = static_slots r" "queues r2 = queues r"
proof -
  have "same_policy (retire_previous n e svc' r1) r" for e
    by (rule same_policy_trans[OF retire_previous_policy ports_only_frame(5)[OF assms(1)]])
  then show "same_policy r2 r"
    using ports_only_frame(5)[OF assms(1)] by (simp add: r2_def split: option.split)
qed (use ports_only_frame[OF assms(1)] in \<open>simp_all add: r2_def split: option.split\<close>)

lemma registry_ok_publish:
  assumes ok: "registry_ok r" and own: "\<And>e. entry_at r (svc_name svc) = Some e \<Longrightarrow> entry_client_id e = cid"
    and safe: "uses_direct_public_port svc \<Longrightarrow> validate_explicit_port r (remote_port svc) = Inr ()"
  shows "registry_ok (publish now cid tx svc r)"
proof -
  let ?r = "publish now cid tx svc r"
  have nv: "names_valid r" using ok by (simp add: registry_ok_def)
  note at = entry_at_publish[OF nv]
  have v: "validate_explicit_port ?r p = validate_explicit_port r p" for p
    by (rule same_policy_validate) simp
  have own_iff: "n \<in> set (names_of r c) \<longleftrightarrow> (\<exists>e. entry_at r n = Some e \<and> entry_client_id e = c)" for n c
    using ok by (simp add: registry_ok_def)
  have "names_valid ?r" using nv by (auto simp: names_valid_def less_SucI)
  moreover have "svc_name (config e) = n" if "entry_at ?r n = Some e" for n e
    using that ok by (auto simp: at registry_ok_def new_entry_def split: if_splits)
  moreover have "n \<in> set (names_of ?r c) \<longleftrightarrow> (\<exists>e. entry_at ?r n = Some e \<and> entry_client_id e = c)" for n c
    using own by (auto simp: at publish_names own_iff new_entry_def)
  moreover have "validate_explicit_port ?r (remote_port (config e)) = Inr ()"
    if "entry_at ?r n = Some e" "uses_direct_public_port (config e)" for n e
    using that ok safe by (auto simp: v at registry_ok_def new_entry_def split: if_splits)
  ultimately show ?thesis by (simp add: registry_ok_def)
qed

lemma registry_ok_register_one:
  assumes ok: "registry_ok r" and "register_one now cid tx svc r = (res, r')"
  shows "registry_ok r'" "same_policy r' r"
proof -
  have "registry_ok r' \<and> same_policy r' r"
    using assms(2)
  proof (cases rule: register_one_cases)
    case same
    note f = ports_only_frame[OF same(2)]
    show ?thesis using ok f(5) registry_ok_cong[OF f(1,2,4,5)] by simp
  next
    case (reg svc' r1)
    note a = assign_port_frame[OF reg(4)]
    define r2 where "r2 = (case entry_at r (svc_name svc) of None \<Rightarrow> r1
        | Some e \<Rightarrow> retire_previous (svc_name svc) e svc' r1)"
    note f = before_publish_frame[OF a(1), where ex = "entry_at r (svc_name svc)" and n = "svc_name svc"
        and svc' = svc', folded r2_def]
    have "registry_ok r2" using ok registry_ok_cong[OF f(1-4)] by simp
    moreover have "entry_client_id e = cid" if "entry_at r2 (svc_name svc') = Some e" for e
      using that reg(3) a(2) entry_at_cong[OF f(1,2)] by simp
    moreover have "validate_explicit_port r2 (remote_port svc') = Inr ()" if "uses_direct_public_port svc'"
      using a(6)[OF that] same_policy_validate[OF f(4)] by simp
    ultimately have "registry_ok r'"
      unfolding reg(5) r2_def[symmetric] by (intro registry_ok_publish)
    moreover have "same_policy r' r"
      unfolding reg(5) r2_def[symmetric] by (rule same_policy_trans[OF publish_frame(8) f(4)])
    ultimately show ?thesis ..
  qed
  then show "registry_ok r'" "same_policy r' r" by simp_all
qed

lemma ports_ok_register_one:
  assumes ok: "registry_ok r" and ports: "ports_ok r" and pl: "all_plain r" "plain svc"
    and "register_one now cid tx svc r = (res, r')"
  shows "ports_ok r' \<and> all_plain r'"
  using assms(5)
proof (cases rule: register_one_cases)
  case same
  note f = ports_only_frame[OF same(2)]
  show ?thesis using ports pl ports_ok_cong[OF f(1,2) same(3)] all_plain_cong[OF f(1,2)] by simp
next
  case (reg svc' r1)
  define n where "n = svc_name svc"
  note a = assign_port_frame[OF reg(4)]
  define r2 where "r2 = (case entry_at r n of None \<Rightarrow> r1 | Some e \<Rightarrow> retire_previous n e svc' r1)"
  note f = before_publish_frame[OF a(1), where ex = "entry_at r n" and n = n and svc' = svc', folded r2_def]
  have nv: "names_valid r2" using ok f(1,2) by (simp add: registry_ok_def names_valid_def)
  have n': "svc_name svc' = n" using a(2) by (simp add: n_def)
  have r'eq: "r' = publish now cid tx svc' r2" using reg(5) by (simp only: r2_def n_def)
  have at: "entry_at r' m = (if m = n then Some (new_entry svc' cid tx now) else entry_at r m)" for m
    unfolding r'eq entry_at_publish[OF nv] n' by (simp add: entry_at_cong[OF f(1,2)])
  have old: "hm_get (allocated_ports r) (remote_port (config e)) = Some n"
    if "entry_at r n = Some e" "uses_direct_public_port (config e)" for e
    using ports that by (simp add: ports_ok_def)
  note p1 = assign_port_ports[OF reg(4)[folded n_def] old]
  have keep: "hm_get (allocated_ports r2) p = Some m"
    if "hm_get (allocated_ports r1) p = Some m" "m \<noteq> n \<or> p = remote_port svc'" for p m
    using that by (auto simp: r2_def retire_previous_ports split: option.split)
  have r': "allocated_ports r' = allocated_ports r2" by (simp add: r'eq)
  have "hm_get (allocated_ports r') (remote_port svc') = Some n" if "uses_direct_public_port svc'"
    unfolding r' using p1 that by (intro keep) auto
  moreover have "hm_get (allocated_ports r') (remote_port (config e)) = Some m"
    if "entry_at r m = Some e" "m \<noteq> n" "uses_direct_public_port (config e)" for m e
  proof -
    have "hm_get (allocated_ports r) (remote_port (config e)) = Some m"
      using ports that by (simp add: ports_ok_def)
    then show ?thesis unfolding r' using p1 that(2) by (intro keep) auto
  qed
  ultimately have "ports_ok r'" by (auto simp: ports_ok_def at new_entry_def split: if_splits)
  moreover have "all_plain r'"
    using pl assign_port_plain[OF reg(4) pl(2)] by (auto simp: all_plain_def at new_entry_def)
  ultimately show ?thesis ..
qed

lemma registry_ok_register_all:
  "registry_ok r \<Longrightarrow> register_all now cid tx svcs r = (as, r') \<Longrightarrow> registry_ok r' \<and> same_policy r' r"
proof (induction svcs arbitrary: r as r')
  case (Cons svc svcs)
  obtain a r1 where one: "register_one now cid tx svc r = (a, r1)"
    by (cases "register_one now cid tx svc r")
  then obtain bs where rest: "register_all now cid tx svcs r1 = (bs, r')"
    using Cons.prems(2) by (auto split: prod.splits)
  have "registry_ok r1" "same_policy r1 r"
    using registry_ok_register_one[OF Cons.prems(1) one] by simp_all
  with Cons.IH[OF _ rest] show ?case by (auto intro: same_policy_trans)
qed simp

lemma ports_ok_register_all:
  "registry_ok r \<Longrightarrow> ports_ok r \<Longrightarrow> all_plain r \<Longrightarrow> list_all plain svcs \<Longrightarrow>
     register_all now cid tx svcs r = (as, r') \<Longrightarrow> ports_ok r' \<and> all_plain r'"
proof (induction svcs arbitrary: r as r')
  case (Cons svc svcs)
  obtain a r1 where one: "register_one now cid tx svc r = (a, r1)"
    by (cases "register_one now cid tx svc r")
  then obtain bs where rest: "register_all now cid tx svcs r1 = (bs, r')"
    using Cons.prems(5) by (auto split: prod.splits)
  have "ports_ok r1 \<and> all_plain r1"
    using ports_ok_register_one[OF Cons.prems(1-3) _ one] Cons.prems(4) by simp
  with Cons.IH[OF registry_ok_register_one(1)[OF Cons.prems(1) one] _ _ _ rest] Cons.prems(4)
  show ?case by simp
qed simp

lemma enter_session_frame:
  "store (enter_session cid tx r) = store r"
  "services_by_name (enter_session cid tx r) = services_by_name r"
  "allocated_ports (enter_session cid tx r) = allocated_ports r"
  "same_policy (enter_session cid tx r) r"
  "names_of (enter_session cid tx r) c = names_of r c"
  "entry_at (enter_session cid tx r) n = entry_at r n"
  "client_control_tx (enter_session cid tx r) = hm_insert cid tx (client_control_tx r)"
  "pending_static (enter_session cid tx r) = pending_static r"
  "static_slots (enter_session cid tx r) = static_slots r"
  "queues (enter_session cid tx r) = queues r"
  by (auto simp: enter_session_def Let_def same_policy_def names_of_def entry_at_def hm_contains_def)

lemma registry_ok_enter_session: "registry_ok r \<Longrightarrow> registry_ok (enter_session cid tx r)"
  unfolding registry_ok_def names_valid_def enter_session_frame
    same_policy_validate[OF enter_session_frame(4)] .

lemma registry_ok_register_services:
  assumes "registry_ok r" "register_services now cid tx svcs r = (as, r')"
  shows "registry_ok r'" "same_policy r' r"
  using registry_ok_register_all[OF registry_ok_enter_session[OF assms(1)] assms(2)[unfolded register_services_def]]
    same_policy_trans[OF _ enter_session_frame(4)] by auto

lemma ports_ok_register_services:
  assumes "registry_ok r" "ports_ok r" "all_plain r" "list_all plain svcs"
    and "register_services now cid tx svcs r = (as, r')"
  shows "ports_ok r' \<and> all_plain r'"
proof (rule ports_ok_register_all[OF registry_ok_enter_session[OF assms(1)] _ _ assms(4)])
  show "ports_ok (enter_session cid tx r)" "all_plain (enter_session cid tx r)"
    using assms(2,3) by (simp_all add: ports_ok_def all_plain_def enter_session_frame)
  show "register_all now cid tx svcs (enter_session cid tx r) = (as, r')"
    using assms(5) by (simp add: register_services_def)
qed

section \<open>Removal\<close>

lemma remove_service_frame:
  assumes "remove_service n r = (ls, r')"
  shows "store r' = store r" "services_by_name r' = hm_remove n (services_by_name r)"
    "client_services r' = client_services r" "same_policy r' r"
    "client_control_tx r' = client_control_tx r"
    "pending_static r' = pending_static r" "static_slots r' = static_slots r" "queues r' = queues r"
proof -
  have idem: "hm_get m n = None \<Longrightarrow> hm_remove n m = m" for m :: "(string, nat) hmap"
    unfolding hm_get_def hm_remove_def
    by (auto simp: filter_id_conv map_of_eq_None_iff rev_image_eqI split: prod.splits)
  have pol: "same_policy (leave_group g n q) r \<longleftrightarrow> same_policy q r" for g q
    using leave_group_frame(9)[of g n q] by (auto simp: same_policy_def)
  show "same_policy r' r"
    using assms by (auto simp: remove_service_def Let_def pol split: option.splits)
  show "store r' = store r" "services_by_name r' = hm_remove n (services_by_name r)"
    "client_services r' = client_services r" "client_control_tx r' = client_control_tx r"
    "pending_static r' = pending_static r" "static_slots r' = static_slots r" "queues r' = queues r"
    using assms by (auto simp: remove_service_def Let_def idem split: option.splits)
qed

lemma entry_at_remove_service:
  "remove_service n r = (ls, r') \<Longrightarrow> entry_at r' m = (if m = n then None else entry_at r m)"
  by (simp add: entry_at_def remove_service_frame)

lemma remove_names_frame:
  "remove_names ns r = (ls, r') \<Longrightarrow> store r' = store r \<and> client_services r' = client_services r
     \<and> same_policy r' r \<and> client_control_tx r' = client_control_tx r
     \<and> pending_static r' = pending_static r \<and> static_slots r' = static_slots r \<and> queues r' = queues r
     \<and> (\<forall>m. entry_at r' m = (if m \<in> set ns then None else entry_at r m))
     \<and> (names_valid r \<longrightarrow> names_valid r')"
proof (induction ns arbitrary: r ls)
  case (Cons n ns)
  obtain l1 r1 where one: "remove_service n r = (l1, r1)" by (cases "remove_service n r")
  then obtain l2 where rest: "remove_names ns r1 = (l2, r')"
    using Cons.prems by (auto split: prod.splits)
  note f = remove_service_frame[OF one]
  have "names_valid r \<Longrightarrow> names_valid r1"
    using f(1,2) by (auto simp: names_valid_def split: if_splits)
  with Cons.IH[OF rest] f(1,3,5-8) same_policy_trans[OF _ f(4)] show ?case
    by (auto simp: entry_at_remove_service[OF one])
qed auto

definition stop_listeners :: "(u16 \<times> string) list \<Rightarrow> 's registry \<Rightarrow> 's registry" where
  "stop_listeners ls r = fold (\<lambda>(p, n). stop_listener p n) ls r"

lemma stop_listeners_frame:
  "store (stop_listeners ls r) = store r \<and> services_by_name (stop_listeners ls r) = services_by_name r
    \<and> client_services (stop_listeners ls r) = client_services r
    \<and> allocated_ports (stop_listeners ls r) = allocated_ports r
    \<and> same_policy (stop_listeners ls r) r \<and> client_control_tx (stop_listeners ls r) = client_control_tx r
    \<and> pending_static (stop_listeners ls r) = pending_static r
    \<and> static_slots (stop_listeners ls r) = static_slots r \<and> queues (stop_listeners ls r) = queues r"
proof (induction ls arbitrary: r)
  case (Cons l ls)
  obtain p n where l: "l = (p, n)" by (cases l)
  from Cons[of "stop_listener p n r"] show ?case
    by (auto simp: l stop_listeners_def intro: same_policy_trans[OF _ stop_listener_frame(10)])
qed (simp add: stop_listeners_def)

lemma remove_client_services_effect:
  fixes r :: "'s registry" and cid :: string
  defines "r' \<equiv> remove_client_services cid r"
  shows "entry_at r' m = (if m \<in> set (names_of r cid) then None else entry_at r m)"
    "names_of r' c = (if c = cid then [] else names_of r c)"
    "same_policy r' r" "client_control_tx r' = client_control_tx r"
    "names_valid r \<Longrightarrow> names_valid r'"
    "pending_static r' = pending_static r" "static_slots r' = static_slots r" "queues r' = queues r"
proof -
  let ?r1 = "r\<lparr>client_services := hm_remove cid (client_services r)\<rparr>"
  obtain ls r2 where rm: "remove_names (names_of r cid) ?r1 = (ls, r2)"
    by (cases "remove_names (names_of r cid) ?r1")
  have r': "r' = stop_listeners ls r2"
    using rm by (simp add: r'_def remove_client_services_def names_of_def Let_def stop_listeners_def)
  note f = remove_names_frame[OF rm]
  note g = stop_listeners_frame[of ls r2, folded r']
  have e1: "entry_at ?r1 m = entry_at r m" for m by (simp add: entry_at_def)
  have e2: "entry_at r' m = entry_at r2 m" for m using g by (intro entry_at_cong) simp_all
  show "entry_at r' m = (if m \<in> set (names_of r cid) then None else entry_at r m)"
    using f by (simp add: e1 e2)
  show "names_of r' c = (if c = cid then [] else names_of r c)"
    using f g by (simp add: names_of_def)
  show "same_policy r' r" using f g by (auto simp: same_policy_def)
  show "client_control_tx r' = client_control_tx r" using f g by simp
  show "pending_static r' = pending_static r" "static_slots r' = static_slots r" "queues r' = queues r"
    using f g by simp_all
  show "names_valid r \<Longrightarrow> names_valid r'"
  proof -
    assume "names_valid r"
    then have "names_valid ?r1" by (simp add: names_valid_def)
    then have "names_valid r2" using f by blast
    with g show ?thesis by (auto simp: names_valid_def)
  qed
qed

lemma names_of_owned:
  "registry_ok r \<Longrightarrow> n \<in> set (names_of r c) \<longleftrightarrow> (\<exists>e. entry_at r n = Some e \<and> entry_client_id e = c)"
  by (simp add: registry_ok_def)

lemma registry_ok_remove_client_services:
  assumes "registry_ok r"
  shows "registry_ok (remove_client_services cid r)"
proof -
  let ?r = "remove_client_services cid r"
  note e = remove_client_services_effect[where cid = cid and r = r]
  have at: "entry_at ?r n = Some x \<longleftrightarrow> entry_at r n = Some x \<and> entry_client_id x \<noteq> cid" for n x
    using names_of_owned[OF assms, of n cid] by (auto simp: e(1))
  have v: "validate_explicit_port ?r p = validate_explicit_port r p" for p
    by (rule same_policy_validate[OF e(3)])
  have "n \<in> set (names_of ?r c) \<longleftrightarrow> (\<exists>x. entry_at ?r n = Some x \<and> entry_client_id x = c)" for n c
    using names_of_owned[OF assms, of n c] by (auto simp: e(2) at)
  then show ?thesis
    using assms e(5) by (simp add: registry_ok_def at v) blast
qed

text \<open>Under \<open>ports_ok\<close> and \<open>all_plain\<close>, removing a service frees the port that it owns and no other.\<close>

lemma ports_ok_remove_service:
  assumes ports: "ports_ok r" and pl: "all_plain r" and rm: "remove_service n r = (ls, r')"
  shows "ports_ok r' \<and> all_plain r'"
proof (cases "hm_get (services_by_name r) n")
  case None
  then have "r' = r" using rm by (simp add: remove_service_def)
  with ports pl show ?thesis by simp
next
  case (Some i)
  define x where "x = store r ! i"
  have x: "entry_at r n = Some x" by (simp add: entry_at_def Some x_def)
  note at = entry_at_remove_service[OF rm]
  have ap: "allocated_ports r' = (if remote_port (config x) \<noteq> 0 \<and> \<not> is_vhost (config x)
      then hm_remove (remote_port (config x)) (allocated_ports r) else allocated_ports r)"
    using rm Some by (auto simp: remove_service_def Let_def x_def)
  have "hm_get (allocated_ports r') (remote_port (config e)) = Some m"
    if "entry_at r m = Some e" "m \<noteq> n" "uses_direct_public_port (config e)" for m e
  proof -
    have m: "hm_get (allocated_ports r) (remote_port (config e)) = Some m"
      using ports that by (simp add: ports_ok_def)
    have "remote_port (config e) \<noteq> remote_port (config x)"
      if "remote_port (config x) \<noteq> 0" "\<not> is_vhost (config x)"
    proof -
      have "plain (config x)" using pl x by (simp add: all_plain_def)
      with that have "uses_direct_public_port (config x)" by (simp add: plain_def)
      with ports x have "hm_get (allocated_ports r) (remote_port (config x)) = Some n"
        by (simp add: ports_ok_def)
      with m \<open>m \<noteq> n\<close> show ?thesis by auto
    qed
    with m show ?thesis by (simp add: ap)
  qed
  then have "ports_ok r'" by (auto simp: ports_ok_def at split: if_splits)
  moreover have "all_plain r'" using pl by (auto simp: all_plain_def at split: if_splits)
  ultimately show ?thesis ..
qed

lemma ports_ok_remove_names:
  "ports_ok r \<Longrightarrow> all_plain r \<Longrightarrow> remove_names ns r = (ls, r') \<Longrightarrow> ports_ok r' \<and> all_plain r'"
proof (induction ns arbitrary: r ls)
  case (Cons n ns)
  obtain l1 r1 where one: "remove_service n r = (l1, r1)" by (cases "remove_service n r")
  then obtain l2 where rest: "remove_names ns r1 = (l2, r')"
    using Cons.prems(3) by (auto split: prod.splits)
  from Cons.IH[OF _ _ rest] ports_ok_remove_service[OF Cons.prems(1,2) one] show ?case by simp
qed simp

lemma ports_ok_remove_client_services:
  assumes "ports_ok r" "all_plain r"
  shows "ports_ok (remove_client_services cid r) \<and> all_plain (remove_client_services cid r)"
proof -
  let ?r1 = "r\<lparr>client_services := hm_remove cid (client_services r)\<rparr>"
  obtain ls r2 where rm: "remove_names (names_of r cid) ?r1 = (ls, r2)"
    by (cases "remove_names (names_of r cid) ?r1")
  have r': "remove_client_services cid r = stop_listeners ls r2"
    using rm by (simp add: remove_client_services_def names_of_def Let_def stop_listeners_def)
  have "ports_ok ?r1" "all_plain ?r1"
    using assms by (simp_all add: ports_ok_def all_plain_def entry_at_def)
  then have "ports_ok r2 \<and> all_plain r2" using ports_ok_remove_names[OF _ _ rm] by simp
  with stop_listeners_frame[of ls r2] show ?thesis
    by (metis r' ports_ok_cong all_plain_cong)
qed

end
