(* ===== verification/Health_Monitor.thy ===== *)
theory Health_Monitor
  imports Service_Registry
begin

text \<open>
  The server's health monitor (\<^verbatim>\<open>cross233-server/src/health_check.rs\<close>): every 30 seconds it marks the
  services that have not reported for too long. Instants are in nanoseconds.
\<close>

definition monitor_timeout :: "service \<Rightarrow> nat" where
  "monitor_timeout svc = (if health_timeout svc > 0 then secs (unat (max (health_timeout svc) 30)) else secs 90)"

definition monitor_entry :: "nat \<Rightarrow> service_entry \<Rightarrow> service_entry" where
  "monitor_entry now e =
     (if \<not> enabled e then e
      else if health_check (config e) = None then e
      else if now - last_health_check e > monitor_timeout (config e) then e\<lparr>healthy := False\<rparr>
      else e)"

definition run_health_monitor :: "nat \<Rightarrow> 's registry \<Rightarrow> 's registry" where
  "run_health_monitor now r =
     fold (\<lambda>i r. r\<lparr>store := (store r)[i := monitor_entry now (store r ! i)]\<rparr>) (get_all_services r) r"

section \<open>One round on every entry\<close>

lemma monitor_entry_twice [simp]: "monitor_entry now (monitor_entry now e) = monitor_entry now e"
  by (simp add: monitor_entry_def)

lemma monitor_fold:
  "fold (\<lambda>i r. r\<lparr>store := (store r)[i := monitor_entry now (store r ! i)]\<rparr>) is r
   = r\<lparr>store := map (\<lambda>i. if i \<in> set is then monitor_entry now (store r ! i) else store r ! i) [0..<length (store r)]\<rparr>"
proof (induction "is" arbitrary: r)
  case Nil
  show ?case by (simp add: map_nth)
next
  case (Cons i "is")
  have "map (\<lambda>j. if j \<in> set is then monitor_entry now ((store r)[i := monitor_entry now (store r ! i)] ! j)
                 else (store r)[i := monitor_entry now (store r ! i)] ! j) [0..<length (store r)]
      = map (\<lambda>j. if j \<in> set (i # is) then monitor_entry now (store r ! j) else store r ! j) [0..<length (store r)]"
    by (cases "i < length (store r)") (auto simp: nth_list_update list_update_beyond intro!: map_cong)
  then show ?case by (simp add: Cons.IH del: list.set cong: if_cong)
qed

lemma monitor_store:
  "run_health_monitor now r =
     r\<lparr>store := map (\<lambda>i. if i \<in> set (get_all_services r) then monitor_entry now (store r ! i) else store r ! i)
                [0..<length (store r)]\<rparr>"
  unfolding run_health_monitor_def by (rule monitor_fold)

lemma monitor_entry_at:
  assumes "\<And>i. hm_get (services_by_name r) n = Some i \<Longrightarrow> i < length (store r)"
  shows "entry_at (run_health_monitor now r) n = map_option (monitor_entry now) (entry_at r n)"
proof -
  have "i \<in> set (map snd (services_by_name r))" if "hm_get (services_by_name r) n = Some i" for i
    using that by (force simp: hm_get_def dest: map_of_SomeD)
  with assms show ?thesis
    unfolding monitor_store by (cases "hm_get (services_by_name r) n") (auto simp: entry_at_def get_all_services_def)
qed

end
