(* ===== verification/Registry_Steps.thy ===== *)
theory Registry_Steps
  imports Registry_Ports Health_Monitor
begin

text \<open>
  The registry as a transition system: every operation of \<^verbatim>\<open>SharedServiceState\<close> is a step, in any
  order and from any task. The invariants of \<open>Registry_Ports\<close> and the accounting of the static
  relay hold in every reachable registry; the theorems about services, ports, sessions and static
  responses rest on them.
\<close>

section \<open>Operations that leave names and ports alone\<close>

definition identity :: "service_entry \<Rightarrow> service \<times> string" where
  "identity e = (config e, entry_client_id e)"

definition inert :: "'s registry \<Rightarrow> 's registry \<Rightarrow> bool" where
  "inert r' r \<longleftrightarrow> services_by_name r' = services_by_name r
     \<and> map identity (store r') = map identity (store r)
     \<and> client_services r' = client_services r \<and> allocated_ports r' = allocated_ports r
     \<and> same_policy r' r"

lemma inert_refl [simp]: "inert r r"
  by (simp add: inert_def)

lemma inert_length: "inert r' r \<Longrightarrow> length (store r') = length (store r)"
  unfolding inert_def by (metis length_map)

lemma inert_entry:
  assumes "inert r' r" "names_valid r" "entry_at r' n = Some e'"
  obtains e where "entry_at r n = Some e" "config e = config e'" "entry_client_id e = entry_client_id e'"
proof -
  from assms(1,3) obtain i where i: "hm_get (services_by_name r) n = Some i" "e' = store r' ! i"
    by (auto simp: entry_at_def inert_def)
  have lt: "i < length (store r)" using assms(2) i(1) by (simp add: names_valid_def)
  then have "map identity (store r') ! i = map identity (store r) ! i"
    using assms(1) by (simp add: inert_def)
  then have "identity (store r' ! i) = identity (store r ! i)"
    using lt inert_length[OF assms(1)] by simp
  with i show ?thesis by (intro that[of "store r ! i"]) (simp_all add: entry_at_def identity_def)
qed

lemma inert_sym: "inert r' r \<Longrightarrow> inert r r'"
  by (simp add: inert_def same_policy_def)

lemma inert_names_valid: "inert r' r \<Longrightarrow> names_valid r' = names_valid r"
  using inert_length[of r' r] by (auto simp: names_valid_def inert_def)

lemma inert_registry_ok:
  assumes "inert r' r" "registry_ok r"
  shows "registry_ok r'"
proof -
  have nv: "names_valid r" "names_valid r'"
    using assms inert_names_valid[OF assms(1)] by (simp_all add: registry_ok_def)
  have v: "validate_explicit_port r' p = validate_explicit_port r p" for p
    using assms(1) by (intro same_policy_validate) (simp add: inert_def)
  have nm: "names_of r' c = names_of r c" for c using assms(1) by (simp add: names_of_def inert_def)
  have own: "n \<in> set (names_of r' c) \<longleftrightarrow> (\<exists>e. entry_at r' n = Some e \<and> entry_client_id e = c)" for n c
    unfolding nm names_of_owned[OF assms(2)]
    by (metis inert_entry[OF assms(1) nv(1)] inert_entry[OF inert_sym[OF assms(1)] nv(2)])
  have "svc_name (config e) = n \<and> (uses_direct_public_port (config e)
      \<longrightarrow> validate_explicit_port r' (remote_port (config e)) = Inr ())" if e: "entry_at r' n = Some e" for n e
  proof -
    obtain e0 where e0: "entry_at r n = Some e0" "config e0 = config e"
      by (rule inert_entry[OF assms(1) nv(1) e])
    with assms(2) show ?thesis unfolding v e0(2)[symmetric] by (simp add: registry_ok_def)
  qed
  with own nv show ?thesis by (simp add: registry_ok_def)
qed

lemma inert_ports_ok:
  assumes "inert r' r" "names_valid r" "ports_ok r" "all_plain r"
  shows "ports_ok r' \<and> all_plain r'"
proof -
  have "plain (config e) \<and> (uses_direct_public_port (config e)
      \<longrightarrow> hm_get (allocated_ports r') (remote_port (config e)) = Some n)" if e: "entry_at r' n = Some e" for n e
  proof -
    obtain e0 where e0: "entry_at r n = Some e0" "config e0 = config e"
      by (rule inert_entry[OF assms(1,2) e])
    moreover have "allocated_ports r' = allocated_ports r" using assms(1) by (simp add: inert_def)
    ultimately show ?thesis
      using assms(3,4) unfolding e0(2)[symmetric] by (simp add: ports_ok_def all_plain_def)
  qed
  then show ?thesis by (simp add: ports_ok_def all_plain_def)
qed

lemma map_identity_update:
  "identity e = identity (xs ! i) \<Longrightarrow> map identity (xs[i := e]) = map identity xs"
  by (cases "i < length xs") (simp_all add: map_update list_update_same_conv list_update_beyond)

lemma inert_update_entry:
  "(\<And>e. identity (f e) = identity e) \<Longrightarrow> inert (update_entry n f r) r"
  by (simp add: update_entry_def inert_def same_policy_def map_identity_update split: option.split)

lemma inert_report_health: "inert (report_health now n h r) r"
  unfolding report_health_def by (rule inert_update_entry) (simp add: identity_def)

lemma inert_record_traffic: "inert (record_traffic n tx rx r) r"
  unfolding record_traffic_def by (rule inert_update_entry) (simp add: identity_def)

lemma inert_toggle_service: "inert (snd (toggle_service n b r)) r"
proof -
  have "inert (update_entry n (\<lambda>e. e\<lparr>enabled := b\<rparr>) r) r"
    by (rule inert_update_entry) (simp add: identity_def)
  then show ?thesis by (simp add: toggle_service_def)
qed

lemma inert_get_group_service: "inert (snd (get_group_service g r)) r"
  by (simp add: get_group_service_def inert_def same_policy_def map_identity_update identity_def Let_def
      split: option.split list.split)

lemma inert_listeners:
  "inert (register_listener p n h r) r" "inert (remove_listener_handle p n r) r"
  "inert (stop_listener p n r) r"
  by (simp_all add: inert_def same_policy_def register_listener_def remove_listener_handle_def
      stop_listener_def split: option.split)

lemma inert_send_message: "inert (snd (send_message tx m r)) r"
  by (simp add: inert_def same_policy_def send_message_def)

lemma inert_tunnels:
  "inert (snd (open_tunnel_begin i e src dst r)) r" "inert (snd (open_tunnel_end i k r)) r"
  "inert (snd (complete_tunnel i t r)) r" "inert (reject_tunnel i err r) r"
  "inert (cancel_pending_tunnel i r) r"
  by (simp_all add: inert_def same_policy_def open_tunnel_begin_def open_tunnel_end_def
      complete_tunnel_def reject_tunnel_def cancel_pending_tunnel_def send_message_def Let_def
      split: option.split sum.split)

lemma inert_cancel_static: "inert (cancel_static_response i r) r"
  by (simp add: inert_def same_policy_def cancel_static_response_def)

lemma inert_static:
  "inert (snd (request_static_response i e req r)) r"
  "inert (cancel_static_response_for_control i tx r) r"
  "inert (cancel_static_responses_for_control tx r) r"
  "inert (snd (deliver_static_response tx i d eof r)) r"
  "inert (snd (queue_recv q r)) r" "inert (queue_drop q r) r"
  by (simp_all add: inert_def same_policy_def request_static_response_def send_message_def
      cancel_static_response_def cancel_static_response_for_control_def
      cancel_static_responses_for_control_def deliver_static_response_def try_send_def
      queue_recv_def queue_drop_def Let_def split: option.split list.split)

lemma inert_release_control: "inert (snd (release_control cid tx r)) r"
  by (simp add: inert_def same_policy_def release_control_def)

lemma inert_monitor: "inert (run_health_monitor now r) r"
proof -
  have "map identity (map (\<lambda>i. if i \<in> S then monitor_entry now (xs ! i) else xs ! i) [0..<length xs]) = map identity xs"
    for S and xs :: "service_entry list"
    by (rule nth_equalityI) (simp_all add: identity_def monitor_entry_def)
  then show ?thesis by (simp add: monitor_store inert_def same_policy_def)
qed

section \<open>The step relation\<close>

inductive registry_step :: "(service \<Rightarrow> bool) \<Rightarrow> 's registry \<Rightarrow> 's registry \<Rightarrow> bool" for P where
  step_register: "list_all P svcs \<Longrightarrow> register_services now cid tx svcs r = (as, r') \<Longrightarrow> registry_step P r r'"
| step_release: "registry_step P r (snd (release_control cid tx r))"
| step_remove: "registry_step P r (remove_client_services cid r)"
| step_unregister: "registry_step P r (unregister_client cid r)"
| step_listener: "registry_step P r (register_listener p n h r)"
| step_remove_handle: "registry_step P r (remove_listener_handle p n r)"
| step_stop_listener: "registry_step P r (stop_listener p n r)"
| step_group: "registry_step P r (snd (get_group_service g r))"
| step_open: "registry_step P r (snd (open_tunnel_begin i e src dst r))"
| step_open_end: "registry_step P r (snd (open_tunnel_end i k r))"
| step_complete: "registry_step P r (snd (complete_tunnel i t r))"
| step_reject: "registry_step P r (reject_tunnel i err r)"
| step_request: "registry_step P r (snd (request_static_response i e req r))"
| step_deliver: "registry_step P r (snd (deliver_static_response tx i d eof r))"
| step_cancel: "registry_step P r (cancel_static_response i r)"
| step_cancel_control: "registry_step P r (cancel_static_responses_for_control tx r)"
| step_queue_recv: "registry_step P r (snd (queue_recv q r))"
| step_queue_drop: "registry_step P r (queue_drop q r)"
| step_health: "registry_step P r (report_health now n h r)"
| step_traffic: "registry_step P r (record_traffic n a b r)"
| step_toggle: "registry_step P r (snd (toggle_service n b r))"
| step_monitor: "registry_step P r (run_health_monitor now r)"
| step_send: "registry_step P r (snd (send_message tx m r))"
| step_channel_dead: "registry_step P r (r\<lparr>dead_channels := insert tx (dead_channels r)\<rparr>)"

inductive_cases registry_stepE: "registry_step P r r'"

text \<open>Registries reachable from \<open>r0\<close> when every service offered for registration satisfies \<open>P\<close>.\<close>

inductive registry_reachable :: "(service \<Rightarrow> bool) \<Rightarrow> 's registry \<Rightarrow> 's registry \<Rightarrow> bool" for P r0 where
  reach_init: "registry_reachable P r0 r0"
| reach_next: "registry_reachable P r0 r \<Longrightarrow> registry_step P r r' \<Longrightarrow> registry_reachable P r0 r'"

lemma unregister_client_start:
  "registry_ok (r\<lparr>client_control_tx := m\<rparr>) = registry_ok r"
  "ports_ok (r\<lparr>client_control_tx := m\<rparr>) = ports_ok r" "all_plain (r\<lparr>client_control_tx := m\<rparr>) = all_plain r"
  "same_policy q (r\<lparr>client_control_tx := m\<rparr>) = same_policy q r"
proof -
  show "registry_ok (r\<lparr>client_control_tx := m\<rparr>) = registry_ok r"
    by (rule registry_ok_cong) (simp_all add: same_policy_def)
qed (simp_all add: ports_ok_def all_plain_def entry_at_def same_policy_def)

lemma inert_channel_dead: "inert (r\<lparr>dead_channels := d\<rparr>) r"
  by (simp add: inert_def same_policy_def)

lemmas inert_rules = inert_report_health inert_record_traffic inert_toggle_service
  inert_get_group_service inert_listeners inert_tunnels inert_cancel_static inert_static
  inert_release_control inert_channel_dead inert_monitor inert_send_message

text \<open>A step registers services, removes a client's, or is inert.\<close>

lemma registry_step_cases:
  assumes "registry_step P r r'"
  obtains (register) now cid tx svcs as where "list_all P svcs" "register_services now cid tx svcs r = (as, r')"
  | (remove) cid where "r' = remove_client_services cid r"
  | (unregister) cid where "r' = unregister_client cid r"
  | (inert) "inert r' r"
  using assms by (cases rule: registry_step.cases) (blast intro: inert_rules)+

lemma registry_ok_step:
  assumes "registry_step P r r'" "registry_ok r"
  shows "registry_ok r' \<and> same_policy r' r"
  using assms(1)
proof (cases rule: registry_step_cases)
  case (register now cid tx svcs as)
  with registry_ok_register_services[OF assms(2)] show ?thesis by blast
next
  case (remove cid)
  with assms(2) show ?thesis
    using registry_ok_remove_client_services remove_client_services_effect(3) by metis
next
  case (unregister cid)
  with assms(2) show ?thesis
    using registry_ok_remove_client_services remove_client_services_effect(3)
    by (metis unregister_client_def unregister_client_start(1,4))
next
  case inert
  with assms(2) show ?thesis using inert_registry_ok by (auto simp: inert_def)
qed

lemma ports_ok_step:
  assumes "registry_step plain r r'" "registry_ok r" "ports_ok r \<and> all_plain r"
  shows "ports_ok r' \<and> all_plain r'"
  using assms(1)
proof (cases rule: registry_step_cases)
  case (register now cid tx svcs as)
  with assms(2,3) show ?thesis using ports_ok_register_services by blast
next
  case (remove cid)
  with assms(3) show ?thesis using ports_ok_remove_client_services by blast
next
  case (unregister cid)
  with assms(3) show ?thesis
    using ports_ok_remove_client_services by (metis unregister_client_def unregister_client_start(2,3))
next
  case inert
  with assms(2,3) show ?thesis using inert_ports_ok by (auto simp: registry_ok_def)
qed

lemma registry_ok_reachable:
  "registry_reachable P r0 r \<Longrightarrow> registry_ok r0 \<Longrightarrow> registry_ok r \<and> same_policy r r0"
  by (induction rule: registry_reachable.induct) (auto dest: registry_ok_step intro: same_policy_trans)

lemma ports_ok_reachable:
  "registry_reachable plain r0 r \<Longrightarrow> registry_ok r0 \<Longrightarrow> ports_ok r0 \<and> all_plain r0 \<Longrightarrow> ports_ok r \<and> all_plain r"
proof (induction rule: registry_reachable.induct)
  case (reach_next r r')
  then have "registry_ok r" using registry_ok_reachable by blast
  with reach_next show ?case using ports_ok_step by blast
qed

lemma fresh_registry:
  "registry_ok (new_with_network_policy pmin pmax q b priv prot res)"
  "ports_ok (new_with_network_policy pmin pmax q b priv prot res)"
  "all_plain (new_with_network_policy pmin pmax q b priv prot res)"
  by (simp_all add: registry_ok_def ports_ok_def all_plain_def names_valid_def entry_at_def names_of_def
      new_with_network_policy_def)

end
