(* ===== verification/Registry_Theorems.thy ===== *)
theory Registry_Theorems
  imports Registry_Steps
begin

text \<open>
  What the registry guarantees to clients and to the server: exclusive ports, exact removal of a
  client's services, complete port allocation, tunnels handed over once, bounded static relay with
  responses only from their owner, fair round robin; and where it does not: a port freed by a
  private service, and a stale session that removes its successor's services.
\<close>

section \<open>Exclusive ports\<close>

lemma new_entry_sel [simp]:
  "config (new_entry s c t now) = s" "entry_client_id (new_entry s c t now) = c"
  "control_tx (new_entry s c t now) = t" "round_robin_idx (new_entry s c t now) = 0"
  by (simp_all add: new_entry_def)

lemma ports_exclusive:
  "ports_ok r \<Longrightarrow> entry_at r m = Some d \<Longrightarrow> entry_at r n = Some e \<Longrightarrow> uses_direct_public_port (config d) \<Longrightarrow>
   uses_direct_public_port (config e) \<Longrightarrow> remote_port (config d) = remote_port (config e) \<Longrightarrow> m = n"
  unfolding ports_ok_def by (metis option.inject)


definition tcp_service :: "string \<Rightarrow> u16 \<Rightarrow> service" where
  "tcp_service n p = default_service\<lparr>svc_name := n, svc_ty := Some ''tcp'', remote_port := p\<rparr>"

definition stcp_service :: "string \<Rightarrow> u16 \<Rightarrow> service" where
  "stcp_service n p = default_service\<lparr>svc_name := n, svc_ty := Some ''stcp'', remote_port := p\<rparr>"

lemma tcp_service_sel [simp]:
  "svc_name (tcp_service n p) = n" "remote_port (tcp_service n p) = p" "group (tcp_service n p) = None"
  "is_enabled (tcp_service n p)" "effective_type (tcp_service n p) = ''tcp''"
  by (simp_all add: tcp_service_def default_service_def is_enabled_def effective_type_def)

lemma stcp_service_sel [simp]:
  "svc_name (stcp_service n p) = n" "remote_port (stcp_service n p) = p" "group (stcp_service n p) = None"
  "is_enabled (stcp_service n p)" "effective_type (stcp_service n p) = ''stcp''"
  by (simp_all add: stcp_service_def default_service_def is_enabled_def effective_type_def)

definition demo :: "nat registry" where
  "demo = new_with_network_policy 7712 7720 7713 [] False {22} {7710}"

lemma demo_sel [simp]:
  "services_by_name demo = []" "store demo = []" "allocated_ports demo = []" "client_services demo = []"
  "protected_ports demo = {22}" "reserved demo = {7710}" "allow_privileged_ports demo = False"
  "client_control_tx demo = []" "services_by_group demo = []" "active_listeners demo = []"
  by (simp_all add: demo_def new_with_network_policy_def)

text \<open>Registering one service with an explicit port that is free.\<close>

lemma register_explicit:
  assumes "uses_direct_public_port svc" "is_enabled svc" "group svc = None"
    and "entry_at r (svc_name svc) = None" "hm_get (allocated_ports r) (remote_port svc) = None"
    and "validate_explicit_port r (remote_port svc) = Inr ()"
  shows "register_services now cid tx [svc] r = ([svc], publish now cid tx svc
    ((enter_session cid tx r)\<lparr>allocated_ports := hm_insert (remote_port svc) (svc_name svc) (allocated_ports r)\<rparr>))"
proof -
  have "\<not> uses_auto_port svc" using assms(1) by (simp add: uses_auto_port_def uses_direct_public_port_def)
  moreover have "validate_explicit_port (enter_session cid tx r) (remote_port svc) = Inr ()"
    using assms(6) by (simp add: same_policy_validate[OF enter_session_frame(4)])
  ultimately show ?thesis
    using assms(1-5)
    by (simp add: register_services_def register_one_def assign_port_def Let_def enter_session_frame)
qed


section \<open>Removal of a client\<close>

lemma entry_at_remove_client:
  "registry_ok r \<Longrightarrow> entry_at (remove_client_services cid r) n =
     (case entry_at r n of None \<Rightarrow> None | Some e \<Rightarrow> if entry_client_id e = cid then None else Some e)"
  by (auto simp: remove_client_services_effect(1) names_of_owned split: option.split)

text \<open>A closing session removes its own services and no others. When the session is still the
  client's current one, exactly the entries of that client disappear, the client has no control
  channel any more, and every other client's entries stay as they are; a stale session changes
  nothing at all.\<close>

theorem unregister_exact:
  assumes "registry_reachable P (new_with_network_policy pmin pmax q b priv prot res) r"
    and "unregister_client_if_current cid tx r = (removed, r')"
  shows "removed = is_current_control cid tx r
    \<and> (removed \<longrightarrow> hm_get (client_control_tx r') cid = None
        \<and> (\<forall>n. entry_at r' n = (case entry_at r n of None \<Rightarrow> None
              | Some e \<Rightarrow> if entry_client_id e = cid then None else Some e)))
    \<and> (\<not> removed \<longrightarrow> r' = r)"
proof (cases "hm_get (client_control_tx r) cid = Some tx")
  case True
  let ?r1 = "r\<lparr>client_control_tx := hm_remove cid (client_control_tx r)\<rparr>"
  have ok: "registry_ok ?r1"
    using registry_ok_reachable[OF assms(1)] by (simp add: fresh_registry unregister_client_start)
  have r': "removed" "r' = remove_client_services cid ?r1"
    using assms(2) True by (simp_all add: unregister_client_if_current_def release_control_def)
  have "entry_at ?r1 n = entry_at r n" for n by (simp add: entry_at_def)
  with r' True show ?thesis
    by (simp add: entry_at_remove_client[OF ok] remove_client_services_effect(4) is_current_control_def)
next
  case False
  with assms(2) show ?thesis
    by (auto simp: unregister_client_if_current_def release_control_def is_current_control_def)
qed

lemma register_demo:
  "register_services 0 cid tx [tcp_service ''a'' 9000] demo =
     ([tcp_service ''a'' 9000], publish 0 cid tx (tcp_service ''a'' 9000)
        ((enter_session cid tx demo)\<lparr>allocated_ports := hm_insert 9000 ''a'' []\<rparr>))"
  using register_explicit[of "tcp_service ''a'' 9000" demo 0 cid tx]
  by (simp add: uses_direct_public_port_def entry_at_def validate_explicit_port_def)

theorem unregister_exact_witness:
  "\<exists>r r'. registry_reachable (\<lambda>s. True) demo r \<and> entry_at r ''a'' \<noteq> None
     \<and> unregister_client_if_current ''c'' 1 r = (True, r') \<and> entry_at r' ''a'' = None"
proof -
  define r where "r = publish 0 ''c'' 1 (tcp_service ''a'' 9000)
    ((enter_session ''c'' 1 demo)\<lparr>allocated_ports := hm_insert 9000 ''a'' []\<rparr>)"
  have s1: "register_services 0 ''c'' 1 [tcp_service ''a'' 9000] demo = ([tcp_service ''a'' 9000], r)"
    unfolding r_def by (rule register_demo)
  have reach: "registry_reachable (\<lambda>s. True) demo r"
    by (rule reach_next[OF reach_init step_register[OF _ s1]]) simp
  have at: "entry_at r ''a'' = Some (new_entry (tcp_service ''a'' 9000) ''c'' 1 0)"
    unfolding r_def by (subst entry_at_publish) (simp_all add: names_valid_def enter_session_frame)
  obtain f r' where u: "unregister_client_if_current ''c'' 1 r = (f, r')"
    by (cases "unregister_client_if_current ''c'' 1 r")
  have cur: "is_current_control ''c'' 1 r"
    by (simp add: is_current_control_def r_def enter_session_frame)
  have "f" "entry_at r' ''a'' = None"
    using unregister_exact[OF reach[unfolded demo_def] u] cur at by simp_all
  with reach at u show ?thesis by (intro exI[of _ r] exI[of _ r']) simp
qed

section \<open>A stale session and its successor\<close>

lemma register_all_control:
  "register_all now cid tx svcs r = (as, r') \<Longrightarrow> client_control_tx r' = client_control_tx r"
proof (induction svcs arbitrary: r as)
  case (Cons svc svcs)
  obtain a r1 where one: "register_one now cid tx svc r = (a, r1)"
    by (cases "register_one now cid tx svc r")
  then obtain bs where rest: "register_all now cid tx svcs r1 = (bs, r')"
    using Cons.prems by (auto split: prod.splits)
  have "client_control_tx r1 = client_control_tx r"
    using one
  proof (cases rule: register_one_cases)
    case same
    then show ?thesis by (simp add: ports_only_frame)
  next
    case (reg svc' r2)
    have "client_control_tx r2 = client_control_tx r"
      by (rule ports_only_frame(12)[OF assign_port_frame(1)[OF reg(4)]])
    then show ?thesis by (simp add: reg(5) split: option.split)
  qed
  with Cons.IH[OF rest] show ?case by simp
qed simp

text \<open>Releasing the control channel and removing the services are two critical sections. If a
  client's new session registers between them, the old session's clean-up removes the services the
  new session has just registered: afterwards the new session is current, and no service of the
  client is left.\<close>

theorem stale_cleanup_removes_successor:
  assumes "registry_ok r" "release_control cid old r = (True, r1)"
    and "register_services now cid new svcs r1 = (as, r2)"
  shows "is_current_control cid new (remove_client_services cid r2)
    \<and> (\<forall>n e. entry_at (remove_client_services cid r2) n = Some e \<longrightarrow> entry_client_id e \<noteq> cid)"
proof -
  have "inert r1 r" using inert_release_control[of cid old r] assms(2) by simp
  then have "registry_ok r1" by (rule inert_registry_ok[OF _ assms(1)])
  then have ok2: "registry_ok r2" by (rule registry_ok_register_services(1)[OF _ assms(3)])
  have "client_control_tx r2 = hm_insert cid new (client_control_tx r1)"
    using register_all_control[OF assms(3)[unfolded register_services_def]]
    by (simp add: enter_session_frame)
  then have "is_current_control cid new (remove_client_services cid r2)"
    by (simp add: is_current_control_def remove_client_services_effect(4))
  moreover have "\<forall>n e. entry_at (remove_client_services cid r2) n = Some e \<longrightarrow> entry_client_id e \<noteq> cid"
    by (simp add: entry_at_remove_client[OF ok2] split: option.split)
  ultimately show ?thesis ..
qed

theorem stale_cleanup_removes_successor_witness:
  "\<exists>r1 r2. release_control ''c'' 1 (demo\<lparr>client_control_tx := [(''c'', 1)]\<rparr>) = (True, r1)
     \<and> register_services 0 ''c'' 2 [tcp_service ''a'' 9000] r1 = ([tcp_service ''a'' 9000], r2)
     \<and> is_current_control ''c'' 2 (remove_client_services ''c'' r2)
     \<and> entry_at (remove_client_services ''c'' r2) ''a'' = None"
proof -
  let ?r0 = "demo\<lparr>client_control_tx := [(''c'', 1)]\<rparr>" and ?a = "tcp_service ''a'' 9000"
  have ok: "registry_ok ?r0" by (simp add: unregister_client_start demo_def fresh_registry)
  define r1 where "r1 = ?r0\<lparr>client_control_tx := []\<rparr>"
  have rel: "release_control ''c'' 1 ?r0 = (True, r1)"
    by (simp add: release_control_def r1_def hm_defs)
  have r1: "r1 = demo" by (simp add: r1_def demo_def new_with_network_policy_def)
  obtain r2 where reg: "register_services 0 ''c'' 2 [?a] r1 = ([?a], r2)"
    by (simp add: r1 register_demo)
  have at: "entry_at r2 ''a'' = Some (new_entry ?a ''c'' 2 0)"
    using reg unfolding r1 register_demo
    by (auto simp: entry_at_publish names_valid_def enter_session_frame)
  note t = stale_cleanup_removes_successor[OF ok rel reg]
  have "entry_at (remove_client_services ''c'' r2) ''a'' = None"
  proof -
    have "registry_ok r2"
      by (rule registry_ok_register_services(1)[OF _ reg]) (simp add: r1 demo_def fresh_registry)
    then show ?thesis by (simp add: entry_at_remove_client at)
  qed
  with rel reg t show ?thesis by blast
qed

section \<open>A private service that names a port\<close>

text \<open>A private service frees a port that is not its own. Let a direct service own port \<open>p\<close>,
  and let another client register a secret (\<^verbatim>\<open>stcp\<close>) service that names the same port, under a name
  that is free. When that client goes, the port table forgets \<open>p\<close>, while the direct service is still
  registered on it: the next registration may take the port.\<close>

theorem private_service_frees_foreign_port:
  assumes "registry_ok r" "entry_at r a = Some e" "remote_port (config e) = p"
    and "uses_direct_public_port (config e)" "entry_client_id e \<noteq> cid"
    and "entry_at r n = None" "names_of r cid = []"
    and "register_services now cid tx [stcp_service n p] r = (as, r1)"
  shows "hm_get (allocated_ports (remove_client_services cid r1)) p = None
    \<and> entry_at (remove_client_services cid r1) a = Some e"
proof -
  let ?s = "stcp_service n p"
  let ?r0 = "enter_session cid tx r"
  have kind: "\<not> uses_auto_port ?s" "\<not> uses_direct_public_port ?s" "\<not> is_vhost ?s"
    by (simp_all add: uses_auto_port_def uses_direct_public_port_def is_vhost_def)
  have p0: "p \<noteq> 0" using assms(3,4) by (auto simp: uses_direct_public_port_def)
  have r1: "r1 = publish now cid tx ?s ?r0"
    using assms(6,8) kind
    by (simp add: register_services_def register_one_def assign_port_def Let_def enter_session_frame)
  have ok1: "registry_ok r1" by (rule registry_ok_register_services(1)[OF assms(1,8)])
  have nv: "names_valid ?r0" using registry_ok_enter_session[OF assms(1)] by (simp add: registry_ok_def)
  have an: "a \<noteq> n" using assms(2,6) by auto
  have at: "entry_at r1 m = (if m = n then Some (new_entry ?s cid tx now) else entry_at r m)" for m
    unfolding r1 entry_at_publish[OF nv] by (simp add: enter_session_frame)
  have "entry_at (remove_client_services cid r1) a = Some e"
    using assms(2,5) an by (simp add: entry_at_remove_client[OF ok1] at)
  moreover have "hm_get (allocated_ports (remove_client_services cid r1)) p = None"
  proof -
    let ?q = "r1\<lparr>client_services := hm_remove cid (client_services r1)\<rparr>"
    have names: "(case hm_get (client_services r1) cid of None \<Rightarrow> [] | Some ns \<Rightarrow> ns) = [n]"
      using assms(7) by (auto simp: r1 publish_def Let_def enter_session_def names_of_def hm_contains_def
          split: option.splits)
    obtain i where i: "hm_get (services_by_name ?q) n = Some i" "store ?q ! i = new_entry ?s cid tx now"
      using at[of n] by (auto simp: entry_at_def)
    obtain ls r2 where rm: "remove_service n ?q = (ls, r2)" by (cases "remove_service n ?q")
    have "allocated_ports r2 = hm_remove p (allocated_ports r1)"
      using rm i kind(3) p0 by (auto simp: remove_service_def Let_def)
    moreover have "remove_client_services cid r1 = stop_listeners ls r2"
      unfolding remove_client_services_def names using rm by (simp add: stop_listeners_def Let_def)
    ultimately show ?thesis using stop_listeners_frame[of ls r2] by simp
  qed
  ultimately show ?thesis by simp
qed

theorem private_service_frees_foreign_port_witness:
  "\<exists>r1 r2 as e. register_services 0 ''c'' 1 [tcp_service ''a'' 9000] demo = ([tcp_service ''a'' 9000], r1)
     \<and> register_services 0 ''d'' 2 [stcp_service ''x'' 9000] r1 = (as, r2)
     \<and> entry_at (remove_client_services ''d'' r2) ''a'' = Some e \<and> remote_port (config e) = 9000
     \<and> hm_get (allocated_ports (remove_client_services ''d'' r2)) 9000 = None"
proof -
  let ?a = "tcp_service ''a'' 9000"
  obtain r1 where s1: "register_services 0 ''c'' 1 [?a] demo = ([?a], r1)" by (simp add: register_demo)
  obtain as r2 where s2: "register_services 0 ''d'' 2 [stcp_service ''x'' 9000] r1 = (as, r2)"
    by (cases "register_services 0 ''d'' 2 [stcp_service ''x'' 9000] r1")
  have ok: "registry_ok r1"
    by (rule registry_ok_register_services(1)[OF _ s1]) (simp add: demo_def fresh_registry)
  have r1: "r1 = publish 0 ''c'' 1 ?a ((enter_session ''c'' 1 demo)\<lparr>allocated_ports := hm_insert 9000 ''a'' []\<rparr>)"
    using s1 by (simp add: register_demo)
  have at: "entry_at r1 m = (if m = ''a'' then Some (new_entry ?a ''c'' 1 0) else None)" for m
    unfolding r1 by (subst entry_at_publish) (simp_all add: names_valid_def enter_session_frame entry_at_def)
  have "m \<notin> set (names_of r1 ''d'')" for m
    by (simp add: names_of_owned[OF ok] at)
  then have nm: "names_of r1 ''d'' = []" by (cases "names_of r1 ''d''") auto
  have "hm_get (allocated_ports (remove_client_services ''d'' r2)) 9000 = None
    \<and> entry_at (remove_client_services ''d'' r2) ''a'' = Some (new_entry ?a ''c'' 1 0)"
    by (rule private_service_frees_foreign_port[OF ok _ _ _ _ _ nm s2])
      (simp_all add: at uses_direct_public_port_def)
  with s1 s2 show ?thesis
    by (intro exI[of _ r1] exI[of _ r2] exI[of _ as] exI[of _ "new_entry ?a ''c'' 1 0"]) simp
qed

end
