(* ===== verification/Registry_Relay.thy ===== *)
theory Registry_Relay
  imports Registry_Theorems "HOL-Library.Multiset"
begin

text \<open>
  The rest of the registry's promises: port allocation finds a free port when there is one, a tunnel
  request is answered at most once, round robin is fair, and the relay of static responses over the
  control channel stays within its bounds and accepts chunks from the owner of a request only.
\<close>

section \<open>Port allocation\<close>

definition good_port :: "'s registry \<Rightarrow> u16 \<Rightarrow> bool" where
  "good_port r p \<longleftrightarrow> validate_explicit_port r p = Inr () \<and> hm_get (allocated_ports r) p = None"

lemma allocate_loop_exhausted:
  "allocate_loop n name r = (None, r') \<Longrightarrow> j < n \<Longrightarrow> \<not> good_port r (candidate_port r (next_port r + of_nat j))"
proof (induction n arbitrary: r j)
  case (Suc n)
  let ?r1 = "r\<lparr>next_port := next_port r + 1\<rparr>"
  have po: "ports_only ?r1 r" by simp
  have same: "good_port ?r1 p = good_port r p" "candidate_port ?r1 k = candidate_port r k" for p k
    by (simp_all add: good_port_def candidate_port_def port_count_def
        same_policy_validate[OF ports_only_frame(5)[OF po]])
  have no: "\<not> good_port r (candidate_port r (next_port r))" and rest: "allocate_loop n name ?r1 = (None, r')"
    using Suc.prems(1) same_policy_validate[OF ports_only_frame(5)[OF po]]
    by (auto simp: Let_def good_port_def split: if_splits)
  show ?case
  proof (cases j)
    case 0
    with no show ?thesis by simp
  next
    case (Suc k)
    with Suc.IH[OF rest, of k] \<open>j < Suc n\<close> show ?thesis
      by (simp add: same add.assoc)
  qed
qed simp

lemma allocate_loop_range:
  "allocate_loop n name r = (Some p, r') \<Longrightarrow> \<exists>k. p = candidate_port r k"
proof (induction n arbitrary: r)
  case (Suc n)
  let ?r1 = "r\<lparr>next_port := next_port r + 1\<rparr>"
  have c: "candidate_port ?r1 k = candidate_port r k" for k
    by (simp add: candidate_port_def port_count_def)
  from Suc.prems consider "p = candidate_port r (next_port r)" | "allocate_loop n name ?r1 = (Some p, r')"
    by (auto simp: Let_def split: if_splits)
  then show ?case
  proof cases
    case 2
    from Suc.IH[OF this] show ?thesis by (simp add: c)
  qed blast
qed simp

lemma port_count_value:
  assumes "port_min r \<noteq> 0" "port_min r \<le> port_max r"
  shows "unat (port_count r) = Suc (unat (port_max r) - unat (port_min r))"
proof -
  have d: "unat (port_max r - port_min r) = unat (port_max r) - unat (port_min r)"
    using assms(2) by (simp add: unat_sub word_le_nat_alt)
  have "0 < unat (port_min r)" using assms(1) by (simp add: unat_gt_0)
  moreover have "unat (port_max r) < 65536" by (rule order_less_le_trans[OF unsigned_less]) simp
  ultimately have "Suc (unat (port_max r - port_min r)) < 65536" using d by linarith
  then show ?thesis unfolding port_count_def by (simp add: unat_word_ariths d)
qed

lemma candidate_in_range:
  assumes "port_min r \<noteq> 0" "port_min r \<le> port_max r"
  shows "port_min r \<le> candidate_port r k \<and> candidate_port r k \<le> port_max r"
proof -
  let ?m = "unat k mod unat (port_count r)"
  have m: "?m < Suc (unat (port_max r) - unat (port_min r))"
    unfolding port_count_value[OF assms] by (rule mod_less_divisor) simp
  have mx: "unat (port_max r) < 2 ^ 16" by (rule order_less_le_trans[OF unsigned_less]) simp
  have le: "unat (port_min r) \<le> unat (port_max r)" using assms(2) by (simp add: word_le_nat_alt)
  have small: "unat (port_min r) + ?m \<le> unat (port_max r)" using m le by linarith
  then have "candidate_port r k = of_nat (unat (port_min r) + ?m)"
    by (simp add: candidate_port_def)
  then have "unat (candidate_port r k) = unat (port_min r) + ?m"
    using small mx by (simp only: unat_of_nat_u16)
  with small show ?thesis by (simp add: word_le_nat_alt)
qed

lemma hit_residue:
  assumes "t < m"
  shows "\<exists>j<m. (u + j) mod m = (t :: nat)"
proof -
  let ?j = "(t + (m - u mod m)) mod m"
  have m: "0 < m" using assms by simp
  have "(u + ?j) mod m = (u mod m + (t + (m - u mod m))) mod m"
    by (metis mod_add_left_eq mod_add_right_eq)
  also have "u mod m + (t + (m - u mod m)) = t + m"
    using mod_less_divisor[OF m, of u] by linarith
  finally have "(u + ?j) mod m = t" using assms by simp
  moreover have "?j < m" using m by simp
  ultimately show ?thesis by blast
qed

lemma allocate_port_spec:
  assumes "port_min r \<noteq> 0" "port_min r \<le> port_max r"
    and "unat (next_port r) + unat (port_count r) \<le> 2 ^ 64"
    and "allocate_port name r = (res, r')"
  shows "case res of
      Some p \<Rightarrow> port_min r \<le> p \<and> p \<le> port_max r \<and> good_port r p
    | None \<Rightarrow> \<forall>p. port_min r \<le> p \<and> p \<le> port_max r \<longrightarrow> \<not> good_port r p"
proof (cases res)
  case (Some p)
  have "port_min r \<le> p \<and> p \<le> port_max r"
    using assms(4) candidate_in_range[OF assms(1,2)] unfolding Some allocate_port_def
    by (auto dest: allocate_loop_range)
  with allocate_port_Some[OF assms(4)[unfolded Some]] show ?thesis by (simp add: Some good_port_def)
next
  case None
  have "\<not> good_port r p" if p: "port_min r \<le> p" "p \<le> port_max r" for p
  proof -
    let ?m = "unat (port_count r)" and ?t = "unat p - unat (port_min r)"
    have le: "unat (port_min r) \<le> unat p" "unat p \<le> unat (port_max r)"
      using p by (simp_all add: word_le_nat_alt)
    then have "?t < ?m" by (simp add: port_count_value[OF assms(1,2)])
    then obtain j where j: "j < ?m" "(unat (next_port r) + j) mod ?m = ?t"
      using hit_residue by blast
    have "unat (next_port r) + j < 2 ^ 64" using assms(3) j(1) by linarith
    then have "unat (of_nat (unat (next_port r) + j) :: u64) = unat (next_port r) + j"
      unfolding unat_of_nat by (simp add: take_bit_nat_eq_self)
    moreover have "next_port r + of_nat j = of_nat (unat (next_port r) + j)" by simp
    ultimately have "unat (next_port r + of_nat j) = unat (next_port r) + j" by metis
    then have "candidate_port r (next_port r + of_nat j) = port_min r + of_nat ?t"
      by (simp add: candidate_port_def j(2))
    also have "\<dots> = of_nat (unat (port_min r) + ?t)" by simp
    also have "\<dots> = p" using le(1) by simp
    finally show ?thesis
      using allocate_loop_exhausted[of ?m name r r' j] assms(4) j(1)
      by (simp add: None allocate_port_def)
  qed
  then show ?thesis by (simp add: None)
qed

text \<open>\<^bold>\<open>C26\<close>: automatic allocation is sound and complete. With a range that does not contain port zero
  and before the 64-bit counter wraps around, \<^verbatim>\<open>allocate_port\<close> returns a port exactly when the range
  has one that the policy allows and nobody owns; the port it returns is such a port, and is then
  recorded as owned by the service, all other entries of the port table unchanged.\<close>

theorem allocate_port_complete:
  assumes "port_min r \<noteq> 0" "port_min r \<le> port_max r"
    and "unat (next_port r) + unat (port_count r) \<le> 2 ^ 64"
    and "allocate_port name r = (res, r')"
  shows "(res \<noteq> None \<longleftrightarrow> (\<exists>p. port_min r \<le> p \<and> p \<le> port_max r
             \<and> validate_explicit_port r p = Inr () \<and> hm_get (allocated_ports r) p = None))
    \<and> (\<forall>p. res = Some p \<longrightarrow> port_min r \<le> p \<and> p \<le> port_max r \<and> validate_explicit_port r p = Inr ()
        \<and> hm_get (allocated_ports r) p = None \<and> allocated_ports r' = hm_insert p name (allocated_ports r))"
proof (cases res)
  case None
  with allocate_port_spec[OF assms] show ?thesis by (simp add: good_port_def)
next
  case (Some p)
  with allocate_port_spec[OF assms] allocate_port_Some[of name r p r'] assms(4) show ?thesis
    by (auto simp: good_port_def)
qed

theorem allocate_port_complete_witness:
  "\<exists>p r'. allocate_port ''a'' demo = (Some p, r') \<and> 7712 \<le> p \<and> p \<le> 7720"
proof -
  obtain res r' where a: "allocate_port ''a'' demo = (res, r')" by (cases "allocate_port ''a'' demo")
  have s: "port_min demo = 7712" "port_max demo = 7720" "next_port demo = 7712"
    by (simp_all add: demo_def new_with_network_policy_def)
  have free: "validate_explicit_port demo 7712 = Inr () \<and> hm_get (allocated_ports demo) 7712 = None"
    by (simp add: validate_explicit_port_def)
  have t: "(res \<noteq> None \<longleftrightarrow> (\<exists>p. port_min demo \<le> p \<and> p \<le> port_max demo
             \<and> validate_explicit_port demo p = Inr () \<and> hm_get (allocated_ports demo) p = None))
    \<and> (\<forall>p. res = Some p \<longrightarrow> port_min demo \<le> p \<and> p \<le> port_max demo \<and> validate_explicit_port demo p = Inr ()
        \<and> hm_get (allocated_ports demo) p = None \<and> allocated_ports r' = hm_insert p ''a'' (allocated_ports demo))"
    by (rule allocate_port_complete[OF _ _ _ a]) (simp_all add: s port_count_def)
  moreover have "\<exists>p. port_min demo \<le> p \<and> p \<le> port_max demo
             \<and> validate_explicit_port demo p = Inr () \<and> hm_get (allocated_ports demo) p = None"
    using free by (intro exI[of _ 7712]) (simp add: s)
  ultimately obtain p where "res = Some p" by blast
  with t a show ?thesis by (simp add: s)
qed

section \<open>Tunnels\<close>

lemma map_of_snoc: "map_of xs k = None \<Longrightarrow> map_of (xs @ [(k, v)]) k = Some v"
  by (simp add: map_add_def)

text \<open>A tunnel request is answered at most once. While a request is pending, attaching the
  tunnel hands exactly that stream to the waiter and rejecting it hands the reason to the waiter;
  after either, and also after the waiter gave up, a tunnel that arrives for the same id is refused
  and no longer reaches anybody.\<close>

theorem tunnel_single_use:
  assumes "hm_get (pending_work r) i = Some n" "map_of (work_results r) n = None"
  shows "fst (complete_tunnel i t r)
    \<and> fst (open_tunnel_end i n (snd (complete_tunnel i t r))) = Inr t
    \<and> fst (open_tunnel_end i n (reject_tunnel i err r)) = Inl (''tunnel rejected: '' @ err)
    \<and> fst (open_tunnel_end i n r) = Inl ''tunnel open timeout''
    \<and> complete_tunnel i u (snd (complete_tunnel i t r)) = (False, snd (complete_tunnel i t r))
    \<and> complete_tunnel i u (reject_tunnel i err r) = (False, reject_tunnel i err r)
    \<and> complete_tunnel i u (snd (open_tunnel_end i n r)) = (False, snd (open_tunnel_end i n r))"
proof -
  have "n \<in> snd ` set (pending_work r)"
    using hm_get_in_set[OF assms(1)] by (force simp: image_iff)
  moreover have "map_of (work_results r @ [(n, v)]) n = Some v" for v
    by (rule map_of_snoc[OF assms(2)])
  ultimately show ?thesis
    using assms
    by (simp add: complete_tunnel_def reject_tunnel_def open_tunnel_end_def cancel_pending_tunnel_def
        del: map_of_append)
qed

theorem tunnel_single_use_witness:
  "\<exists>n r. open_tunnel_begin ''id'' (new_entry (tcp_service ''a'' 9000) ''c'' 1 0) None None demo = (Inr n, r)
     \<and> fst (open_tunnel_end ''id'' n (snd (complete_tunnel ''id'' 42 r))) = Inr 42"
proof -
  obtain n r where o: "open_tunnel_begin ''id'' (new_entry (tcp_service ''a'' 9000) ''c'' 1 0) None None demo = (Inr n, r)"
    and p: "hm_get (pending_work r) ''id'' = Some n" "map_of (work_results r) n = None"
    by (simp add: open_tunnel_begin_def send_message_def Let_def demo_def new_with_network_policy_def
        hm_insert_def hm_get_def)
  from tunnel_single_use[OF p, of 42] o show ?thesis by blast
qed

section \<open>Round robin\<close>

fun group_calls :: "nat \<Rightarrow> string \<Rightarrow> 's registry \<Rightarrow> nat option list" where
  "group_calls 0 g r = []"
| "group_calls (Suc k) g r = (let (x, r') = get_group_service g r in x # group_calls k g r')"

lemma group_calls_rotate:
  "hm_get (services_by_group r) g = Some (i # es) \<Longrightarrow> i < length (store r) \<Longrightarrow>
   unat (round_robin_idx (store r ! i)) + k < 2 ^ 64 \<Longrightarrow>
   group_calls k g r = map (\<lambda>j. Some ((i # es) ! ((unat (round_robin_idx (store r ! i)) + j) mod length (i # es)))) [0..<k]"
proof (induction k arbitrary: r)
  case (Suc k)
  let ?idx = "round_robin_idx (store r ! i)"
  let ?r = "r\<lparr>store := (store r)[i := (store r ! i)\<lparr>round_robin_idx := ?idx + 1\<rparr>]\<rparr>"
  have g: "get_group_service g r = (Some ((i # es) ! (unat ?idx mod length (i # es))), ?r)"
    using Suc.prems(1) by (simp add: get_group_service_def Let_def)
  have idx: "round_robin_idx (store ?r ! i) = ?idx + 1" using Suc.prems(2) by simp
  have "unat ?idx + 1 < 2 ^ 64" using Suc.prems(3) by linarith
  then have u: "unat (?idx + 1) = Suc (unat ?idx)" by (simp add: unat_word_ariths)
  have "group_calls k g ?r
      = map (\<lambda>j. Some ((i # es) ! ((unat (?idx + 1) + j) mod length (i # es)))) [0..<k]"
    using Suc.IH[of ?r] Suc.prems by (simp add: idx u)
  then show ?case
    by (simp add: g u upt_conv_Cons map_Suc_upt[symmetric] del: upt_Suc)
qed simp

lemma rotation_mset: "mset (map (\<lambda>j. xs ! ((u + j) mod length xs)) [0..<length xs]) = mset xs"
proof (cases "xs = []")
  case False
  have "(u + j) mod length xs = (u mod length xs + j) mod length xs" for j
    by (simp add: mod_add_left_eq)
  moreover have "map (\<lambda>j. xs ! ((u mod length xs + j) mod length xs)) [0..<length xs] = rotate (u mod length xs) xs"
    by (rule nth_equalityI) (simp_all add: nth_rotate)
  moreover have "mset (rotate k xs) = mset xs" for k
    by (metis rotate_drop_take append_take_drop_id mset_append add.commute)
  ultimately show ?thesis by simp
qed simp

text \<open>Round robin is fair. Until the counter wraps around, as many consecutive look-ups of a
  group as it has members return every member exactly once.\<close>

theorem round_robin_fair:
  assumes "hm_get (services_by_group r) g = Some es" "es \<noteq> []" "hd es < length (store r)"
    and "unat (round_robin_idx (store r ! hd es)) + length es < 2 ^ 64"
  shows "mset (group_calls (length es) g r) = mset (map Some es)"
proof -
  obtain i xs where es: "es = i # xs" using assms(2) by (cases es) auto
  let ?u = "unat (round_robin_idx (store r ! i))"
  have "group_calls (length es) g r = map (\<lambda>j. Some (es ! ((?u + j) mod length es))) [0..<length es]"
    using group_calls_rotate[of r g i xs "length es"] assms by (simp only: es list.sel)
  also have "\<dots> = map Some (map (\<lambda>j. es ! ((?u + j) mod length es)) [0..<length es])" by simp
  finally show ?thesis by (metis mset_map rotation_mset)
qed

theorem round_robin_fair_witness:
  "\<exists>r :: nat registry. hm_get (services_by_group r) ''g'' = Some [0, 1]
     \<and> mset (group_calls 2 ''g'' r) = mset [Some 0, Some 1]"
proof -
  define e where "e = new_entry (tcp_service ''a'' 9000) ''c'' 1 0"
  define r where "r = demo\<lparr>store := [e, e], services_by_group := [(''g'', [0, 1])]\<rparr>"
  have g: "hm_get (services_by_group r) ''g'' = Some [0, 1]" by (simp add: r_def hm_get_def)
  have "mset (group_calls (length [0, 1 :: nat]) ''g'' r) = mset (map Some [0, 1])"
    by (rule round_robin_fair[OF g]) (simp_all add: r_def e_def)
  then show ?thesis using g by (intro exI[of _ r]) (simp add: numeral_2_eq_2)
qed

section \<open>The static relay\<close>

definition chunk_ok :: "chunk \<Rightarrow> bool" where
  "chunk_ok c \<longleftrightarrow> length (chunk_data c) \<le> STATIC_RESPONSE_CHUNK_MAX"

definition relay_ok :: "'s registry \<Rightarrow> bool" where
  "relay_ok r \<longleftrightarrow> hm_wf (pending_static r)
     \<and> static_slots r + hm_len (pending_static r) = STATIC_CONTROL_MAX_IN_FLIGHT
     \<and> list_all (\<lambda>q. length (chunks_of q) \<le> STATIC_RESPONSE_QUEUE_CAPACITY \<and> list_all chunk_ok (chunks_of q))
         (queues r)"

lemma relay_ok_cong:
  "pending_static r' = pending_static r \<Longrightarrow> static_slots r' = static_slots r \<Longrightarrow> queues r' = queues r
   \<Longrightarrow> relay_ok r' = relay_ok r"
  by (simp add: relay_ok_def)

lemma relay_register_all:
  "register_all now cid tx svcs r = (as, r') \<Longrightarrow> pending_static r' = pending_static r
     \<and> static_slots r' = static_slots r \<and> queues r' = queues r"
proof (induction svcs arbitrary: r as)
  case (Cons svc svcs)
  obtain a r1 where one: "register_one now cid tx svc r = (a, r1)"
    by (cases "register_one now cid tx svc r")
  then obtain bs where rest: "register_all now cid tx svcs r1 = (bs, r')"
    using Cons.prems by (auto split: prod.splits)
  have "pending_static r1 = pending_static r \<and> static_slots r1 = static_slots r \<and> queues r1 = queues r"
    using one
  proof (cases rule: register_one_cases)
    case same
    then show ?thesis by (simp add: ports_only_frame)
  next
    case (reg svc' r2)
    note f = ports_only_frame[OF assign_port_frame(1)[OF reg(4)]]
    show ?thesis by (simp add: reg(5) f split: option.split)
  qed
  with Cons.IH[OF rest] show ?case by simp
qed simp

lemma relay_ok_cancel: "relay_ok r \<Longrightarrow> relay_ok (cancel_static_response i r)"
  using hm.len_remove[of "pending_static r" i]
  by (auto simp: cancel_static_response_def relay_ok_def hm_contains_def)

lemma relay_ok_cancel_for: "relay_ok r \<Longrightarrow> relay_ok (cancel_static_response_for_control i tx r)"
  by (simp add: cancel_static_response_for_control_def relay_ok_cancel split: option.split)

lemma relay_ok_cancel_all: "relay_ok r \<Longrightarrow> relay_ok (cancel_static_responses_for_control tx r)"
proof -
  assume ok: "relay_ok r"
  let ?k = "hm_retain (\<lambda>_ p. owner p \<noteq> tx) (pending_static r)"
  have "hm_len ?k \<le> hm_len (pending_static r)" by (simp add: hm_len_def hm_retain_def)
  with ok show ?thesis by (simp add: relay_ok_def cancel_static_responses_for_control_def Let_def)
qed

lemma relay_ok_request: "relay_ok r \<Longrightarrow> relay_ok (snd (request_static_response i e req r))"
proof (cases "length req > STATIC_RESPONSE_CHUNK_MAX \<or> static_slots r = 0")
  case False
  assume ok: "relay_ok r"
  define r1 where "r1 = r\<lparr>static_slots := static_slots r - 1,
    queues := queues r @ [\<lparr>chunks_of = [], receiver_alive = True\<rparr>]\<rparr>"
  define r2 where "r2 = cancel_static_response i r1"
  define r3 where "r3 = r2\<lparr>pending_static := hm_insert i \<lparr>owner = control_tx e, queue_id = length (queues r)\<rparr> (pending_static r2)\<rparr>"
  have wf: "hm_wf (pending_static r)" using ok by (simp add: relay_ok_def)
  have r2: "hm_get (pending_static r2) i = None" "hm_wf (pending_static r2)"
    "Suc (static_slots r2 + hm_len (pending_static r2)) = STATIC_CONTROL_MAX_IN_FLIGHT"
    "queues r2 = queues r1"
    using ok False hm.len_remove[OF wf, of i]
    by (auto simp: r2_def r1_def cancel_static_response_def hm_contains_def relay_ok_def)
  have "relay_ok r3"
    using ok r2 hm.len_insert_new[OF r2(2,1)] by (simp add: r3_def relay_ok_def r1_def)
  moreover have "relay_ok (r3\<lparr>sent_messages := x\<rparr>) = relay_ok r3" for x by (simp add: relay_ok_def)
  ultimately show ?thesis
    using False relay_ok_cancel[of r3 i]
    unfolding request_static_response_def Let_def r1_def[symmetric] r2_def[symmetric] r3_def[symmetric]
    by (simp add: send_message_def)
qed (auto simp: request_static_response_def)

lemma relay_ok_try_send:
  assumes "relay_ok r" "chunk_ok ch" "try_send q ch r = (b, r')"
  shows "relay_ok r'"
proof (cases b)
  case True
  let ?qu = "(queues r ! q)\<lparr>chunks_of := chunks_of (queues r ! q) @ [ch]\<rparr>"
  have r': "r' = r\<lparr>queues := (queues r)[q := ?qu]\<rparr>"
    and len: "length (chunks_of (queues r ! q)) < STATIC_RESPONSE_QUEUE_CAPACITY"
    using assms(3) True by (auto simp: try_send_def Let_def split: if_splits)
  show ?thesis
  proof (cases "q < length (queues r)")
    case True
    with assms(1) have "list_all chunk_ok (chunks_of (queues r ! q))"
      by (auto simp: relay_ok_def list_all_length)
    with assms(1,2) len show ?thesis
      by (auto simp: r' relay_ok_def list_all_iff dest!: subsetD[OF set_update_subset_insert])
  next
    case False
    with assms(1) show ?thesis by (simp add: r' relay_ok_def list_update_beyond)
  qed
qed (use assms in \<open>auto simp: try_send_def Let_def split: if_splits\<close>)

lemma relay_ok_deliver: "relay_ok r \<Longrightarrow> relay_ok (snd (deliver_static_response tx i d eof r))"
proof (cases "length d > STATIC_RESPONSE_CHUNK_MAX")
  case True
  assume "relay_ok r"
  with True show ?thesis by (simp add: deliver_static_response_def relay_ok_cancel_for)
next
  case False
  assume ok: "relay_ok r"
  have "chunk_ok \<lparr>chunk_data = d, chunk_eof = eof\<rparr>" using False by (simp add: chunk_ok_def)
  note ts = relay_ok_try_send[OF ok this]
  show ?thesis
  proof (cases "hm_get (pending_static r) i")
    case None
    with False ok show ?thesis by (simp add: deliver_static_response_def)
  next
    case (Some p)
    obtain b r1 where t: "try_send (queue_id p) \<lparr>chunk_data = d, chunk_eof = eof\<rparr> r = (b, r1)"
      by (cases "try_send (queue_id p) \<lparr>chunk_data = d, chunk_eof = eof\<rparr> r")
    from ts[OF t] have "relay_ok r1" .
    with Some t False ok show ?thesis
      by (cases b) (simp_all add: deliver_static_response_def relay_ok_cancel_for)
  qed
qed

lemma relay_ok_queue:
  "relay_ok r \<Longrightarrow> relay_ok (snd (queue_recv q r))" "relay_ok r \<Longrightarrow> relay_ok (queue_drop q r)"
proof -
  assume ok: "relay_ok r"
  have upd: "relay_ok (r\<lparr>queues := (queues r)[q := qu]\<rparr>)"
    if "q < length (queues r) \<Longrightarrow> length (chunks_of qu) \<le> STATIC_RESPONSE_QUEUE_CAPACITY \<and> list_all chunk_ok (chunks_of qu)" for qu
    using ok that by (cases "q < length (queues r)")
      (auto simp: relay_ok_def list_all_iff list_update_beyond dest!: subsetD[OF set_update_subset_insert])
  have b: "length (chunks_of (queues r ! q)) \<le> STATIC_RESPONSE_QUEUE_CAPACITY \<and> list_all chunk_ok (chunks_of (queues r ! q))"
    if "q < length (queues r)"
    using ok that by (auto simp: relay_ok_def list_all_length)
  show "relay_ok (queue_drop q r)" unfolding queue_drop_def by (rule upd) (simp add: b)
  show "relay_ok (snd (queue_recv q r))"
  proof (cases "chunks_of (queues r ! q)")
    case Nil
    with ok show ?thesis by (simp add: queue_recv_def)
  next
    case (Cons c cs)
    have "relay_ok (r\<lparr>queues := (queues r)[q := (queues r ! q)\<lparr>chunks_of := cs\<rparr>]\<rparr>)"
      by (rule upd) (use b Cons in auto)
    with Cons show ?thesis by (simp add: queue_recv_def)
  qed
qed

text \<open>Everything else leaves the relay alone.\<close>

lemma relay_ok_sessions:
  "relay_ok (remove_client_services cid r) = relay_ok r" "relay_ok (unregister_client cid r) = relay_ok r"
  "relay_ok (snd (release_control cid tx r)) = relay_ok r"
  by (simp_all add: relay_ok_def remove_client_services_effect unregister_client_def release_control_def)

lemma relay_ok_register: "register_services now cid tx svcs r = (as, r') \<Longrightarrow> relay_ok r' = relay_ok r"
  using relay_register_all[of now cid tx svcs "enter_session cid tx r" as r']
  by (simp add: register_services_def relay_ok_def enter_session_frame)

lemma relay_ok_listeners:
  "relay_ok (register_listener p n l r) = relay_ok r" "relay_ok (remove_listener_handle p n r) = relay_ok r"
  "relay_ok (stop_listener p n r) = relay_ok r"
  by (simp_all add: relay_ok_def register_listener_def remove_listener_handle_def split: option.split)

lemma relay_ok_tunnels:
  "relay_ok (snd (open_tunnel_begin i e src dst r)) = relay_ok r" "relay_ok (snd (open_tunnel_end i k r)) = relay_ok r"
  "relay_ok (snd (complete_tunnel i t r)) = relay_ok r" "relay_ok (reject_tunnel i err r) = relay_ok r"
  "relay_ok (snd (send_message tx m r)) = relay_ok r" "relay_ok (r\<lparr>dead_channels := d\<rparr>) = relay_ok r"
  by (simp_all add: relay_ok_def open_tunnel_begin_def open_tunnel_end_def send_message_def cancel_pending_tunnel_def
      complete_tunnel_def reject_tunnel_def Let_def split: option.split sum.split)

lemma relay_ok_entries:
  "relay_ok (report_health now n h r) = relay_ok r" "relay_ok (record_traffic n x y r) = relay_ok r"
  "relay_ok (snd (toggle_service n b r)) = relay_ok r" "relay_ok (run_health_monitor now r) = relay_ok r"
  "relay_ok (snd (get_group_service g r)) = relay_ok r"
  by (simp_all add: relay_ok_def report_health_def record_traffic_def toggle_service_def update_entry_def monitor_store
      get_group_service_def Let_def split: option.split list.split)

lemmas relay_ok_rules = relay_ok_sessions relay_ok_listeners relay_ok_tunnels relay_ok_entries
  relay_ok_request relay_ok_deliver relay_ok_cancel relay_ok_cancel_all relay_ok_queue

lemma relay_ok_step: "registry_step P r r' \<Longrightarrow> relay_ok r \<Longrightarrow> relay_ok r'"
  by (induction rule: registry_step.induct) (simp_all add: relay_ok_rules relay_ok_register)

lemma relay_ok_fresh: "relay_ok (new_with_network_policy pmin pmax q b priv prot res)"
  by (simp add: relay_ok_def new_with_network_policy_def)

lemma relay_ok_reachable: "registry_reachable P r0 r \<Longrightarrow> relay_ok r0 \<Longrightarrow> relay_ok r"
  by (induction rule: registry_reachable.induct) (auto intro: relay_ok_step)

text \<open>\<^bold>\<open>C25\<close>: the relay of static responses is bounded. In every reachable registry at most four
  responses are pending, the free slots are exactly the remaining ones (no slot leaks), and every
  response queue holds at most sixteen chunks of at most 8192 bytes.\<close>

theorem static_relay_bounded:
  assumes "registry_reachable P (new_with_network_policy pmin pmax q b priv prot res) r"
  shows "hm_len (pending_static r) \<le> 4 \<and> static_slots r = 4 - hm_len (pending_static r)
    \<and> (\<forall>qu \<in> set (queues r). length (chunks_of qu) \<le> 16
         \<and> (\<forall>ch \<in> set (chunks_of qu). length (chunk_data ch) \<le> 8192))"
proof -
  have "relay_ok r" by (rule relay_ok_reachable[OF assms relay_ok_fresh])
  then show ?thesis by (auto simp: relay_ok_def static_consts list_all_iff chunk_ok_def)
qed

theorem static_relay_bounded_witness:
  "\<exists>i q r. request_static_response ''id'' (new_entry (tcp_service ''a'' 9000) ''c'' 1 0) [1, 2] demo = (Inr (i, q), r)
     \<and> static_slots r = 3"
proof -
  let ?e = "new_entry (tcp_service ''a'' 9000) ''c'' 1 0"
  obtain i q r where rq: "request_static_response ''id'' ?e [1, 2] demo = (Inr (i, q), r)"
    and len: "hm_len (pending_static r) = 1"
    by (simp add: request_static_response_def send_message_def cancel_static_response_def static_consts Let_def
        demo_def new_with_network_policy_def hm_defs)
  have "registry_reachable (\<lambda>s. True) demo r"
    using reach_next[OF reach_init step_request[of "\<lambda>s. True" demo "''id''" ?e "[1, 2]"]] rq by simp
  from static_relay_bounded[OF this[unfolded demo_def]] len rq show ?thesis by auto
qed

text \<open>Only the session that was asked can answer. A chunk for a pending request that comes from
  any other session, of whatever size, is refused and changes nothing; a chunk from the owning
  session is queued behind the earlier ones when it fits the queue and the size limit.\<close>

theorem static_response_owner_only:
  assumes "hm_get (pending_static r) i = Some p" "queue_id p < length (queues r)"
  shows "(owner p \<noteq> tx \<longrightarrow> deliver_static_response tx i d eof r = (False, r))
    \<and> (owner p = tx \<and> length d \<le> STATIC_RESPONSE_CHUNK_MAX \<and> receiver_alive (queues r ! queue_id p)
         \<and> length (chunks_of (queues r ! queue_id p)) < STATIC_RESPONSE_QUEUE_CAPACITY
       \<longrightarrow> (\<exists>r'. deliver_static_response tx i d eof r = (True, r')
             \<and> chunks_of (queues r' ! queue_id p)
                 = chunks_of (queues r ! queue_id p) @ [\<lparr>chunk_data = d, chunk_eof = eof\<rparr>]
             \<and> (hm_get (pending_static r') i = None \<longleftrightarrow> eof)))"
proof (intro conjI impI)
  assume "owner p \<noteq> tx"
  with assms(1) show "deliver_static_response tx i d eof r = (False, r)"
    by (simp add: deliver_static_response_def cancel_static_response_for_control_def)
next
  assume a: "owner p = tx \<and> length d \<le> STATIC_RESPONSE_CHUNK_MAX \<and> receiver_alive (queues r ! queue_id p)
         \<and> length (chunks_of (queues r ! queue_id p)) < STATIC_RESPONSE_QUEUE_CAPACITY"
  let ?ch = "\<lparr>chunk_data = d, chunk_eof = eof\<rparr>"
  let ?q = "(queues r ! queue_id p)\<lparr>chunks_of := chunks_of (queues r ! queue_id p) @ [?ch]\<rparr>"
  let ?r = "r\<lparr>queues := (queues r)[queue_id p := ?q]\<rparr>"
  have "try_send (queue_id p) ?ch r = (True, ?r)" using a by (simp add: try_send_def Let_def)
  then have d: "deliver_static_response tx i d eof r
      = (True, if eof then cancel_static_response_for_control i tx ?r else ?r)"
    using a assms(1) by (simp add: deliver_static_response_def)
  have "cancel_static_response_for_control i tx ?r = ?r\<lparr>pending_static := hm_remove i (pending_static r),
      static_slots := static_slots r + 1\<rparr>"
    using a assms(1)
    by (simp add: cancel_static_response_for_control_def cancel_static_response_def hm_contains_def)
  with d assms show "\<exists>r'. deliver_static_response tx i d eof r = (True, r')
             \<and> chunks_of (queues r' ! queue_id p) = chunks_of (queues r ! queue_id p) @ [?ch]
             \<and> (hm_get (pending_static r') i = None \<longleftrightarrow> eof)"
    by (cases eof) simp_all
qed

theorem static_response_owner_only_witness:
  "\<exists>r :: nat registry. hm_get (pending_static r) ''id'' = Some \<lparr>owner = 1, queue_id = 0\<rparr>
     \<and> deliver_static_response 2 ''id'' [1] True r = (False, r)"
proof -
  define r where "r = demo\<lparr>pending_static := [(''id'', \<lparr>owner = 1, queue_id = 0\<rparr>)],
    queues := [\<lparr>chunks_of = [], receiver_alive = True\<rparr>]\<rparr>"
  have p: "hm_get (pending_static r) ''id'' = Some \<lparr>owner = 1, queue_id = 0\<rparr>"
    by (simp add: r_def hm_get_def)
  have "deliver_static_response 2 ''id'' [1] True r = (False, r)"
    using static_response_owner_only[OF p, of 2 "[1]" True] by (simp add: r_def)
  with p show ?thesis by blast
qed

end
