(* ===== verification/Static_Relay.thy ===== *)
theory Static_Relay
  imports Inbound Client_Session Registry_Relay
begin

text \<open>
  The static relay from end to end: the server asks the client for a response over the control channel,
  the client answers in chunks, the server queues them, and the task of the public connection takes
  them out and writes them to its peer.
\<close>

section \<open>Chunks through the queue\<close>

text \<open>Each message is delivered by the client's session and taken out by the public side before the
  next one comes.\<close>

fun relay_turns :: "chan \<Rightarrow> nat \<Rightarrow> nat \<Rightarrow> message list \<Rightarrow> 's control \<Rightarrow> relay_event list \<times> 's control" where
  "relay_turns tx q now [] st = ([], st)"
| "relay_turns tx q now (m # ms) st =
     (let st1 = control_message now tx m st;
          (c, r) = queue_recv q (reg st1);
          (rs, st2) = relay_turns tx q now ms (st1\<lparr>reg := r\<rparr>)
      in ((case c of Some ch \<Rightarrow> Chunk ch | None \<Rightarrow> Ended) # rs, st2))"

text \<open>A response that is being relayed: its owner, its queue, empty and with its reader.\<close>

definition relaying :: "chan \<Rightarrow> string \<Rightarrow> nat \<Rightarrow> 's registry \<Rightarrow> bool" where
  "relaying tx i q r \<longleftrightarrow> hm_get (pending_static r) i = Some \<lparr>owner = tx, queue_id = q\<rparr>
     \<and> q < length (queues r) \<and> queues r ! q = \<lparr>chunks_of = [], receiver_alive = True\<rparr>"

lemma deliver_relaying:
  assumes "relaying tx i q r" "length d \<le> 8 * 1024"
  shows "deliver_static_response tx i d eof r =
    (True, (if eof then cancel_static_response i else (\<lambda>r. r))
       (r\<lparr>queues := (queues r)[q := \<lparr>chunks_of = [\<lparr>chunk_data = d, chunk_eof = eof\<rparr>], receiver_alive = True\<rparr>]\<rparr>))"
  using assms by (simp add: deliver_static_response_def relaying_def try_send_def static_consts Let_def
      cancel_static_response_for_control_def)

lemma queues_cancel [simp]: "queues (cancel_static_response i r) = queues r"
  by (simp add: cancel_static_response_def)

lemma relay_one:
  fixes st :: "'s control"
  assumes "relaying tx i q (reg st)" "length d \<le> 8 * 1024"
    and "st1 = control_message now tx (new_static_response i d eof) st"
  shows "\<exists>r. queue_recv q (reg st1) = (Some \<lparr>chunk_data = d, chunk_eof = eof\<rparr>, r)
    \<and> (if eof then hm_get (pending_static r) i = None else relaying tx i q r)"
proof -
  define r1 where "r1 = (reg st)\<lparr>queues := (queues (reg st))[q := \<lparr>chunks_of = [\<lparr>chunk_data = d, chunk_eof = eof\<rparr>], receiver_alive = True\<rparr>]\<rparr>"
  have q: "q < length (queues r1)" "queues r1 ! q = \<lparr>chunks_of = [\<lparr>chunk_data = d, chunk_eof = eof\<rparr>], receiver_alive = True\<rparr>"
    "pending_static r1 = pending_static (reg st)"
    using assms(1) by (simp_all add: r1_def relaying_def)
  have reg1: "reg st1 = (if eof then cancel_static_response i r1 else r1)"
    using deliver_relaying[OF assms(1,2), of eof] by (simp add: assms(3) control_message_def r1_def)
  show ?thesis
  proof (cases eof)
    case True
    have "hm_get (pending_static (cancel_static_response i r1)) i = None"
      by (simp add: cancel_static_response_def hm_contains_def)
    with True reg1 q show ?thesis by (simp add: queue_recv_def)
  next
    case False
    with reg1 q assms(1) show ?thesis by (simp add: queue_recv_def relaying_def)
  qed
qed

lemma relay_turns_chunks:
  fixes st :: "'s control"
  assumes "relaying tx i q (reg st)" "cs \<noteq> []" "map snd cs = replicate (length cs - 1) False @ [True]"
    and "\<forall>(c, eof) \<in> set cs. length c \<le> 8 * 1024"
    and "relay_turns tx q now (map (\<lambda>(c, eof). new_static_response i c eof) cs) st = (rs, st')"
  shows "rs = map (\<lambda>(c, eof). Chunk \<lparr>chunk_data = c, chunk_eof = eof\<rparr>) cs \<and> hm_get (pending_static (reg st')) i = None"
  using assms
proof (induction cs arbitrary: st rs)
  case (Cons x cs)
  obtain d eof where x: "x = (d, eof)" by (cases x)
  define st1 where "st1 = control_message now tx (new_static_response i d eof) st"
  obtain r where r: "queue_recv q (reg st1) = (Some \<lparr>chunk_data = d, chunk_eof = eof\<rparr>, r)"
    "if eof then hm_get (pending_static r) i = None else relaying tx i q r"
    using relay_one[OF Cons.prems(1) _ st1_def] Cons.prems(4) x by auto
  obtain rs2 where t: "relay_turns tx q now (map (\<lambda>(c, eof). new_static_response i c eof) cs) (st1\<lparr>reg := r\<rparr>) = (rs2, st')"
    "rs = Chunk \<lparr>chunk_data = d, chunk_eof = eof\<rparr> # rs2"
    using Cons.prems(5) r(1) by (auto simp: x Let_def simp flip: st1_def split: prod.splits)
  show ?case
  proof (cases "cs = []")
    case True
    with Cons.prems(3) x have "eof" by simp
    with True t r(2) x show ?thesis by auto
  next
    case False
    then have "\<not> eof" "map snd cs = replicate (length cs - 1) False @ [True]"
      using Cons.prems(3) x by (cases cs; simp)+
    with Cons.IH[OF _ False _ _ t(1)] r(2) Cons.prems(4) t(2) x show ?thesis by simp
  qed
qed simp

lemma relay_loop_chunks:
  assumes "\<forall>b. wr b"
  shows "map snd cs = replicate (length cs - 1) False @ [True] \<Longrightarrow> cs \<noteq> [] \<Longrightarrow>
    relay_loop wr sent False (map (\<lambda>(c, eof). Chunk \<lparr>chunk_data = c, chunk_eof = eof\<rparr>) cs) = (Relayed, sent @ concat (map fst cs))"
proof (induction cs arbitrary: sent)
  case (Cons x cs)
  obtain d eof where x: "x = (d, eof)" by (cases x)
  show ?case
  proof (cases "cs = []")
    case True
    with Cons.prems(1) x assms show ?thesis by simp
  next
    case False
    then have "\<not> eof" "map snd cs = replicate (length cs - 1) False @ [True]"
      using Cons.prems(1) x by (cases cs; simp)+
    with Cons.IH[OF _ False] x assms show ?thesis by simp
  qed
qed simp

lemma relay_responses_chunks:
  assumes "\<forall>b. wr b" "map snd cs = replicate (length cs - 1) False @ [True]" "cs \<noteq> []" "fst (hd cs) \<noteq> []"
  shows "\<exists>r'. relay_responses wr i name request (map (\<lambda>(c, eof). Chunk \<lparr>chunk_data = c, chunk_eof = eof\<rparr>) cs) r
    = (Relayed, concat (map fst cs), r')"
proof -
  obtain d eof cs' where cs: "cs = (d, eof) # cs'" using assms(3) by (cases cs) auto
  show ?thesis
  proof (cases "cs' = []")
    case True
    with assms cs show ?thesis by (simp add: relay_responses_def)
  next
    case False
    then have "\<not> eof" "map snd cs' = replicate (length cs' - 1) False @ [True]"
      using assms(2) cs by (cases cs'; simp)+
    moreover have "wr d" using assms(1) by simp
    ultimately show ?thesis
      using relay_loop_chunks[OF assms(1) _ False, of d] assms(4) cs by (simp add: relay_responses_def)
  qed
qed

lemma relay_carried:
  fixes st :: "'s control"
  assumes "carries i b True ms" "b \<noteq> []" "relaying tx i q (reg st)" "\<forall>b. wr b" "relay_turns tx q now ms st = (rs, st')"
  shows "(\<exists>r'. relay_responses wr i name request rs (reg st') = (Relayed, b, r')) \<and> hm_get (pending_static (reg st')) i = None"
proof -
  obtain cs where cs: "ms = map (\<lambda>(c, eof). new_static_response i c eof) cs" "concat (map fst cs) = b" "cs \<noteq> []"
    "map snd cs = replicate (length cs - 1) False @ [True]" "\<forall>(c, eof) \<in> set cs. length c \<le> 8 * 1024" "fst (hd cs) \<noteq> []"
    using assms(1,2) by (auto simp: carries_def)
  from relay_turns_chunks[OF assms(3) cs(3,4,5) assms(5)[unfolded cs(1)]]
  have "rs = map (\<lambda>(c, eof). Chunk \<lparr>chunk_data = c, chunk_eof = eof\<rparr>) cs" "hm_get (pending_static (reg st')) i = None" by simp_all
  with relay_responses_chunks[OF assms(4) cs(4,3,6), of i name request "reg st'"] cs(2) show ?thesis by simp
qed

section \<open>From the request to the response\<close>

lemma request_relaying:
  assumes "0 < static_slots r" "control_tx e \<notin> dead_channels r" "length request \<le> 8 * 1024"
  shows "\<exists>r1. request_static_response i e request r = (Inr (i, length (queues r)), r1)
    \<and> relaying (control_tx e) i (length (queues r)) r1
    \<and> sent_messages r1 = sent_messages r @ [(control_tx e, new_static_request i (svc_name (config e)) request)]"
  using assms by (simp add: request_static_response_def static_consts Let_def send_message_def relaying_def
      cancel_static_response_def)

lemma ok_headers_not_Nil [simp]: "ok_headers n m \<noteq> []"
  by (simp add: ok_headers_def)


definition web_entry :: service_entry where
  "web_entry = new_entry (default_service\<lparr>svc_name := ''w'', svc_ty := Some ''static'', local_addr := ''/srv''\<rparr>) ''c'' 1 0"


section \<open>A slow reader\<close>

text \<open>Chunks that are delivered and not taken out.\<close>

fun deliver_all :: "chan \<Rightarrow> nat \<Rightarrow> message list \<Rightarrow> 's control \<Rightarrow> 's control" where
  "deliver_all tx now [] st = st"
| "deliver_all tx now (m # ms) st = deliver_all tx now ms (control_message now tx m st)"

definition queued :: "chan \<Rightarrow> string \<Rightarrow> nat \<Rightarrow> bytes list \<Rightarrow> 's registry \<Rightarrow> bool" where
  "queued tx i q ds r \<longleftrightarrow> hm_get (pending_static r) i = Some \<lparr>owner = tx, queue_id = q\<rparr>
     \<and> q < length (queues r) \<and> queues r ! q = \<lparr>chunks_of = map (\<lambda>d. \<lparr>chunk_data = d, chunk_eof = False\<rparr>) ds, receiver_alive = True\<rparr>"

lemma queued_one:
  assumes "queued tx i q ds (reg st)" "length d \<le> 8 * 1024"
  shows "if length ds < 16 then queued tx i q (ds @ [d]) (reg (control_message now tx (new_static_response i d False) st))
    else hm_get (pending_static (reg (control_message now tx (new_static_response i d False) st))) i = None
      \<and> queues (reg (control_message now tx (new_static_response i d False) st)) = queues (reg st)"
  using assms by (auto simp: queued_def control_message_def deliver_static_response_def try_send_def static_consts Let_def
      cancel_static_response_for_control_def cancel_static_response_def hm_contains_def)

lemma queued_many:
  "queued tx i q ds (reg st) \<Longrightarrow> \<forall>d \<in> set es. length d \<le> 8 * 1024 \<Longrightarrow> length ds + length es \<le> 16 \<Longrightarrow>
     queued tx i q (ds @ es) (reg (deliver_all tx now (map (\<lambda>d. new_static_response i d False) es) st))"
proof (induction es arbitrary: ds st)
  case (Cons d es)
  have "queued tx i q (ds @ [d]) (reg (control_message now tx (new_static_response i d False) st))"
    using queued_one[OF Cons.prems(1), of d now] Cons.prems(2,3) by simp
  from Cons.IH[OF this] Cons.prems(2,3) show ?case by simp
qed simp

text \<open>A response is lost when the public peer is slow. The queue towards it holds sixteen
  chunks and nothing slows the client down: if seventeen chunks arrive before the first is taken, the
  seventeenth is refused and the response is forgotten. The sixteen chunks that are queued do not end
  the response, so the peer gets part of the file and then the connection is closed.\<close>

theorem slow_peer_truncates:
  assumes "relaying tx i q (reg st)" "length es = 16" "\<forall>d \<in> set es. length d \<le> 8 * 1024" "length d \<le> 8 * 1024"
    and "st' = deliver_all tx now (map (\<lambda>d. new_static_response i d False) (es @ [d])) st"
  shows "hm_get (pending_static (reg st')) i = None
    \<and> chunks_of (queues (reg st') ! q) = map (\<lambda>d. \<lparr>chunk_data = d, chunk_eof = False\<rparr>) es
    \<and> relay_loop (\<lambda>_. True) [] False (map Chunk (chunks_of (queues (reg st') ! q)) @ [Ended])
        = (RelayFailed ''static control response ended before eof'', concat es)"
proof -
  have "queued tx i q [] (reg st)" using assms(1) by (simp add: queued_def relaying_def)
  from queued_many[OF this assms(3), of now] assms(2)
  have qd: "queued tx i q es (reg (deliver_all tx now (map (\<lambda>d. new_static_response i d False) es) st))" by simp
  have app: "deliver_all tx now (ms @ [m]) u = control_message now tx m (deliver_all tx now ms u)" for ms m u
    by (induction ms arbitrary: u) auto
  have st': "hm_get (pending_static (reg st')) i = None"
    "chunks_of (queues (reg st') ! q) = map (\<lambda>d. \<lparr>chunk_data = d, chunk_eof = False\<rparr>) es"
    using queued_one[OF qd assms(4), of now] qd assms(2,5) by (simp_all add: app queued_def)
  have "relay_loop (\<lambda>_. True) sent False (map (\<lambda>d. Chunk \<lparr>chunk_data = d, chunk_eof = False\<rparr>) es' @ [Ended])
      = (RelayFailed ''static control response ended before eof'', sent @ concat es')" for sent es'
    by (induction es' arbitrary: sent) simp_all
  with st' show ?thesis by (simp add: o_def)
qed

theorem slow_peer_truncates_witness:
  "\<exists>st :: nat control. relaying 1 ''r'' 0 (reg st) \<and>
     hm_get (pending_static (reg (deliver_all 1 0 (map (\<lambda>d. new_static_response ''r'' d False) (replicate 16 [1] @ [[1]])) st))) ''r'' = None"
proof -
  let ?st = "\<lparr>auth = new_auth_state [], reg = (demo :: nat registry)\<lparr>pending_static := [(''r'', \<lparr>owner = 1, queue_id = 0\<rparr>)],
      queues := [\<lparr>chunks_of = [], receiver_alive = True\<rparr>]\<rparr>, udp_mgr = None\<rparr>"
  have r: "relaying 1 ''r'' 0 (reg ?st)" by (simp add: relaying_def hm_get_def)
  have "hm_get (pending_static (reg (deliver_all 1 0 (map (\<lambda>d. new_static_response ''r'' d False) (replicate 16 [1] @ [[1]])) ?st))) ''r'' = None"
    using slow_peer_truncates[OF r _ _ _ refl, of "replicate 16 [1]" "[1]" 0] by simp
  with r show ?thesis by blast
qed

end
