(* ===== verification/Vhost_Tls.thy ===== *)
theory Vhost_Tls
  imports Inbound Client_Session "HOL-Library.Monad_Syntax"
begin

text \<open>
  Virtual hosts over TLS (\<^verbatim>\<open>cross233-server/src/https_vhost.rs\<close>): the server name is taken from the first
  message of the client and the connection goes to the service of that name. Reading outside of a
  subslice panics, which is the value \<open>None\<close> of the functions below; within it, \<open>Some\<close> of what the code returns.
\<close>

section \<open>Slices\<close>

definition get_u8 :: "bytes \<Rightarrow> nat \<Rightarrow> u8 option" where
  "get_u8 b i = (if i < length b then Some (b ! i) else None)"

definition get_u16 :: "bytes \<Rightarrow> nat \<Rightarrow> u16 option" where
  "get_u16 b i = do { x \<leftarrow> get_u8 b i; y \<leftarrow> get_u8 b (i + 1); Some (u16_from_be x y) }"

definition subslice :: "bytes \<Rightarrow> nat \<Rightarrow> nat \<Rightarrow> bytes option" where
  "subslice b i j = (if i \<le> j \<and> j \<le> length b then Some (take (j - i) (drop i b)) else None)"

section \<open>The server name\<close>

text \<open>The names of the extension, from \<open>ep\<close> up to its end.\<close>

function sni_names :: "bytes \<Rightarrow> nat \<Rightarrow> nat \<Rightarrow> string option option" where
  "sni_names hs fin ep =
     (if ep + 3 > fin then Some None
      else do {
        ty \<leftarrow> get_u8 hs ep;
        w \<leftarrow> get_u16 hs (ep + 1);
        let n = unat w;
        (if ep + 3 + n \<le> fin \<and> ty = 0
         then do {
           s \<leftarrow> subslice hs (ep + 3) (ep + 3 + n);
           (if utf8_valid (of_bytes s) then Some (Some (of_bytes s)) else sni_names hs fin (ep + 3 + n)) }
         else sni_names hs fin (ep + 3 + n)) })"
  by pat_completeness auto
termination by (relation "measure (\<lambda>(hs, fin, ep). fin - ep)") auto

declare sni_names.simps [simp del]

function sni_extensions :: "bytes \<Rightarrow> nat \<Rightarrow> string option option" where
  "sni_extensions hs pos =
     (if pos + 4 > length hs then Some None
      else do {
        ty \<leftarrow> get_u16 hs pos;
        w \<leftarrow> get_u16 hs (pos + 2);
        let n = unat w;
        (if pos + 4 + n > length hs then Some None
         else if ty = 0
         then (if pos + 4 + 2 > pos + 4 + n then Some None
               else do {
                 _ \<leftarrow> get_u16 hs (pos + 4);
                 r \<leftarrow> sni_names hs (pos + 4 + n) (pos + 4 + 2);
                 (case r of Some name \<Rightarrow> Some (Some name) | None \<Rightarrow> sni_extensions hs (pos + 4 + n)) })
         else sni_extensions hs (pos + 4 + n)) })"
  by pat_completeness auto
termination by (relation "measure (\<lambda>(hs, pos). length hs - pos)") auto

declare sni_extensions.simps [simp del]

definition parse_sni :: "bytes \<Rightarrow> string option option" where
  "parse_sni data =
     (if length data < 44 then Some None
      else do {
        b \<leftarrow> get_u8 data 0;
        (if b \<noteq> 0x16 then Some None
         else do {
           hs \<leftarrow> subslice data 5 (length data);
           h \<leftarrow> get_u8 hs 0;
           (if h \<noteq> 0x01 \<or> 38 \<ge> length hs then Some None
            else do {
              sid \<leftarrow> get_u8 hs 38;
              let p1 = 38 + 1 + unat sid;
              (if p1 + 2 > length hs then Some None
               else do {
                 cipher_len \<leftarrow> get_u16 hs p1;
                 let p2 = p1 + 2 + unat cipher_len;
                 (if p2 + 1 > length hs then Some None
                  else do {
                    comp_len \<leftarrow> get_u8 hs p2;
                    let p3 = p2 + 1 + unat comp_len;
                    (if p3 + 2 > length hs then Some None
                     else do {
                       _ \<leftarrow> get_u16 hs p3;
                       sni_extensions hs (p3 + 2) }) }) }) }) }) })"

section \<open>The connection\<close>

text \<open>The reads of the head of the connection: data (none at the end), or an error or time-out; at most
  4096 bytes are kept. The outcome is what was read and the name, or that the handler fails.\<close>

datatype tls_read = TlsData bytes | TlsFailed

fun read_hello :: "bytes \<Rightarrow> tls_read list \<Rightarrow> (bytes \<times> string option) option" where
  "read_hello buf [] = None"
| "read_hello buf (TlsFailed # rs) = None"
| "read_hello buf (TlsData b # rs) =
     (if b = [] then Some (buf, None)
      else let buf' = buf @ take (4096 - length buf) b
           in if length buf' \<ge> 44
              then (case parse_sni buf' of
                      None \<Rightarrow> None
                    | Some (Some name) \<Rightarrow> Some (buf', Some name)
                    | Some None \<Rightarrow> if length buf' < 4096 then read_hello buf' rs else Some (buf', None))
              else read_hello buf' rs)"

text \<open>A service that is found, enabled and healthy.\<close>

definition available_host :: "string \<Rightarrow> 's registry \<Rightarrow> nat option" where
  "available_host h r =
     (case get_service_by_host h r of
        Some i \<Rightarrow> if enabled (store r ! i) \<and> healthy (store r ! i) then Some i else None
      | None \<Rightarrow> None)"

text \<open>What the tunnel gets before the two directions are copied, if there is one; nothing is ever written to
  the peer. Failures of the PROXY header are ignored.\<close>

definition handle_https_vhost_conn ::
  "string \<Rightarrow> ('s registry \<Rightarrow> 's registry) \<Rightarrow> tls_read list \<Rightarrow> socket_addr \<Rightarrow> socket_addr option
    \<Rightarrow> 's registry \<Rightarrow> bytes option \<times> 's registry" where
  "handle_https_vhost_conn tid meanwhile reads src dst r =
     (case read_hello [] reads of
        None \<Rightarrow> (None, r)
      | Some (buf, sni) \<Rightarrow>
          (case available_host (case sni of None \<Rightarrow> [] | Some h \<Rightarrow> h) r of
             None \<Rightarrow> (None, r)
           | Some i \<Rightarrow>
               (case open_tunnel_begin tid (store r ! i) (Some src) dst r of
                  (Inl _, r1) \<Rightarrow> (None, r1)
                | (Inr n, r1) \<Rightarrow>
                    (case open_tunnel_end tid n (meanwhile r1) of
                       (Inl _, r2) \<Rightarrow> (None, r2)
                     | (Inr _, r2) \<Rightarrow> (Some (tunnel_preamble (store r ! i) src dst buf), r2)))))"

section \<open>No panic\<close>

lemma get_u8_ok: "i < length b \<Longrightarrow> get_u8 b i = Some (b ! i)"
  by (simp add: get_u8_def)

lemma get_u16_ok: "i + 1 < length b \<Longrightarrow> get_u16 b i = Some (u16_from_be (b ! i) (b ! (i + 1)))"
  by (simp add: get_u16_def get_u8_def)

lemma subslice_ok: "i \<le> j \<Longrightarrow> j \<le> length b \<Longrightarrow> subslice b i j = Some (take (j - i) (drop i b))"
  by (simp add: subslice_def)

lemmas in_bounds = get_u8_ok get_u16_ok subslice_ok

lemma sni_names_ok: "fin \<le> length hs \<Longrightarrow> sni_names hs fin ep \<noteq> None"
proof (induction hs fin ep rule: sni_names.induct)
  case (1 hs fin ep)
  then show ?case by (subst sni_names.simps) (simp add: in_bounds Let_def)
qed

text \<open>One extension, with its type and size.\<close>

lemma sni_extensions_step:
  assumes "get_u16 hs pos = Some ty" "get_u16 hs (pos + 2) = Some w" "n = unat w" "pos + 4 \<le> length hs"
  shows "sni_extensions hs pos =
    (if pos + 4 + n > length hs then Some None
     else if ty = 0 then
       (if n < 2 then Some None
        else do {
          r \<leftarrow> sni_names hs (pos + 4 + n) (pos + 4 + 2);
          (case r of Some name \<Rightarrow> Some (Some name) | None \<Rightarrow> sni_extensions hs (pos + 4 + n)) })
     else sni_extensions hs (pos + 4 + n))"
proof -
  have "\<exists>x. get_u16 hs (pos + 4) = Some x" if "pos + 4 + n \<le> length hs" "2 \<le> n"
    using that by (simp add: in_bounds)
  with assms show ?thesis
    by (subst sni_extensions.simps) (auto simp: Let_def simp del: add_2_eq_Suc')
qed

lemma sni_extensions_ok: "sni_extensions hs pos \<noteq> None"
proof (induction "length hs - pos" arbitrary: pos rule: less_induct)
  case less
  show ?case
  proof (cases "pos + 4 \<le> length hs")
    case True
    obtain ty w where g: "get_u16 hs pos = Some ty" "get_u16 hs (pos + 2) = Some w"
      using True by (simp add: in_bounds eval_nat_numeral)
    have later: "sni_extensions hs (pos + 4 + unat w) \<noteq> None" by (rule less) (use True in linarith)
    have "sni_names hs (pos + 4 + unat w) (pos + 4 + 2) \<noteq> None" if "\<not> pos + 4 + unat w > length hs"
      using that by (intro sni_names_ok) simp
    with later show ?thesis
      unfolding sni_extensions_step[OF g refl True] by (auto simp: bind_eq_None_conv split: option.split)
  qed (subst sni_extensions.simps, simp)
qed

text \<open>\<^bold>\<open>C37\<close>: the parser of the server name never panics. Whatever bytes a peer sends, every access is
  inside the subslice, and the search ends, with a name or without.\<close>

theorem sni_no_panic: "parse_sni data \<noteq> None"
proof (cases "length data < 44")
  case False
  then have "data \<noteq> []" "39 \<le> length (drop 5 data)" by auto
  with False show ?thesis
    using sni_extensions_ok[of "drop 5 data"]
    by (simp add: parse_sni_def in_bounds Let_def del: not_None_eq)
qed (simp add: parse_sni_def)

section \<open>Round trip\<close>

text \<open>The message that a client sends: the parts that the parser skips are arbitrary.\<close>

definition put_ext :: "u16 \<Rightarrow> bytes \<Rightarrow> bytes" where
  "put_ext ty body = put_u16 ty @ put_u16 (of_nat (length body)) @ body"

definition sni_body :: "bytes \<Rightarrow> bytes" where
  "sni_body name = put_u16 (of_nat (length name + 3)) @ [0] @ put_u16 (of_nat (length name)) @ name"

record hello =
  record_rest :: bytes
  fixed_part :: bytes
  session_id :: bytes
  ciphers :: bytes
  compressions :: bytes
  exts_len :: u16
  exts_before :: "(u16 \<times> bytes) list"
  after :: bytes

definition client_hello :: "hello \<Rightarrow> bytes \<Rightarrow> bytes" where
  "client_hello h name =
     0x16 # record_rest h @ 0x01 # fixed_part h
     @ of_nat (length (session_id h)) # session_id h
     @ put_u16 (of_nat (length (ciphers h))) @ ciphers h
     @ of_nat (length (compressions h)) # compressions h
     @ put_u16 (exts_len h) @ concat (map (\<lambda>(ty, b). put_ext ty b) (exts_before h))
     @ put_ext 0 (sni_body name) @ after h"

definition hello_ok :: "hello \<Rightarrow> bytes \<Rightarrow> bool" where
  "hello_ok h name \<longleftrightarrow> length (record_rest h) = 4 \<and> length (fixed_part h) = 37 \<and> length (session_id h) < 256
     \<and> length (ciphers h) < 2 ^ 16 \<and> length (compressions h) < 256
     \<and> (\<forall>(ty, b) \<in> set (exts_before h). ty \<noteq> 0 \<and> length b < 2 ^ 16)
     \<and> length name + 5 < 2 ^ 16 \<and> utf8_valid (of_bytes name)"

lemma get_u8_append: "get_u8 (p @ x # q) (length p) = Some x"
  by (simp add: get_u8_def nth_append)

lemma get_u16_append: "get_u16 (p @ put_u16 x @ q) (length p) = Some x"
  by (simp add: get_u16_def get_u8_def nth_append put_u16_def)

lemma unat_byte: "n < 256 \<Longrightarrow> unat (of_nat n :: u8) = n"
  by (simp add: unat_of_nat take_bit_nat_eq_self)

lemma skip_extension:
  assumes "ty \<noteq> 0" "length b < 2 ^ 16" "hs = p @ put_ext ty b @ q"
  shows "sni_extensions hs (length p) = sni_extensions hs (length (p @ put_ext ty b))"
proof -
  have "get_u16 hs (length p) = Some ty" unfolding assms(3) put_ext_def by (simp add: get_u16_append)
  moreover have "get_u16 hs (length p + 2) = Some (of_nat (length b))"
    using get_u16_append[of "p @ put_u16 ty" "of_nat (length b)" "b @ q"] unfolding assms(3) put_ext_def by simp
  moreover have "length b = unat (of_nat (length b) :: u16)" using assms(2) by simp
  moreover have "length p + 4 \<le> length hs" "\<not> length p + 4 + length b > length hs"
    by (simp_all add: assms(3) put_ext_def)
  moreover have "length p + 4 + length b = length (p @ put_ext ty b)" by (simp add: put_ext_def)
  ultimately show ?thesis using assms(1) sni_extensions_step[of hs "length p"] by metis
qed

lemma skip_extensions:
  assumes "\<forall>(ty, b) \<in> set es. ty \<noteq> 0 \<and> length b < 2 ^ 16" "hs = p @ concat (map (\<lambda>(ty, b). put_ext ty b) es) @ q"
  shows "sni_extensions hs (length p) = sni_extensions hs (length (p @ concat (map (\<lambda>(ty, b). put_ext ty b) es)))"
  using assms
proof (induction es arbitrary: p)
  case (Cons e es)
  obtain ty b where e: "e = (ty, b)" by (cases e)
  have "sni_extensions hs (length p) = sni_extensions hs (length (p @ put_ext ty b))"
    by (rule skip_extension) (use Cons.prems e in auto)
  also have "\<dots> = sni_extensions hs (length ((p @ put_ext ty b) @ concat (map (\<lambda>(ty, b). put_ext ty b) es)))"
    by (rule Cons.IH) (use Cons.prems e in auto)
  finally show ?case by (simp add: e)
qed simp

lemma sni_found:
  assumes "length name + 5 < 2 ^ 16" "utf8_valid (of_bytes name)" "hs = p @ put_ext 0 (sni_body name) @ q"
  shows "sni_extensions hs (length p) = Some (Some (of_bytes name))"
proof -
  let ?n = "length name"
  have len: "length (sni_body name) = ?n + 5" by (simp add: sni_body_def)
  have ty: "get_u16 hs (length p) = Some 0" unfolding assms(3) put_ext_def by (simp add: get_u16_append)
  have size: "get_u16 hs (length p + 2) = Some (of_nat (length (sni_body name)))"
    using get_u16_append[of "p @ put_u16 0" "of_nat (length (sni_body name))" "sni_body name @ q"]
    unfolding assms(3) put_ext_def by simp
  have n5: "?n + 5 = unat (of_nat (length (sni_body name)) :: u16)"
    unfolding len by (rule unat_of_nat_u16[symmetric]) (rule assms(1))
  define p4 where "p4 = p @ put_u16 0 @ put_u16 (of_nat (length (sni_body name)))"
  define w where "w = (of_nat (?n + 3) :: u16)"
  have hs4: "hs = p4 @ put_u16 w @ 0 # put_u16 (of_nat ?n) @ name @ q"
    by (simp add: assms(3) p4_def w_def put_ext_def sni_body_def)
  have l4: "length p + 4 = length p4" by (simp add: p4_def)
  have nty: "get_u8 hs (length p4 + 2) = Some 0"
    using get_u8_append[of "p4 @ put_u16 w" 0] unfolding hs4 by simp
  have nlen: "get_u16 hs (length p4 + 2 + 1) = Some (of_nat ?n)"
    using get_u16_append[of "p4 @ put_u16 w @ [0]" "of_nat ?n" "name @ q"] unfolding hs4 by (simp add: eval_nat_numeral)
  have sl: "subslice hs (length p4 + 2 + 3) (length p4 + 2 + 3 + ?n) = Some name"
    unfolding hs4 by (simp add: subslice_def put_u16_def)
  have un: "unat (of_nat ?n :: u16) = ?n" by (rule unat_of_nat_u16) (use assms(1) in simp)
  have "sni_names hs (length p4 + (?n + 5)) (length p4 + 2) = Some (Some (of_bytes name))"
    using assms(2) nty nlen sl by (subst sni_names.simps) (simp add: un Let_def)
  moreover have "\<not> length p4 + (?n + 5) > length hs" unfolding hs4 by simp
  moreover have "length p + 4 \<le> length hs" unfolding l4 hs4 by simp
  ultimately show ?thesis
    unfolding sni_extensions_step[OF ty size n5 \<open>length p + 4 \<le> length hs\<close>] l4 by simp
qed

text \<open>The extensions before the server name are skipped.\<close>

lemma hello_extensions:
  assumes "hello_ok h name"
  shows "sni_extensions (q @ concat (map (\<lambda>(ty, b). put_ext ty b) (exts_before h)) @ put_ext 0 (sni_body name) @ after h) (length q)
    = Some (Some (of_bytes name))"
proof -
  define es where "es = concat (map (\<lambda>(ty, b). put_ext ty b) (exts_before h))"
  define hs where "hs = q @ es @ put_ext 0 (sni_body name) @ after h"
  have "sni_extensions hs (length q) = sni_extensions hs (length (q @ es))"
    unfolding es_def
    by (rule skip_extensions[where q = "put_ext 0 (sni_body name) @ after h"]) (use assms in \<open>auto simp: hello_ok_def hs_def es_def\<close>)
  also have "\<dots> = Some (Some (of_bytes name))"
    by (rule sni_found[where q = "after h"]) (use assms in \<open>simp_all add: hello_ok_def hs_def\<close>)
  finally show ?thesis unfolding hs_def es_def .
qed

text \<open>\<^bold>\<open>C36\<close>: the server name is found. Whatever session identifier, cipher suites, compression methods and
  other extensions a client's first message has, the name in its server name extension is what the
  parser returns.\<close>

theorem sni_roundtrip:
  assumes "hello_ok h name"
  shows "parse_sni (client_hello h name) = Some (Some (of_bytes name))"
proof -
  define q0 where "q0 = 0x01 # fixed_part h"
  define q1 where "q1 = q0 @ of_nat (length (session_id h)) # session_id h"
  define q2 where "q2 = q1 @ put_u16 (of_nat (length (ciphers h))) @ ciphers h"
  define q3 where "q3 = q2 @ of_nat (length (compressions h)) # compressions h"
  define q4 where "q4 = q3 @ put_u16 (exts_len h)"
  define es where "es = concat (map (\<lambda>(ty, b). put_ext ty b) (exts_before h))"
  define t where "t = put_ext 0 (sni_body name) @ after h"
  define hs where "hs = q4 @ es @ t"
  have data: "client_hello h name = 0x16 # record_rest h @ hs"
    by (simp add: client_hello_def hs_def es_def t_def q0_def q1_def q2_def q3_def q4_def)
  have l0: "length q0 = 38" using assms by (simp add: q0_def hello_ok_def)
  have drop5: "drop 5 (client_hello h name) = hs" and len: "length (client_hello h name) = 5 + length hs"
    using assms by (simp_all add: data hello_ok_def)
  have long: "44 \<le> 5 + length hs" using l0 by (simp add: hs_def q1_def q2_def q3_def q4_def t_def put_ext_def)
  have sid: "get_u8 hs 38 = Some (of_nat (length (session_id h)))"
    using get_u8_append[of q0] l0 by (simp add: hs_def q1_def q2_def q3_def q4_def)
  have ciph: "get_u16 hs (length q1) = Some (of_nat (length (ciphers h)))"
    using get_u16_append[of q1] by (simp add: hs_def q2_def q3_def q4_def)
  have comp: "get_u8 hs (length q2) = Some (of_nat (length (compressions h)))"
    using get_u8_append[of q2] by (simp add: hs_def q3_def q4_def)
  have el: "get_u16 hs (length q3) = Some (exts_len h)"
    using get_u16_append[of q3] by (simp add: hs_def q4_def)
  have u: "unat (of_nat (length (session_id h)) :: u8) = length (session_id h)"
    "unat (of_nat (length (ciphers h)) :: u16) = length (ciphers h)"
    "unat (of_nat (length (compressions h)) :: u8) = length (compressions h)"
    using assms by (simp_all add: hello_ok_def unat_byte)
  have p: "38 + 1 + length (session_id h) = length q1" "length q1 + 2 + length (ciphers h) = length q2"
    "length q2 + 1 + length (compressions h) = length q3" "length q3 + 2 = length q4"
    using l0 by (simp_all add: q1_def q2_def q3_def q4_def)
  have b: "\<not> length q1 + 2 > length hs" "\<not> length q2 + 1 > length hs" "\<not> length q4 > length hs" "38 < length hs"
    using l0 by (simp_all add: hs_def q1_def q2_def q3_def q4_def)
  have head: "get_u8 (client_hello h name) 0 = Some 0x16" "get_u8 hs 0 = Some 0x01"
    "subslice (client_hello h name) 5 (length (client_hello h name)) = Some hs"
    using drop5 len by (simp_all add: get_u8_def data subslice_def hs_def q0_def q1_def q2_def q3_def q4_def)
  have ext: "sni_extensions hs (length q4) = Some (Some (of_bytes name))"
    unfolding hs_def es_def t_def by (rule hello_extensions[OF assms])
  show ?thesis
    using long unfolding parse_sni_def len
    by (simp only: head[unfolded len] sid Let_def u p ciph comp el ext b bind.bind_lunit not_less[symmetric] if_False simp_thms)
qed

definition demo_hello :: hello where
  "demo_hello = \<lparr>record_rest = [3, 1, 0, 80], fixed_part = replicate 37 7, session_id = [1, 2], ciphers = [0x13, 1],
     compressions = [0], exts_len = 30, exts_before = [(16, [0, 3, 2, 104, 50])], after = []\<rparr>"

theorem sni_roundtrip_witness:
  "parse_sni (client_hello demo_hello (to_bytes ''a.b'')) = Some (Some ''a.b'')"
proof -
  have "length (to_bytes ''a.b'') = 3" by (simp add: to_bytes_def)
  then have "hello_ok demo_hello (to_bytes ''a.b'')"
    by (simp add: hello_ok_def demo_hello_def byte_def)
  from sni_roundtrip[OF this] show ?thesis unfolding of_to_bytes .
qed

end
