(* ===== verification/Vhost_Http.thy ===== *)
theory Vhost_Http
  imports Vhost_Tls
begin

text \<open>
  Virtual hosts over HTTP (\<^verbatim>\<open>cross233-server/src/http_vhost.rs\<close>) and the TCP multiplexer
  (\<^verbatim>\<open>cross233-server/src/tcpmux.rs\<close>): the head of the connection is read, it selects a service, and the
  connection goes on through a tunnel. The stream of the peer is the string of the bytes it sends before it
  closes. Base64 decoding is the parameter \<open>b64\<close>.
\<close>

abbreviation CRLF :: string where "CRLF \<equiv> [CHR 0x0D, CHR 0x0A]"
abbreviation CRLF2 :: string where "CRLF2 \<equiv> [CHR 0x0D, CHR 0x0A, CHR 0x0D, CHR 0x0A]"

section \<open>Headers\<close>

text \<open>The offset of the first empty line, 0 when there is none.\<close>

fun find_crlf2 :: "nat \<Rightarrow> string \<Rightarrow> nat option" where
  "find_crlf2 i [] = None"
| "find_crlf2 i (c # s) = (if take 4 (c # s) = CRLF2 then Some i else find_crlf2 (i + 1) s)"

definition headers_end :: "string \<Rightarrow> nat" where
  "headers_end data = (case find_crlf2 0 data of Some i \<Rightarrow> i | None \<Rightarrow> 0)"

text \<open>A slice of a line up to byte 5 panics (\<open>None\<close>) inside of a character.\<close>

fun host_of_lines :: "string list \<Rightarrow> string option option" where
  "host_of_lines [] = Some None"
| "host_of_lines (l # ls) =
     (if length l > 5 then
        (if cont (l ! 5) then None
         else if eq_ignore_ascii_case (take 5 l) ''host:''
         then Some (Some (hd (split_char (CHR '':'') (trim (drop 5 l)))))
         else host_of_lines ls)
      else host_of_lines ls)"

definition extract_host :: "string \<Rightarrow> string option option" where
  "extract_host data =
     (let h = take (headers_end data) data
      in if utf8_valid h then host_of_lines (split_crlf h) else Some None)"

definition credentials :: "string \<Rightarrow> string \<times> string" where
  "credentials s = (hd (split_char (CHR '':'') s), (case split_once (CHR '':'') s of Some (_, p) \<Rightarrow> p | None \<Rightarrow> []))"

fun auth_lines :: "(string \<Rightarrow> string option) \<Rightarrow> string \<Rightarrow> string \<Rightarrow> string list \<Rightarrow> bool" where
  "auth_lines b64 user pass [] = False"
| "auth_lines b64 user pass (l # ls) =
     (let lower = to_ascii_lowercase l
      in if starts_with lower ''authorization:'' \<or> starts_with lower ''proxy-authorization:''
         then (let val = trim (case split_once (CHR '':'') l of Some (_, v) \<Rightarrow> v | None \<Rightarrow> [])
               in case (case strip_prefix ''Basic '' val of Some x \<Rightarrow> Some x | None \<Rightarrow> strip_prefix ''basic '' val) of
                    None \<Rightarrow> auth_lines b64 user pass ls
                  | Some e \<Rightarrow>
                      (case b64 (trim e) of
                         None \<Rightarrow> auth_lines b64 user pass ls
                       | Some d \<Rightarrow> if utf8_valid d then credentials d = (user, pass) else auth_lines b64 user pass ls))
         else auth_lines b64 user pass ls)"

definition check_basic_auth :: "(string \<Rightarrow> string option) \<Rightarrow> string \<Rightarrow> string \<Rightarrow> string \<Rightarrow> bool" where
  "check_basic_auth b64 data user pass \<longleftrightarrow>
     (let h = take (headers_end data) data in utf8_valid h \<and> auth_lines b64 user pass (split_crlf h))"

section \<open>The connection\<close>

text \<open>Byte by byte up to the empty line.\<close>

fun read_head :: "string \<Rightarrow> string \<Rightarrow> string + string \<times> string" where
  "read_head buf [] = Inl ''connection closed before headers''"
| "read_head buf (c # s) =
     (let buf' = buf @ [c]
      in if ends_with buf' CRLF2 then Inr (buf', s)
         else if length buf' > 65536 then Inl ''headers too large''
         else read_head buf' s)"

definition reply_404_vhost :: string where
  "reply_404_vhost = ''HTTP/1.1 404 Not Found'' @ CRLF @ ''Content-Length: 13'' @ CRLF @ ''Connection: close'' @ CRLF2 @ ''no such vhost''"

definition reply_407 :: string where
  "reply_407 = ''HTTP/1.1 407 Proxy Authentication Required'' @ CRLF @ ''Proxy-Authenticate: Basic realm='' @ [CHR 0x22] @ ''cross233'' @ [CHR 0x22]
     @ CRLF @ ''Content-Length: 14'' @ CRLF @ ''Connection: close'' @ CRLF2 @ ''auth required''"

definition reply_504 :: string where
  "reply_504 = ''HTTP/1.1 504 Gateway Timeout'' @ CRLF @ ''Content-Length: 15'' @ CRLF @ ''Connection: close'' @ CRLF2 @ ''tunnel timeout''"

text \<open>The lines of the rewritten head.\<close>

definition rewrite_line :: "string \<Rightarrow> string \<Rightarrow> string" where
  "rewrite_line rewrite l = (if starts_with (to_ascii_lowercase l) ''host:'' then ''Host: '' @ rewrite else l)"

definition rewrite_request :: "string \<Rightarrow> (string, string) hmap \<Rightarrow> string \<Rightarrow> string" where
  "rewrite_request rewrite extra buf =
     (if utf8_valid buf
      then (case split_crlf buf of
              [] \<Rightarrow> []
            | l # ls \<Rightarrow> l @ CRLF @ concat (map (\<lambda>x. rewrite_line rewrite x @ CRLF) ls))
           @ concat (map (\<lambda>(k, v). k @ '': '' @ v @ CRLF) extra)
      else buf)"

definition forwarded_head :: "service \<Rightarrow> string \<Rightarrow> string" where
  "forwarded_head svc buf =
     (case host_header_rewrite svc of Some rewrite \<Rightarrow> rewrite_request rewrite (request_headers svc) buf | None \<Rightarrow> buf)"

text \<open>How a connection ends: without a word, with a panic, with a reply, or in a tunnel. Then the handler
  writes some bytes to the tunnel and some to the peer, and the copying of the two directions starts with
  what the peer had sent and the handler had not read.\<close>

datatype vhost_outcome =
  VClosed | VPanic | VReply string | VTunnel (to_tunnel: bytes) (to_peer: string) (unread: string)

definition into_tunnel ::
  "string \<Rightarrow> ('s registry \<Rightarrow> 's registry) \<Rightarrow> service_entry \<Rightarrow> socket_addr \<Rightarrow> socket_addr option \<Rightarrow> bytes
    \<Rightarrow> string \<Rightarrow> string \<Rightarrow> 's registry \<Rightarrow> vhost_outcome \<times> 's registry" where
  "into_tunnel tid meanwhile e src dst first answer rest r =
     (case open_tunnel_begin tid e (Some src) dst r of
        (Inl _, r1) \<Rightarrow> (VReply reply_504, r1)
      | (Inr n, r1) \<Rightarrow>
          (case open_tunnel_end tid n (meanwhile r1) of
             (Inl _, r2) \<Rightarrow> (VReply reply_504, r2)
           | (Inr _, r2) \<Rightarrow> (VTunnel (tunnel_preamble e src dst first) answer rest, r2)))"

definition needs_auth :: "(string \<Rightarrow> string option) \<Rightarrow> service \<Rightarrow> string \<Rightarrow> bool" where
  "needs_auth b64 svc buf \<longleftrightarrow>
     (case (http_user svc, http_password svc) of (Some u, Some p) \<Rightarrow> \<not> check_basic_auth b64 buf u p | _ \<Rightarrow> False)"

definition handle_http_vhost_conn ::
  "(string \<Rightarrow> string option) \<Rightarrow> string \<Rightarrow> ('s registry \<Rightarrow> 's registry) \<Rightarrow> string \<Rightarrow> socket_addr \<Rightarrow> socket_addr option
    \<Rightarrow> 's registry \<Rightarrow> vhost_outcome \<times> 's registry" where
  "handle_http_vhost_conn b64 tid meanwhile input src dst r =
     (case read_head [] input of
        Inl _ \<Rightarrow> (VClosed, r)
      | Inr (buf, rest) \<Rightarrow>
          (case extract_host buf of
             None \<Rightarrow> (VPanic, r)
           | Some h \<Rightarrow>
               (case available_host (case h of None \<Rightarrow> [] | Some x \<Rightarrow> x) r of
                  None \<Rightarrow> (VReply reply_404_vhost, r)
                | Some i \<Rightarrow>
                    if needs_auth b64 (config (store r ! i)) buf then (VReply reply_407, r)
                    else into_tunnel tid meanwhile (store r ! i) src dst
                           (to_bytes (forwarded_head (config (store r ! i)) buf)) [] rest r)))"

section \<open>The multiplexer\<close>

text \<open>Only the first line is read; the rest of the request stays in the stream and goes to the tunnel.\<close>

fun read_connect :: "string \<Rightarrow> string \<Rightarrow> string + string \<times> string" where
  "read_connect buf [] = Inl ''closed''"
| "read_connect buf (c # s) =
     (let buf' = buf @ [c]
      in if ends_with buf' CRLF then Inr (buf', s)
         else if length buf' > 8192 then Inl ''request too large''
         else read_connect buf' s)"

definition reply_400 :: string where
  "reply_400 = ''HTTP/1.1 400 Bad Request'' @ CRLF @ ''Content-Length: 15'' @ CRLF @ ''Connection: close'' @ CRLF2 @ ''expecting CONNECT''"

definition reply_404_host :: string where
  "reply_404_host = ''HTTP/1.1 404 Not Found'' @ CRLF @ ''Content-Length: 13'' @ CRLF @ ''Connection: close'' @ CRLF2 @ ''no such host''"

definition reply_200 :: string where
  "reply_200 = ''HTTP/1.1 200 Connection Established'' @ CRLF2"

definition nth_word :: "nat \<Rightarrow> string list \<Rightarrow> string" where
  "nth_word i ws = (if i < length ws then ws ! i else [])"

definition handle_tcpmux_conn ::
  "string \<Rightarrow> ('s registry \<Rightarrow> 's registry) \<Rightarrow> string \<Rightarrow> socket_addr \<Rightarrow> socket_addr option \<Rightarrow> 's registry
    \<Rightarrow> vhost_outcome \<times> 's registry" where
  "handle_tcpmux_conn tid meanwhile input src dst r =
     (case read_connect [] input of
        Inl _ \<Rightarrow> (VClosed, r)
      | Inr (buf, rest) \<Rightarrow>
          let ws = split_whitespace (from_utf8_lossy buf); target = nth_word 1 ws
          in if \<not> eq_ignore_ascii_case (nth_word 0 ws) ''CONNECT'' then (VReply reply_400, r)
             else (case available_host (hd (split_char (CHR '':'') target)) r of
                     None \<Rightarrow> (VReply reply_404_host, r)
                   | Some i \<Rightarrow> into_tunnel tid meanwhile (store r ! i) src dst [] reply_200 rest r))"

section \<open>Requests\<close>

text \<open>The head of a request with these lines.\<close>

definition request_head :: "string list \<Rightarrow> string" where
  "request_head ls = concat (map (\<lambda>l. l @ CRLF) ls) @ CRLF"

definition plain_line :: "string \<Rightarrow> bool" where
  "plain_line l \<longleftrightarrow> l \<noteq> [] \<and> CHR 0x0D \<notin> set l \<and> CHR 0x0A \<notin> set l \<and> (\<forall>c \<in> set l. byte c < 0x80)"

lemma split_request_head: "\<forall>l \<in> set ls. plain_line l \<Longrightarrow> split_crlf (request_head ls) = ls @ [[], []]"
proof (induction ls)
  case (Cons l ls)
  then have "CHR 0x0D \<notin> set l" by (simp add: plain_line_def)
  from split_crlf_append[OF this, of "request_head ls"] Cons show ?case by (simp add: request_head_def)
qed (simp add: request_head_def)

lemma request_head_ascii: "\<forall>l \<in> set ls. plain_line l \<Longrightarrow> utf8_valid (request_head ls)"
  by (rule utf8_valid_ascii) (auto simp: request_head_def plain_line_def byte_def)

text \<open>The rewriting of the host shifts the body. When a service has its host header rewritten, the
  head that goes to the local service is followed by one more empty line and then by the configured
  extra headers: they come after the end of the head, where they are no headers but the start of the
  body, and every request with a body is corrupted by them.\<close>

theorem host_rewrite_shifts_body:
  assumes "\<forall>l \<in> set (l0 # ls). plain_line l" "host_header_rewrite svc = Some rewrite"
  shows "forwarded_head svc (request_head (l0 # ls)) =
    request_head (l0 # map (rewrite_line rewrite) ls) @ CRLF
    @ concat (map (\<lambda>(k, v). k @ '': '' @ v @ CRLF) (request_headers svc))"
proof -
  have "rewrite_line rewrite [] = []" by (simp add: rewrite_line_def starts_with_def to_ascii_lowercase_def)
  then have "concat (map (\<lambda>x. rewrite_line rewrite x @ CRLF) (ls @ [[], []])) = request_head (map (rewrite_line rewrite) ls) @ CRLF"
    by (simp add: request_head_def o_def)
  then show ?thesis
    using assms request_head_ascii[OF assms(1)] split_request_head[OF assms(1)]
    by (simp add: forwarded_head_def rewrite_request_def) (simp add: request_head_def)
qed

section \<open>Routing\<close>

text \<open>The empty line occurs in a head at its end only.\<close>

lemma request_head_Cons: "request_head (l # ls) = l @ CRLF @ request_head ls"
  by (simp add: request_head_def)

lemma empty_line_last:
  assumes "\<forall>l \<in> set ls. plain_line l" "ls \<noteq> []" "request_head ls = x @ CRLF2 @ y"
  shows "y = []"
  using assms
proof (induction ls arbitrary: x)
  case (Cons l ls)
  have l: "CHR 0x0D \<notin> set l" "l \<noteq> []" using Cons.prems(1) by (auto simp: plain_line_def)
  have eq: "l @ CRLF @ request_head ls = x @ CRLF2 @ y" using Cons.prems(3) by (simp only: request_head_Cons)
  have split: "ls = [] \<or> (\<exists>c t. request_head ls = c # t \<and> c \<noteq> CHR 0x0D)"
  proof (cases ls)
    case (Cons k ks)
    then have "plain_line k" using Cons.prems(1) by simp
    then show ?thesis using Cons by (cases k) (auto simp: plain_line_def request_head_Cons)
  qed simp
  from eq obtain u where "l = x @ u \<and> u @ CRLF @ request_head ls = CRLF2 @ y \<or> l @ u = x \<and> CRLF @ request_head ls = u @ CRLF2 @ y"
    by (auto simp: append_eq_append_conv2)
  then show ?case
  proof
    assume u: "l = x @ u \<and> u @ CRLF @ request_head ls = CRLF2 @ y"
    show ?thesis
    proof (cases u)
      case Nil
      with u split show ?thesis by (auto simp: request_head_def)
    next
      case (Cons c t)
      with u l(1) show ?thesis by auto
    qed
  next
    assume "l @ u = x \<and> CRLF @ request_head ls = u @ CRLF2 @ y"
    then have u: "CRLF @ request_head ls = u @ CRLF2 @ y" by simp
    then consider "u = []" | "u = [CHR 0x0D]" | v where "u = CRLF @ v" "request_head ls = v @ CRLF2 @ y"
      by (cases u rule: split_crlf.cases) auto
    then show ?thesis
    proof cases
      case 1
      with u split show ?thesis by (auto simp: request_head_def)
    next
      case 2
      with u show ?thesis by simp
    next
      case 3
      show ?thesis
      proof (cases "ls = []")
        case True
        with 3(2) show ?thesis by (cases v rule: split_crlf.cases) (auto simp: request_head_def)
      qed (use Cons 3 in auto)
    qed
  qed
qed simp

lemma find_crlf2_Some: "find_crlf2 i s = Some k \<Longrightarrow> \<exists>x y. s = x @ CRLF2 @ y \<and> k = i + length x"
proof (induction i s rule: find_crlf2.induct)
  case (2 i c s)
  show ?case
  proof (cases "take 4 (c # s) = CRLF2")
    case True
    then have "c # s = CRLF2 @ drop 4 (c # s)" by (metis append_take_drop_id)
    with True 2(2) show ?thesis by (intro exI[of _ "[]"] exI[of _ "drop 4 (c # s)"]) simp
  next
    case False
    with 2 obtain x y where "s = x @ CRLF2 @ y" "k = i + 1 + length x" by auto
    then show ?thesis by (intro exI[of _ "c # x"] exI[of _ y]) simp
  qed
qed simp

lemma find_crlf2_None: "find_crlf2 i (x @ CRLF2 @ y) \<noteq> None"
  by (induction x arbitrary: i) simp_all

lemma head_shape:
  assumes "\<forall>l \<in> set (l # ls). plain_line l"
  shows "\<exists>x. request_head (l # ls) = x @ CRLF2 \<and> split_crlf x = l # ls \<and> headers_end (request_head (l # ls)) = length x"
proof -
  have ends: "\<exists>x. request_head (l # ls) = x @ CRLF2 \<and> split_crlf x = l # ls" using assms
  proof (induction ls arbitrary: l)
    case Nil
    then have "split_crlf l = [l]"
    proof -
      have "CHR 0x0D \<notin> set w \<Longrightarrow> split_crlf w = [w]" for w by (induction w rule: split_crlf.induct) auto
      then show ?thesis using Nil by (simp add: plain_line_def)
    qed
    then show ?case by (intro exI[of _ l]) (simp add: request_head_def)
  next
    case (Cons k ks)
    then obtain x where "request_head (k # ks) = x @ CRLF2" "split_crlf x = k # ks" by auto
    moreover have "CHR 0x0D \<notin> set l" using Cons.prems by (simp add: plain_line_def)
    ultimately show ?case
      by (intro exI[of _ "l @ CRLF @ x"]) (simp add: request_head_Cons[of l] split_crlf_append)
  qed
  then obtain x where x: "request_head (l # ls) = x @ CRLF2" "split_crlf x = l # ls" by blast
  obtain k where k: "find_crlf2 0 (request_head (l # ls)) = Some k"
    using find_crlf2_None[of 0 x "[]"] by (auto simp: x(1))
  from find_crlf2_Some[OF this] obtain x' y where x': "request_head (l # ls) = x' @ CRLF2 @ y" "k = length x'" by auto
  from empty_line_last[OF assms _ x'(1)] have "y = []" by simp
  with x x' k show ?thesis by (intro exI[of _ x]) (simp add: headers_end_def)
qed

lemma read_head_until:
  assumes "buf @ h2 = h" "h2 \<noteq> []" "ends_with h CRLF2" "length h \<le> 65536"
    and "\<And>p t. p @ t = h \<Longrightarrow> t \<noteq> [] \<Longrightarrow> \<not> ends_with p CRLF2"
  shows "read_head buf (h2 @ rest) = Inr (h, rest)"
  using assms(1,2)
proof (induction h2 arbitrary: buf)
  case (Cons c t)
  show ?case
  proof (cases "t = []")
    case True
    with Cons.prems assms(3) show ?thesis by simp
  next
    case False
    have eq: "(buf @ [c]) @ t = h" using Cons.prems(1) by simp
    then have "length (buf @ [c]) \<le> 65536" using assms(4) by auto
    with assms(5)[OF eq False] Cons.IH[OF eq False] show ?thesis by (simp add: Let_def)
  qed
qed simp

lemma ends_with_CRLF2: "ends_with p CRLF2 \<longleftrightarrow> (\<exists>x. p = x @ CRLF2)"
  by (auto simp: ends_with_def) (metis append_take_drop_id)

lemma read_request_head:
  assumes "\<forall>l \<in> set (l # ls). plain_line l" "length (request_head (l # ls)) \<le> 65536"
  shows "read_head [] (request_head (l # ls) @ body) = Inr (request_head (l # ls), body)"
proof (rule read_head_until)
  show "ends_with (request_head (l # ls)) CRLF2" using head_shape[OF assms(1)] by auto
  fix p t assume pt: "p @ t = request_head (l # ls)" "t \<noteq> []"
  show "\<not> ends_with p CRLF2"
  proof
    assume "ends_with p CRLF2"
    then obtain x where "p = x @ CRLF2" by (auto simp: ends_with_CRLF2)
    with pt(1) have "request_head (l # ls) = x @ CRLF2 @ t" by simp
    from empty_line_last[OF assms(1) _ this] pt(2) show False by simp
  qed
qed (use assms in \<open>simp_all add: request_head_Cons\<close>)

lemma host_of_lines_found:
  assumes "\<forall>l \<in> set pre. plain_line l \<and> \<not> eq_ignore_ascii_case (take 5 l) ''host:''"
    and "plain_line l" "eq_ignore_ascii_case (take 5 l) ''host:''" "5 < length l"
  shows "host_of_lines (pre @ l # post) = Some (Some (hd (split_char (CHR '':'') (trim (drop 5 l)))))"
proof -
  have nc: "\<not> cont (k ! 5)" if "plain_line k" "5 < length k" for k
  proof -
    have "k ! 5 \<in> set k" using that(2) by (rule nth_mem)
    then have "byte (k ! 5) < 0x80" using that(1) by (simp add: plain_line_def)
    then show ?thesis by (simp add: cont_def)
  qed
  from assms(1) show ?thesis
    by (induction pre) (use assms(2-4) nc in auto)
qed


definition demo_lines :: "string list" where
  "demo_lines = [''GET / HTTP/1.1'', ''Host: a.b:80'', ''X: y'']"

lemma demo_plain: "\<forall>l \<in> set ([''GET / HTTP/1.1''] @ ''Host: a.b:80'' # [''X: y'']). plain_line l"
  by (simp add: plain_line_def byte_def)


theorem host_rewrite_shifts_body_witness:
  "forwarded_head (default_service\<lparr>host_header_rewrite := Some ''c'', request_headers := [(''K'', ''v'')]\<rparr>) (request_head demo_lines)
   = request_head [''GET / HTTP/1.1'', ''Host: c'', ''X: y''] @ CRLF @ ''K: v'' @ CRLF"
proof -
  let ?s = "default_service\<lparr>host_header_rewrite := Some ''c'', request_headers := [(''K'', ''v'')]\<rparr>"
  have "rewrite_line ''c'' ''Host: a.b:80'' = ''Host: c''" "rewrite_line ''c'' ''X: y'' = ''X: y''" by code_simp+
  with host_rewrite_shifts_body[of "''GET / HTTP/1.1''" "[''Host: a.b:80'', ''X: y'']" ?s "''c''"] demo_plain
  show ?thesis by (simp add: demo_lines_def)
qed

end
