(* ===== verification/Qcp_Service.thy ===== *)
theory Qcp_Service
  imports Vhost_Tls Control_Session
begin

text \<open>
  What the server offers over QCP (\<^verbatim>\<open>cross233-server/src/qcp.rs\<close>): public services, which a peer asks for by name
  and, when the service has one, by its secret; and tunnels of clients, on a port of their own. A stream is the bytes that
  the peer sends before it closes or a time-out passes. \<open>io\<close> tells which writes succeed.
\<close>

section \<open>Public services\<close>

definition read_exact :: "nat \<Rightarrow> bytes \<Rightarrow> (bytes \<times> bytes) option" where
  "read_exact n s = (if n \<le> length s then Some (take n s, drop n s) else None)"

datatype qcp_conn_error =
  QRead | QNameLength | QNotUtf8 | QNotFound | QNotQcp | QUnavailable | QSecretLength | QBadSecret | QWrite | QTunnel

definition QCP_OK :: bytes where "QCP_OK = [0, 1, 0]"
definition QCP_DENIED :: bytes where "QCP_DENIED = [0, 1, 1]"

text \<open>A length of two bytes and as many bytes of text.\<close>

definition read_text :: "(nat \<Rightarrow> bool) \<Rightarrow> qcp_conn_error \<Rightarrow> bytes \<Rightarrow> qcp_conn_error + string \<times> bytes" where
  "read_text len_ok err s =
     (case read_exact 2 s of
        None \<Rightarrow> Inl QRead
      | Some (l, s1) \<Rightarrow>
          let n = unat (u16_from_be (l ! 0) (l ! 1))
          in if \<not> len_ok n then Inl err
             else (case read_exact n s1 of
                     None \<Rightarrow> Inl QRead
                   | Some (b, s2) \<Rightarrow> if utf8_valid (of_bytes b) then Inr (of_bytes b, s2) else Inl QNotUtf8))"

text \<open>The entry that is asked for, and the rest of the stream.\<close>

definition qcp_lookup :: "bytes \<Rightarrow> 's registry \<Rightarrow> qcp_conn_error + string \<times> nat \<times> bytes" where
  "qcp_lookup input r =
     (case read_text (\<lambda>n. n \<noteq> 0 \<and> n \<le> 256) QNameLength input of
        Inl e \<Rightarrow> Inl e
      | Inr (name, s) \<Rightarrow>
          (case get_service_by_name name r of
             None \<Rightarrow> Inl QNotFound
           | Some i \<Rightarrow>
               let e = store r ! i
               in if \<not> is_qcp (config e) then Inl QNotQcp
                  else if \<not> enabled e \<or> \<not> healthy e then Inl QUnavailable
                  else Inr (name, i, s)))"

definition qcp_secret :: "service \<Rightarrow> bytes \<Rightarrow> qcp_conn_error + bytes" where
  "qcp_secret svc s =
     (case secret svc of
        None \<Rightarrow> Inr s
      | Some sec \<Rightarrow>
          (case read_text (\<lambda>n. n \<le> 256) QSecretLength s of
             Inl e \<Rightarrow> Inl e
           | Inr (given, s') \<Rightarrow> if given = sec then Inr s' else Inl QBadSecret))"

text \<open>What the peer is told, and what it sent that is copied into the tunnel, or the error. \<open>mw1\<close> is what happens to the registry
  while the tunnel is waited for, \<open>mw2\<close> while the streams are copied; \<open>copied\<close> is the result of that.\<close>

definition handle_qcp_conn ::
  "(bytes \<Rightarrow> bool) \<Rightarrow> string \<Rightarrow> ('s registry \<Rightarrow> 's registry) \<Rightarrow> ('s registry \<Rightarrow> 's registry) \<Rightarrow> (u64 \<times> u64) option \<Rightarrow> bytes
    \<Rightarrow> 's registry \<Rightarrow> bytes \<times> (qcp_conn_error + bytes) \<times> 's registry" where
  "handle_qcp_conn io tid mw1 mw2 copied input r =
     (case qcp_lookup input r of
        Inl e \<Rightarrow> ([], Inl e, r)
      | Inr (name, i, s) \<Rightarrow>
          let e = store r ! i
          in case qcp_secret (config e) s of
               Inl err \<Rightarrow>
                 if err \<noteq> QBadSecret then ([], Inl err, r)
                 else if io QCP_DENIED then (QCP_DENIED, Inl err, r) else ([], Inl QWrite, r)
             | Inr rest \<Rightarrow>
                 if \<not> io QCP_OK then ([], Inl QWrite, r)
                 else (case open_tunnel_begin tid e None None r of
                         (Inl _, r1) \<Rightarrow> (QCP_OK, Inl QTunnel, r1)
                       | (Inr n, r1) \<Rightarrow>
                           (case open_tunnel_end tid n (mw1 r1) of
                              (Inl _, r2) \<Rightarrow> (QCP_OK, Inl QTunnel, r2)
                            | (Inr _, r2) \<Rightarrow>
                                let r3 = mw2 (enter_conn i r2);
                                    r4 = (case copied of Some (tx, rx) \<Rightarrow> record_traffic name tx rx r3 | None \<Rightarrow> r3)
                                in (QCP_OK, Inr rest, leave_conn i r4))))"

section \<open>Tunnels\<close>

definition MAX_FIRST_MESSAGE_BYTES :: nat where "MAX_FIRST_MESSAGE_BYTES = 16 * 1024"

fun read_first_loop :: "string \<Rightarrow> string \<Rightarrow> read_error + string \<times> string" where
  "read_first_loop line [] = Inl Closed"
| "read_first_loop line (c # s) =
     (if c = LF then Inr (line, s)
      else if length (line @ [c]) > MAX_FIRST_MESSAGE_BYTES then Inl TooLong
      else read_first_loop (line @ [c]) s)"

text \<open>\<open>from_slice\<close> is the JSON library's parser of bytes.\<close>

definition read_first_message :: "(string \<Rightarrow> message option) \<Rightarrow> string \<Rightarrow> read_error + message \<times> string" where
  "read_first_message from_slice s =
     (case read_first_loop [] s of
        Inl e \<Rightarrow> Inl e
      | Inr (line, rest) \<Rightarrow> (case from_slice line of Some m \<Rightarrow> Inr (m, rest) | None \<Rightarrow> Inl BadJson))"

datatype qcp_tunnel_error = QTls | QHello read_error | QNotTunnel | QSession session_error

text \<open>\<open>tls\<close> is what the peer sends inside of TLS, if the handshake succeeds.\<close>

definition handle_qcp_tunnel_connection ::
  "(string \<Rightarrow> string \<Rightarrow> string) \<Rightarrow> (string \<Rightarrow> message option) \<Rightarrow> (message \<Rightarrow> bool) \<Rightarrow> entropy \<Rightarrow> 's \<Rightarrow> string option \<Rightarrow> message option
    \<Rightarrow> 's control \<Rightarrow> message list \<times> (qcp_tunnel_error + unit) \<times> 's control" where
  "handle_qcp_tunnel_connection mac from_slice io en stream tls reply st =
     (case tls of
        None \<Rightarrow> ([], Inl QTls, st)
      | Some s \<Rightarrow>
          (case read_first_message from_slice s of
             Inl e \<Rightarrow> ([], Inl (QHello e), st)
           | Inr (first, _) \<Rightarrow>
               if m_ty first \<noteq> ''tunnel'' then ([], Inl QNotTunnel, st)
               else (case handle_tunnel_connection mac io en stream first reply st of
                       (out, Inl e, st') \<Rightarrow> (out, Inl (QSession e), st')
                     | (out, Inr u, st') \<Rightarrow> (out, Inr u, st'))))"

section \<open>Who gets to a public service\<close>

text \<open>How a peer asks.\<close>

definition put_text :: "string \<Rightarrow> bytes" where
  "put_text s = put_u16 (of_nat (length s)) @ to_bytes s"

definition qcp_request :: "string \<Rightarrow> string option \<Rightarrow> bytes \<Rightarrow> bytes" where
  "qcp_request name sec rest = put_text name @ (case sec of None \<Rightarrow> [] | Some s \<Rightarrow> put_text s) @ rest"

lemma to_of_bytes [simp]: "to_bytes (of_bytes b) = b"
proof -
  have "of_nat (unat w mod 256) = w" for w :: u8
  proof -
    have "unat w < 256" using unsigned_less[of w] by simp
    then show ?thesis by simp
  qed
  then show ?thesis by (induction b) (simp_all add: of_bytes_def to_bytes_def byte_def)
qed

lemma length_conv_bytes [simp]: "length (of_bytes b) = length b" "length (to_bytes s) = length s"
  by (simp_all add: of_bytes_def to_bytes_def)

text \<open>Reading back exactly what was written, and nothing else.\<close>

lemma read_text_iff:
  assumes "\<And>n. ok n \<Longrightarrow> n \<le> 256"
  shows "read_text ok err s = Inr (t, rest) \<longleftrightarrow> s = put_text t @ rest \<and> ok (length t) \<and> utf8_valid t"
proof
  assume "read_text ok err s = Inr (t, rest)"
  then obtain n where n: "2 \<le> length s" "n = unat (u16_from_be (s ! 0) (s ! 1))" "ok n" "n + 2 \<le> length s"
      "t = of_bytes (take n (drop 2 s))" "rest = drop n (drop 2 s)" "utf8_valid t"
    by (auto simp: read_text_def read_exact_def Let_def split: if_splits option.splits)
  obtain a b u where s: "s = a # b # u" using n(1) by (cases s rule: remdups_adj.cases) auto
  have len: "length t = n" using n(4,5) by simp
  have "put_u16 (of_nat n) = [a, b]" using n(2) s by (simp add: put_u16_from_be)
  moreover have "to_bytes t @ rest = u" using n(5,6) s by simp
  ultimately show "s = put_text t @ rest \<and> ok (length t) \<and> utf8_valid t"
    using n(3,7) len s by (simp add: put_text_def)
next
  assume a: "s = put_text t @ rest \<and> ok (length t) \<and> utf8_valid t"
  with assms[of "length t"] have "length t < 2 ^ 16" by simp
  with a show "read_text ok err s = Inr (t, rest)"
    by (simp add: read_text_def read_exact_def put_text_def put_u16_def Let_def)
qed

lemma qcp_lookup_iff:
  "qcp_lookup input r = Inr (name, i, s) \<longleftrightarrow> input = put_text name @ s \<and> name \<noteq> [] \<and> length name \<le> 256 \<and> utf8_valid name
     \<and> get_service_by_name name r = Some i \<and> is_qcp (config (store r ! i)) \<and> enabled (store r ! i) \<and> healthy (store r ! i)"
proof -
  have iff: "read_text (\<lambda>n. n \<noteq> 0 \<and> n \<le> 256) QNameLength input = Inr (name', s') \<longleftrightarrow>
      input = put_text name' @ s' \<and> length name' \<noteq> 0 \<and> length name' \<le> 256 \<and> utf8_valid name'" for name' s'
    by (subst read_text_iff) auto
  show ?thesis
  proof (cases "read_text (\<lambda>n. n \<noteq> 0 \<and> n \<le> 256) QNameLength input")
    case (Inl e)
    with iff[of name s] show ?thesis by (auto simp: qcp_lookup_def)
  next
    case (Inr p)
    obtain n' s' where p: "p = (n', s')" by (cases p)
    have "n' = name \<and> s' = s \<longleftrightarrow> input = put_text name @ s \<and> length name \<noteq> 0 \<and> length name \<le> 256 \<and> utf8_valid name"
      using iff[of name s] Inr p by simp
    then show ?thesis using Inr p by (auto simp: qcp_lookup_def Let_def split: option.splits)
  qed
qed

lemma qcp_secret_iff:
  "qcp_secret svc s = Inr rest \<longleftrightarrow>
     (case secret svc of None \<Rightarrow> s = rest | Some sec \<Rightarrow> s = put_text sec @ rest \<and> length sec \<le> 256 \<and> utf8_valid sec)"
proof (cases "secret svc")
  case (Some sec)
  have iff: "read_text (\<lambda>n. n \<le> 256) QSecretLength s = Inr (t, u) \<longleftrightarrow> s = put_text t @ u \<and> length t \<le> 256 \<and> utf8_valid t" for t u
    by (rule read_text_iff)
  show ?thesis
  proof (cases "read_text (\<lambda>n. n \<le> 256) QSecretLength s")
    case (Inl e)
    with iff[of sec rest] Some show ?thesis by (auto simp: qcp_secret_def)
  next
    case (Inr p)
    then show ?thesis using iff[of sec rest] Some by (cases p) (auto simp: qcp_secret_def)
  qed
qed (simp add: qcp_secret_def)

text \<open>A peer may use a service.\<close>

definition qcp_entitled :: "bytes \<Rightarrow> 's registry \<Rightarrow> string \<Rightarrow> nat \<Rightarrow> bytes \<Rightarrow> bool" where
  "qcp_entitled input r name i rest \<longleftrightarrow>
     (let e = store r ! i
      in input = qcp_request name (secret (config e)) rest \<and> name \<noteq> [] \<and> length name \<le> 256 \<and> utf8_valid name
       \<and> (case secret (config e) of None \<Rightarrow> True | Some sec \<Rightarrow> length sec \<le> 256 \<and> utf8_valid sec)
       \<and> get_service_by_name name r = Some i \<and> is_qcp (config e) \<and> enabled e \<and> healthy e)"

lemma qcp_passes:
  "(\<exists>s. qcp_lookup input r = Inr (name, i, s) \<and> qcp_secret (config (store r ! i)) s = Inr rest) \<longleftrightarrow> qcp_entitled input r name i rest"
  by (cases "secret (config (store r ! i))")
    (auto simp: qcp_lookup_iff qcp_secret_iff qcp_entitled_def qcp_request_def Let_def)

text \<open>\<^bold>\<open>C24\<close>: a public QCP service is reached by those who name it and know its secret. Whatever bytes a peer sends, it is told
  that it is connected exactly when they are the name of an enabled and healthy QCP service, followed by its secret if it
  has one; otherwise the registry stays as it is, and no tunnel is asked of the client.\<close>

theorem qcp_public_gate:
  fixes r :: "'s registry"
  assumes "\<forall>b. io b" "handle_qcp_conn io tid mw1 mw2 copied input r = (out, res, r')"
  shows "(out = QCP_OK \<longleftrightarrow> (\<exists>name i rest. qcp_entitled input r name i rest)) \<and> (out \<noteq> QCP_OK \<longrightarrow> r' = r)"
proof (cases "\<exists>name i rest. qcp_entitled input r name i rest")
  case True
  then obtain name i rest s where "qcp_lookup input r = Inr (name, i, s)" "qcp_secret (config (store r ! i)) s = Inr rest"
    using qcp_passes by blast
  with assms have "out = QCP_OK"
    by (auto simp: handle_qcp_conn_def Let_def split: sum.splits prod.splits)
  with True show ?thesis by simp
next
  case False
  then have no: "qcp_lookup input r = Inr (name, i, s) \<Longrightarrow> qcp_secret (config (store r ! i)) s \<noteq> Inr rest" for name i s rest
    using qcp_passes by blast
  have "out \<noteq> QCP_OK \<and> r' = r"
  proof (cases "qcp_lookup input r")
    case (Inl e)
    with assms show ?thesis by (simp add: handle_qcp_conn_def QCP_OK_def)
  next
    case (Inr p)
    obtain name i s where p: "p = (name, i, s)" by (cases p)
    then obtain err where "qcp_secret (config (store r ! i)) s = Inl err"
      using no[of name i s] Inr by (cases "qcp_secret (config (store r ! i)) s") auto
    with assms Inr p show ?thesis by (auto simp: handle_qcp_conn_def QCP_OK_def QCP_DENIED_def split: if_splits)
  qed
  with False show ?thesis by simp
qed

text \<open>A service with a secret: the right one is accepted, a wrong one refused.\<close>

theorem qcp_public_gate_witness:
  "\<exists>r :: nat registry. (\<exists>res r'. handle_qcp_conn (\<lambda>_. True) ''t'' id id None (qcp_request ''q'' (Some ''s'') [7]) r = (QCP_OK, res, r'))
     \<and> (\<exists>out res. handle_qcp_conn (\<lambda>_. True) ''t'' id id None (qcp_request ''q'' (Some ''x'') [7]) r = (out, res, r) \<and> out \<noteq> QCP_OK)"
proof -
  define e where "e = new_entry (default_service\<lparr>svc_ty := Some ''qcp'', secret := Some ''s''\<rparr>) ''c'' (1 :: nat) 0"
  define r where "r = (new_registry 7712 7720 7713 :: nat registry)\<lparr>store := [e], services_by_name := [(''q'', 0)]\<rparr>"
  have sel: "store r = [e]" "services_by_name r = [(''q'', 0)]" "secret (config e) = Some ''s''" "is_qcp (config e)" "enabled e" "healthy e"
    by (simp_all add: r_def e_def new_entry_def is_qcp_def effective_type_def)
  have "utf8_valid ''q''" "utf8_valid ''s''" by code_simp+
  then have "qcp_entitled (qcp_request ''q'' (Some ''s'') [7]) r ''q'' 0 [7]"
    by (simp add: qcp_entitled_def sel get_service_by_name_def hm_get_def)
  moreover have "\<not> qcp_entitled (qcp_request ''q'' (Some ''x'') [7]) r name i rest" for name i rest
  proof
    assume a: "qcp_entitled (qcp_request ''q'' (Some ''x'') [7]) r name i rest"
    then have "name = ''q''" "i = 0"
      by (auto simp: qcp_entitled_def Let_def get_service_by_name_def sel hm_get_def split: if_splits)
    with a show False
      by (simp add: qcp_entitled_def sel qcp_request_def put_text_def to_bytes_def byte_def)
  qed
  moreover obtain o1 e1 r1 where h1: "handle_qcp_conn (\<lambda>_. True) ''t'' id id None (qcp_request ''q'' (Some ''s'') [7]) r = (o1, e1, r1)"
    by (metis prod_cases3)
  moreover obtain o2 e2 r2 where h2: "handle_qcp_conn (\<lambda>_. True) ''t'' id id None (qcp_request ''q'' (Some ''x'') [7]) r = (o2, e2, r2)"
    by (metis prod_cases3)
  ultimately have "o1 = QCP_OK" "o2 \<noteq> QCP_OK \<and> r2 = r"
    using qcp_public_gate[OF _ h1] qcp_public_gate[OF _ h2] by auto
  with h1 h2 show ?thesis by blast
qed

section \<open>Tunnels are the same on both transports\<close>

text \<open>On this port only tunnels are accepted, and they are handled as those over TCP are.\<close>

lemma qcp_tunnel_as_tcp:
  assumes "LF \<notin> set line" "length line \<le> MAX_FIRST_MESSAGE_BYTES" "from_slice line = Some m" "m_ty m = ''tunnel''"
    and "handle_connection mac parse kept sys io en now tx h qport qtport stream m reply evs st = (out, res, st')"
  shows "handle_qcp_tunnel_connection mac from_slice io en stream (Some (line @ LF # rest)) reply st
    = (out, (case res of Inl e \<Rightarrow> Inl (QSession e) | Inr u \<Rightarrow> Inr u), st')"
proof -
  have "read_first_loop a (line @ LF # rest) = Inr (a @ line, rest)" if "length a + length line \<le> MAX_FIRST_MESSAGE_BYTES" for a
    using assms(1) that by (induction line arbitrary: a) auto
  from this[of "[]"] assms show ?thesis
    by (simp add: handle_qcp_tunnel_connection_def read_first_message_def handle_connection_def split: sum.split)
qed

lemma qcp_tunnel_only:
  "read_first_message from_slice s = Inr (m, rest) \<Longrightarrow> m_ty m \<noteq> ''tunnel''
   \<Longrightarrow> handle_qcp_tunnel_connection mac from_slice io en stream (Some s) reply st = ([], Inl QNotTunnel, st)"
  by (simp add: handle_qcp_tunnel_connection_def)

end
