(* ===== verification/Control_Theorems.thy ===== *)
theory Control_Theorems
  imports Control_Session Registry_Theorems
begin

text \<open>
  What the handlers of the control port guarantee: nothing happens to the registry without the key,
  an honest tunnel is delivered to the request that waits for it, and a session leaves nothing of
  its client behind.
\<close>

section \<open>Without the key\<close>

text \<open>The role a first message claims.\<close>

definition claimed_role :: "message \<Rightarrow> role" where
  "claimed_role msg =
     (if m_ty msg = ''client'' then ClientRole (default_str (m_client_id msg))
      else if m_ty msg = ''tunnel'' then TunnelRole (default_str (m_id msg))
      else VisitorRole (default_str (m_client_id msg)) (default_str (m_id msg)))"

lemma verify_created:
  assumes "hm_wf (pending a)" "verify mac k ty c i p (snd (create_challenge n t t' k a)) = (True, a')"
  shows "p = mac (hmac_key a) (proof_message ty c i n)"
proof -
  let ?a1 = "snd (create_challenge n t t' k a)"
  obtain pa where pa: "hm_get (pending ?a1) k = Some pa" "mac (hmac_key ?a1) (proof_message ty c i (pa_nonce pa)) = p"
    using assms(2) by (auto simp: verify_def verify_proof_def compute_proof_def split: option.splits)
  have "pa_nonce pa = n"
    using pa(1) assms(1)
    by (auto simp: create_challenge_def cleanup_get pending_wf_ops insert_challenge_def split: if_splits)
  moreover have "hmac_key ?a1 = hmac_key a" by (simp add: create_challenge_def)
  ultimately show ?thesis using pa(2) by simp
qed

lemma verify_created_False:
  assumes "hm_wf (pending a)" "p \<noteq> mac (hmac_key a) (proof_message ty c i n)"
  shows "\<exists>a'. verify mac k ty c i p (snd (create_challenge n t t' k a)) = (False, a')"
proof -
  obtain ok a' where v: "verify mac k ty c i p (snd (create_challenge n t t' k a)) = (ok, a')"
    by (cases "verify mac k ty c i p (snd (create_challenge n t t' k a))")
  with verify_created[OF assms(1), of mac k ty c i p n t t' a'] assms(2) show ?thesis by (cases ok) auto
qed

lemma message_types [simp]:
  "m_ty (new_challenge n) = ''challenge''" "m_ty (new_error e) = ''error''" "m_ty (new_reject i e) = ''reject''"
  "m_ty (new_ready ss a b) = ''ready''"
  by (simp_all add: new_challenge_def new_error_def new_reject_def new_ready_def)

lemma handshake_refused:
  assumes "hm_wf (pending (auth st))" "control_handshake mac io en first_msg reply st = (out, res, st')"
    and "m_ty first_msg = ''client''"
    and "\<And>am p. reply = Some am \<Longrightarrow> m_proof am = Some p \<Longrightarrow>
           p \<noteq> mac (hmac_key (auth st)) (role_message (claimed_role first_msg) (nonce en))"
  shows "(\<exists>e. res = Inl e) \<and> reg st' = reg st \<and> udp_mgr st' = udp_mgr st \<and> (\<forall>m \<in> set out. m_ty m \<noteq> ''ready'')"
proof (cases "\<exists>am p. reply = Some am \<and> m_ty am = ''auth'' \<and> m_proof am = Some p")
  case True
  then obtain am p where am: "reply = Some am" "m_ty am = ''auth''" "m_proof am = Some p" by blast
  define cid where "cid = default_str (m_client_id first_msg)"
  have "\<exists>a'. verify mac cid ''client'' cid cid p
      (snd (create_challenge (nonce en) (t_insert en) (t_cleanup en) cid (auth st))) = (False, a')"
    using assms(4)[OF am(1,3)] by (intro verify_created_False[OF assms(1)]) (simp add: claimed_role_def assms(3) cid_def)
  then obtain a' where "verify mac cid ''client'' cid cid p
      (snd (create_challenge (nonce en) (t_insert en) (t_cleanup en) cid (auth st))) = (False, a')" by blast
  with assms(2) am show ?thesis
    by (auto simp: control_handshake_def Let_def simp flip: cid_def split: if_splits)
next
  case False
  with assms(2) show ?thesis
    by (auto simp: control_handshake_def Let_def split: if_splits option.splits)
qed

lemma tunnel_refused:
  assumes "hm_wf (pending (auth st))" "handle_tunnel_connection mac io en stream first_msg reply st = (out, res, st')"
    and "m_ty first_msg = ''tunnel''"
    and "\<And>p. (if m_proof first_msg \<noteq> None then m_proof first_msg else Option.bind reply m_proof) = Some p \<Longrightarrow>
           p \<noteq> mac (hmac_key (auth st)) (role_message (claimed_role first_msg) (nonce en))"
  shows "(\<exists>e. res = Inl e) \<and> udp_mgr st' = udp_mgr st \<and> (\<forall>m \<in> set out. m_ty m \<noteq> ''ready'')
    \<and> (reg st' = reg st \<or> reg st' = reject_tunnel (default_str (m_id first_msg)) ''auth failed'' (reg st))"
proof -
  define tid where "tid = default_str (m_id first_msg)"
  let ?v = "\<lambda>p. verify mac (''tunnel:'' @ tid) ''tunnel'' [] tid p
      (snd (create_challenge (nonce en) (t_insert en) (t_cleanup en) (''tunnel:'' @ tid) (auth st)))"
  have v: "\<exists>a'. ?v p = (False, a')"
    if "(if m_proof first_msg \<noteq> None then m_proof first_msg else Option.bind reply m_proof) = Some p" for p
    using assms(4)[OF that] by (intro verify_created_False[OF assms(1)]) (simp add: claimed_role_def assms(3) tid_def)
  show ?thesis
  proof (cases "m_proof first_msg")
    case (Some p)
    with v[of p] obtain a' where "?v p = (False, a')" by auto
    with assms(2) Some show ?thesis
      by (auto simp: handle_tunnel_connection_def Let_def simp flip: tid_def split: if_splits)
  next
    case None
    show ?thesis
    proof (cases "Option.bind reply m_proof")
      case (Some p)
      with None v[of p] obtain a' where "?v p = (False, a')" by auto
      with assms(2) None Some show ?thesis
        by (auto simp: handle_tunnel_connection_def Let_def Option.bind_eq_Some_conv
            simp flip: tid_def split: if_splits)
    qed (use assms(2) None in \<open>auto simp: handle_tunnel_connection_def Let_def bind_eq_None_conv split: if_splits option.splits\<close>)
  qed
qed

lemma visitor_registry:
  assumes "handle_visitor_connection mac io en first_msg reply st = (out, res, st')"
  shows "reg st' = reg st \<and> udp_mgr st' = udp_mgr st \<and> (\<forall>m \<in> set out. m_ty m \<noteq> ''ready'')"
  using assms by (auto simp: handle_visitor_connection_def Let_def split: option.splits if_splits prod.splits)

text \<open>The proof a connection offers: with the first message, or in answer to the challenge. A client
  session looks at the answer only.\<close>

definition offered_proof :: "message \<Rightarrow> message option \<Rightarrow> string option" where
  "offered_proof first_msg reply =
     (if m_ty first_msg \<noteq> ''client'' \<and> m_proof first_msg \<noteq> None then m_proof first_msg
      else Option.bind reply m_proof)"

lemma tunnel_outcome:
  fixes st :: "'s control"
  assumes "hm_wf (pending (auth st))" "t_cleanup en - t_insert en < secs 60" "tid \<noteq> []" "\<forall>m. io m"
  shows "\<exists>a. handle_tunnel_connection mac io en stream (new_tunnel_hello tid)
      (Some (new_auth (mac (hmac_key (auth st)) (proof_message ''tunnel'' [] tid (nonce en))))) st
    = (case hm_get (pending_work (reg st)) tid of
         Some n \<Rightarrow> ([new_challenge (nonce en), new_ready [] 0 0], Inr (), st\<lparr>auth := a, reg := snd (complete_tunnel tid stream (reg st))\<rparr>)
       | None \<Rightarrow> ([new_challenge (nonce en), new_reject tid ''no pending work''], Inl NoPendingWork, st\<lparr>auth := a\<rparr>))"
proof -
  define k where "k = ''tunnel:'' @ tid"
  note k = k_def[simplified, symmetric]
  define a1 where "a1 = snd (create_challenge (nonce en) (t_insert en) (t_cleanup en) k (auth st))"
  have "hm_get (pending a1) k = Some \<lparr>pa_nonce = nonce en, created_at = t_insert en\<rparr>"
    unfolding a1_def by (rule create_challenge_get[OF assms(1,2)])
  moreover have "hmac_key a1 = hmac_key (auth st)" by (simp add: a1_def create_challenge_def)
  ultimately have v: "verify mac k ''tunnel'' [] tid (mac (hmac_key (auth st)) (proof_message ''tunnel'' [] tid (nonce en))) a1
      = (True, a1\<lparr>pending := hm_remove k (pending a1)\<rparr>)"
    by (simp add: verify_def verify_proof_def compute_proof_def)
  show ?thesis
    using assms(3,4)
    by (intro exI[of _ "a1\<lparr>pending := hm_remove k (pending a1)\<rparr>"])
      (simp add: handle_tunnel_connection_def new_tunnel_hello_def new_auth_def default_message_def
          default_str_def Let_def hm_contains_def k v flip: a1_def split: option.split)
qed


definition demo_control :: "nat control" where
  "demo_control = \<lparr>auth = new_auth_state ''k'', reg = demo, udp_mgr = None\<rparr>"

definition demo_os :: os where
  "demo_os = \<lparr>tcp_bind = (\<lambda>_. True), udp_bind = (\<lambda>_. True), bind_error = ''in use''\<rparr>"

definition demo_entropy :: entropy where
  "demo_entropy = \<lparr>nonce = demo_nonce, t_insert = 1, t_cleanup = 2\<rparr>"


section \<open>Tunnels\<close>

text \<open>An honest tunnel reaches the request that waits for it. When a client answers the
  challenge for a tunnel the server has asked for, with the key and within the minute, the handler
  succeeds, the client is told so, and the request gets the stream: the wait ends with it. A
  tunnel nobody waits for is turned away, with the registry unchanged.\<close>

theorem tunnel_delivered:
  assumes "hm_wf (pending (auth st))" "t_cleanup en - t_insert en < secs 60" "tid \<noteq> []" "\<forall>m. io m"
    and "handle_connection mac parse kept sys io en now tx h qp qtp stream (new_tunnel_hello tid)
           (Some (new_auth (mac (hmac_key (auth st)) (role_message (TunnelRole tid) (nonce en))))) evs st = (out, res, st')"
  shows "(case hm_get (pending_work (reg st)) tid of
      Some n \<Rightarrow> res = Inr () \<and> out = [new_challenge (nonce en), new_ready [] 0 0]
        \<and> reg st' = (reg st)\<lparr>pending_work := hm_remove tid (pending_work (reg st)),
                             work_results := work_results (reg st) @ [(n, Inr stream)]\<rparr>
        \<and> (n \<notin> fst ` set (work_results (reg st)) \<longrightarrow> fst (open_tunnel_end tid n (reg st')) = Inr stream)
    | None \<Rightarrow> res = Inl NoPendingWork \<and> reg st' = reg st)"
proof -
  have t: "handle_tunnel_connection mac io en stream (new_tunnel_hello tid)
      (Some (new_auth (mac (hmac_key (auth st)) (proof_message ''tunnel'' [] tid (nonce en))))) st = (out, res, st')"
    using assms(5) by (simp add: handle_connection_def new_tunnel_hello_def)
  obtain a where o: "(out, res, st') = (case hm_get (pending_work (reg st)) tid of
         Some n \<Rightarrow> ([new_challenge (nonce en), new_ready [] 0 0], Inr (), st\<lparr>auth := a, reg := snd (complete_tunnel tid stream (reg st))\<rparr>)
       | None \<Rightarrow> ([new_challenge (nonce en), new_reject tid ''no pending work''], Inl NoPendingWork, st\<lparr>auth := a\<rparr>))"
    using tunnel_outcome[OF assms(1-4), of mac stream] t by metis
  have "fst (open_tunnel_end tid n (reg st')) = Inr stream"
    if "hm_get (pending_work (reg st)) tid = Some n" "n \<notin> fst ` set (work_results (reg st))" for n
  proof -
    have "map_of (work_results (reg st)) n = None" using that(2) by (simp add: map_of_eq_None_iff)
    with o that(1) show ?thesis by (simp add: complete_tunnel_def open_tunnel_end_def map_add_def)
  qed
  with o show ?thesis by (simp add: complete_tunnel_def split: option.splits)
qed

theorem tunnel_delivered_witness:
  "\<exists>st'. handle_connection demo_mac (\<lambda>_. None) (\<lambda>_. []) demo_os (\<lambda>_. True) demo_entropy 0 1 0 0 0 7 (new_tunnel_hello ''t'')
       (Some (new_auth (demo_mac (hmac_key (auth demo_control)) (role_message (TunnelRole ''t'') (nonce demo_entropy))))) []
       (demo_control\<lparr>reg := demo\<lparr>pending_work := [(''t'', 0)]\<rparr>\<rparr>)
     = ([new_challenge demo_nonce, new_ready [] 0 0], Inr (), st')
     \<and> fst (open_tunnel_end ''t'' 0 (reg st')) = Inr 7"
proof -
  let ?st = "demo_control\<lparr>reg := demo\<lparr>pending_work := [(''t'', 0)]\<rparr>\<rparr>"
  let ?p = "demo_mac (hmac_key (auth demo_control)) (role_message (TunnelRole ''t'') (nonce demo_entropy))"
  obtain out res st' where h: "handle_connection demo_mac (\<lambda>_. None) (\<lambda>_. []) demo_os (\<lambda>_. True) demo_entropy 0 1 0 0 0 7
      (new_tunnel_hello ''t'') (Some (new_auth ?p)) [] ?st = (out, res, st')" by (metis prod.exhaust)
  have "hm_wf (pending (auth ?st))" "t_cleanup demo_entropy - t_insert demo_entropy < secs 60"
    "hm_get (pending_work (reg ?st)) ''t'' = Some 0" "work_results (reg ?st) = []" "nonce demo_entropy = demo_nonce"
    "hmac_key (auth ?st) = hmac_key (auth demo_control)"
    by (simp_all add: demo_control_def new_auth_state_def demo_entropy_def secs_def hm_get_def demo_def new_with_network_policy_def)
  with tunnel_delivered[of ?st demo_entropy "''t''" "\<lambda>_. True" demo_mac "\<lambda>_. None" "\<lambda>_. []" demo_os 0 1 0 0 0 7 "[]" out res st'] h
  have "res = Inr ()" "out = [new_challenge demo_nonce, new_ready [] 0 0]" "fst (open_tunnel_end ''t'' 0 (reg st')) = Inr 7"
    by (simp_all add: open_tunnel_end_def)
  with h show ?thesis by blast
qed

section \<open>What a session leaves\<close>

text \<open>The session's operations between registration and clean-up leave names, owners and control
  channels alone.\<close>

definition quiet :: "'s registry \<Rightarrow> 's registry \<Rightarrow> bool" where
  "quiet r' r \<longleftrightarrow> inert r' r \<and> client_control_tx r' = client_control_tx r"

lemma quiet_refl [simp]: "quiet r r"
  by (simp add: quiet_def)

lemma quiet_trans: "quiet r3 r2 \<Longrightarrow> quiet r2 r1 \<Longrightarrow> quiet r3 r1"
  by (auto simp: quiet_def inert_def same_policy_def)

lemma quiet_listener: "quiet (register_listener p n h r) r"
  unfolding quiet_def by (rule conjI[OF inert_listeners(1)]) (simp add: register_listener_def)

lemma quiet_send: "quiet (snd (send_message tx m r)) r"
  by (simp add: quiet_def inert_send_message) (simp add: send_message_def)

lemma quiet_health: "quiet (report_health now n b r) r"
  by (simp add: quiet_def inert_rules) (simp add: report_health_def update_entry_def split: option.split)

lemma quiet_deliver: "quiet (snd (deliver_static_response tx i d eof r)) r"
  by (simp add: quiet_def inert_rules)
     (simp add: deliver_static_response_def cancel_static_response_for_control_def cancel_static_response_def
      try_send_def Let_def split: option.split)

lemma quiet_cancel: "quiet (cancel_static_responses_for_control tx r) r"
  by (simp add: quiet_def inert_rules) (simp add: cancel_static_responses_for_control_def Let_def)

lemma quiet_expose: "expose_service sys h svc st = (ok, st') \<Longrightarrow> quiet (reg st') (reg st)"
  by (auto simp: expose_service_def start_tcp_listener_for_service_def quiet_listener
      split: if_splits option.splits prod.splits)

lemma quiet_expose_all: "expose_services sys h svcs st = (res, st') \<Longrightarrow> quiet (reg st') (reg st)"
proof (induction sys h svcs st rule: expose_services.induct)
  case (2 sys h svc svcs st)
  obtain ok st1 where e: "expose_service sys h svc st = (ok, st1)" by (cases "expose_service sys h svc st")
  with 2 quiet_expose[OF e] show ?case by (cases ok) (auto intro: quiet_trans)
qed simp

lemma quiet_message: "quiet (reg (control_message now tx msg st)) (reg st)"
  by (simp add: control_message_def quiet_send quiet_health quiet_deliver split: option.split)

lemma quiet_line:
  assumes "session_line parse io tx now l v st = (bv, st')"
  shows "quiet (reg st') (reg st)"
  using assms quiet_message by (auto simp: session_line_def Let_def split: if_splits option.splits)

lemma quiet_turn:
  assumes "session_turn parse kept io tx now ev v st = (bv, st')"
  shows "quiet (reg st') (reg st)"
  using assms by (cases ev) (auto simp: session_turn_def Let_def quiet_send quiet_line split: if_splits list.splits)

text \<open>What every turn keeps, the loop keeps.\<close>

lemma session_loop_keeps:
  assumes "\<And>now ev v st ok v1 st1. P v st \<Longrightarrow> session_turn parse kept io tx now ev v st = ((ok, v1), st1) \<Longrightarrow> P v1 st1"
  shows "P v st \<Longrightarrow> session_loop parse kept io tx evs v st = (v', st') \<Longrightarrow> P v' st'"
proof (induction evs arbitrary: v st)
  case (Cons e evs)
  obtain now ev where e: "e = (now, ev)" by (cases e)
  obtain ok v1 st1 where t: "session_turn parse kept io tx now ev v st = ((ok, v1), st1)" by (metis prod.exhaust)
  from assms[OF Cons.prems(1) t] Cons.IH[of v1 st1] Cons.prems(2) t e show ?case by (cases ok) simp_all
qed simp

lemma quiet_loop:
  assumes "session_loop parse kept io tx evs v st = (v', st')"
  shows "quiet (reg st') (reg st)"
  using assms by (rule session_loop_keeps[where P = "\<lambda>_ s. quiet (reg s) (reg st)", rotated 2])
    (auto intro: quiet_trans quiet_turn)

text \<open>The clean-up of the current session removes exactly its client.\<close>

lemma cleanup_removes:
  assumes "registry_ok (reg st)" "is_current_control cid tx (reg st)"
  shows "hm_get (client_control_tx (reg (cleanup_registered_session cid tx st))) cid = None
    \<and> (\<forall>n e. entry_at (reg (cleanup_registered_session cid tx st)) n = Some e \<longrightarrow> entry_client_id e \<noteq> cid)
    \<and> registry_ok (reg (cleanup_registered_session cid tx st))"
proof -
  let ?r = "cancel_static_responses_for_control tx (reg st)"
  let ?r1 = "?r\<lparr>client_control_tx := hm_remove cid (client_control_tx ?r)\<rparr>"
  have q: "quiet ?r (reg st)" by (rule quiet_cancel)
  then have cur: "hm_get (client_control_tx ?r) cid = Some tx"
    using assms(2) by (simp add: is_current_control_def quiet_def)
  have ok: "registry_ok ?r1"
    unfolding unregister_client_start using q assms(1) by (auto simp: quiet_def intro: inert_registry_ok)
  have "reg (cleanup_registered_session cid tx st) = remove_client_services cid ?r1"
    using cur by (simp add: cleanup_registered_session_def is_current_control_def Let_def
        unregister_client_if_current_def release_control_def)
  then show ?thesis
    using registry_ok_remove_client_services[OF ok]
    by (simp add: remove_client_services_effect(4) entry_at_remove_client[OF ok] split: option.split)
qed

lemma register_current:
  assumes "registry_ok r" "register_services now cid tx svcs r = (as, r')"
  shows "is_current_control cid tx r' \<and> registry_ok r'"
  using registry_ok_register_services(1)[OF assms] register_all_control[OF assms(2)[unfolded register_services_def]]
  by (simp add: is_current_control_def enter_session_frame)


lemma control_handshake_ok:
  assumes "hm_wf (pending (auth st))" "t_cleanup en - t_insert en < secs 60" "cid \<noteq> []" "\<forall>m. io m"
  shows "\<exists>a. control_handshake mac io en (new_client_hello cid svcs)
      (Some (new_auth (mac (hmac_key (auth st)) (role_message (ClientRole cid) (nonce en))))) st
    = ([new_challenge (nonce en)], Inr (), st\<lparr>auth := a\<rparr>)"
proof -
  define a1 where "a1 = snd (create_challenge (nonce en) (t_insert en) (t_cleanup en) cid (auth st))"
  have "hm_get (pending a1) cid = Some \<lparr>pa_nonce = nonce en, created_at = t_insert en\<rparr>"
    unfolding a1_def by (rule create_challenge_get[OF assms(1,2)])
  moreover have "hmac_key a1 = hmac_key (auth st)" by (simp add: a1_def create_challenge_def)
  ultimately have "verify mac cid ''client'' cid cid (mac (hmac_key (auth st)) (role_message (ClientRole cid) (nonce en))) a1
      = (True, a1\<lparr>pending := hm_remove cid (pending a1)\<rparr>)"
    by (simp add: verify_def verify_proof_def compute_proof_def)
  then show ?thesis
    using assms(3,4) by (intro exI[of _ "a1\<lparr>pending := hm_remove cid (pending a1)\<rparr>"])
      (simp add: control_handshake_def new_client_hello_def new_auth_def default_message_def
        default_str_def Let_def flip: a1_def)
qed


section \<open>Reports about other clients\<close>

text \<open>Health reports are not checked for ownership. Any authenticated client can declare
  a service of another client unhealthy by naming it, and the registry believes it: the entry, whose
  control channel is not the reporter's, is marked so and everything else about it stays.\<close>

theorem foreign_health_report:
  assumes "registry_ok (reg st)" "entry_at (reg st) n = Some e" "control_tx e \<noteq> tx"
  shows "entry_at (reg (control_message now tx (new_health n False) st)) n
    = Some (e\<lparr>healthy := False, last_health_check := now\<rparr>)"
proof -
  obtain i where i: "hm_get (services_by_name (reg st)) n = Some i" "e = store (reg st) ! i"
    using assms(2) by (auto simp: entry_at_def)
  have "i < length (store (reg st))"
    using assms(1) i(1) by (auto simp: registry_ok_def names_valid_def)
  with i show ?thesis
    by (simp add: control_message_def new_health_def default_message_def report_health_def update_entry_def entry_at_def)
qed

theorem foreign_health_report_witness:
  "\<exists>r e. entry_at r ''a'' = Some e \<and> healthy e \<and> control_tx e = 1
     \<and> map_option healthy (entry_at (reg (control_message 5 2 (new_health ''a'' False) (demo_control\<lparr>reg := r\<rparr>))) ''a'') = Some False"
proof -
  obtain r where r: "register_services 0 ''c'' 1 [tcp_service ''a'' 9000] (demo :: nat registry) = ([tcp_service ''a'' 9000], r)"
    by (simp add: register_demo)
  have ok: "registry_ok r"
    by (rule registry_ok_register_services(1)[OF _ r]) (simp add: demo_def fresh_registry)
  have at: "entry_at r ''a'' = Some (new_entry (tcp_service ''a'' 9000) ''c'' 1 0)"
    using r unfolding register_demo by (auto simp: entry_at_publish names_valid_def enter_session_frame)
  from foreign_health_report[of "demo_control\<lparr>reg := r\<rparr>" "''a''" _ 2 5] ok at show ?thesis
    by (intro exI[of _ r] exI[of _ "new_entry (tcp_service ''a'' 9000) ''c'' 1 0"]) (simp add: new_entry_def)
qed

section \<open>What a session writes and reads\<close>

abbreviation sent_to :: "chan \<Rightarrow> 's registry \<Rightarrow> message list" where
  "sent_to tx r \<equiv> map snd (filter (\<lambda>m. fst m = tx) (sent_messages r))"

lemma control_message_sends: "\<exists>ms. sent_messages (reg (control_message now tx msg st)) = sent_messages (reg st) @ ms"
  by (auto simp: control_message_def send_message_def report_health_def update_entry_def deliver_static_response_def
      cancel_static_response_for_control_def cancel_static_response_def try_send_def Let_def split: option.splits)

text \<open>What has been written is what has been taken from the channel.\<close>

definition in_step :: "chan \<Rightarrow> session_view \<Rightarrow> 's registry \<Rightarrow> bool" where
  "in_step tx v r \<longleftrightarrow> ses_written v = take (ses_taken v) (sent_to tx r) \<and> ses_taken v \<le> length (sent_to tx r)"

lemma in_step_grow: "in_step tx v r \<Longrightarrow> sent_messages r' = sent_messages r @ ms \<Longrightarrow> in_step tx v r'"
  by (simp add: in_step_def)

lemma drain_in_step:
  "(\<And>m. io m) \<Longrightarrow> in_step tx v r \<Longrightarrow> in_step tx (snd (drain io tx r v)) r \<and> ses_written (snd (drain io tx r v)) = sent_to tx r"
  by (simp add: drain_def in_step_def outgoing_def Let_def list_all_iff)

lemma line_in_step:
  assumes "\<And>m. io m" "in_step tx v (reg st)" "session_line parse io tx now l v st = (bv, st')"
  shows "in_step tx (snd bv) (reg st')"
proof -
  define st1 where "st1 = (case parse (trim l) of Some msg \<Rightarrow> control_message now tx msg st | None \<Rightarrow> st)"
  obtain ms where ms: "sent_messages (reg st1) = sent_messages (reg st) @ ms"
    using control_message_sends by (cases "parse (trim l)") (auto simp: st1_def, blast)
  have "in_step tx (v\<lparr>ses_last := now\<rparr>) (reg st)" using assms(2) by (simp add: in_step_def)
  from drain_in_step[where io = io, OF assms(1) in_step_grow[OF this ms]] drain_in_step[where io = io, OF assms(1,2)] assms(2,3)
  show ?thesis by (auto simp: session_line_def Let_def simp flip: st1_def split: if_splits)
qed

lemma turn_in_step:
  assumes "\<And>m. io m" "in_step tx v (reg st)" "session_turn parse kept io tx now ev v st = (bv, st')"
  shows "in_step tx (snd bv) (reg st')"
proof -
  have part: "in_step tx (v\<lparr>ses_partial := p\<rparr>) (reg st)" for p using assms(2) by (simp add: in_step_def)
  note line = line_in_step[where io = io, OF assms(1) part] and drained = drain_in_step[where io = io, OF assms(1) part]
  show ?thesis
  proof (cases ev)
    case (Arrive seg)
    with assms(3) part line show ?thesis by (auto simp: session_turn_def split: if_splits)
  next
    case StreamEnd
    with assms(2,3) line show ?thesis by (auto simp: session_turn_def split: if_splits)
  next
    case BrokenRead
    with assms(2,3) show ?thesis by (auto simp: session_turn_def)
  next
    case ReadTimeout
    with assms(2,3) drained show ?thesis by (auto simp: session_turn_def split: if_splits)
  next
    case Outgoing
    show ?thesis
    proof (cases "outgoing tx (ses_taken v) (reg st)")
      case (Cons m ms)
      then have "ses_taken v < length (sent_to tx (reg st))" "m = sent_to tx (reg st) ! ses_taken v"
        unfolding outgoing_def
        by (metis drop_eq_Nil linorder_not_less list.simps(3), metis drop_eq_Nil hd_drop_conv_nth linorder_not_less list.sel(1) list.simps(3))
      with assms Outgoing Cons show ?thesis
        by (auto simp: session_turn_def in_step_def take_Suc_conv_app_nth)
    qed (use assms Outgoing in \<open>auto simp: session_turn_def\<close>)
  next
    case PingTick
    with assms(2,3) show ?thesis by (auto simp: session_turn_def in_step_def send_message_def)
  qed
qed

text \<open>The control channel is written in order, without gaps. Whatever lines arrive, however
  they are cut into pieces, and whenever the loop wakes up: while writing succeeds, what the client has been
  sent is the first messages of those put on the session's channel, each once and in order; and
  every line that the loop handles and every time-out it survives leaves none of them waiting.\<close>

theorem control_output_in_order:
  fixes st :: "'s control"
  assumes "\<And>m. io m" "ses_taken v = 0" "ses_written v = []"
    and "session_loop parse kept io tx evs v st = (v', st')"
  shows "ses_written v' = take (ses_taken v') (sent_to tx (reg st'))
    \<and> (\<forall>now. now - ses_last v' \<le> secs 60 \<longrightarrow>
         ses_written (snd (fst (session_turn parse kept io tx now ReadTimeout v' st'))) = sent_to tx (reg st'))"
proof -
  have init: "in_step tx v (reg st)" using assms(2,3) by (simp add: in_step_def)
  have s: "in_step tx v' (reg st')"
    by (rule session_loop_keeps[where P = "\<lambda>v s. in_step tx v (reg s)", OF _ init assms(4)])
      (use turn_in_step[where io = io, OF assms(1)] in force)
  have "in_step tx (v'\<lparr>ses_partial := p\<rparr>) (reg st')" for p using s by (simp add: in_step_def)
  from drain_in_step[where io = io, OF assms(1) this, THEN conjunct2] s show ?thesis
    by (auto simp: in_step_def session_turn_def)
qed

theorem control_output_in_order_witness:
  "\<exists>v st. session_loop (\<lambda>_. None) (\<lambda>_. []) (\<lambda>_. True) 1 [(5, PingTick), (6, Outgoing), (7, PingTick)]
       \<lparr>ses_partial = [], ses_last = 0, ses_taken = 0, ses_written = []\<rparr> demo_control = (v, st)
     \<and> ses_written v = [new_ping] \<and> sent_to 1 (reg st) = [new_ping, new_ping]"
proof -
  let ?v = "\<lparr>ses_partial = [], ses_last = 0, ses_taken = 0, ses_written = []\<rparr>"
  let ?evs = "[(5, PingTick), (6, Outgoing), (7, PingTick)]"
  obtain v st where l: "session_loop (\<lambda>_. None) (\<lambda>_. []) (\<lambda>_. True) 1 ?evs ?v demo_control = (v, st)"
    by (metis prod.exhaust)
  have "sent_messages (reg demo_control) = []" "dead_channels (reg demo_control) = {}"
    by (simp_all add: demo_control_def demo_def new_with_network_policy_def)
  with l have "ses_taken v = 1" "sent_to 1 (reg st) = [new_ping, new_ping]"
    by (auto simp: session_turn_def send_message_def outgoing_def)
  moreover from control_output_in_order[OF _ _ _ l] have "ses_written v = take (ses_taken v) (sent_to 1 (reg st))" by simp
  ultimately show ?thesis using l by (intro exI[of _ v] exI[of _ st]) simp
qed

text \<open>A message that arrives in two pieces can be lost. The loop gives up a pending read when it
  has a message of its own to send, and a read that is given up forgets the bytes it has taken. If
  the server sends anything, a ping for instance, while only a first part of a client's line has arrived,
  the rest is taken for a line and, being no message, ignored: the state is as if the client had never sent
  its message. In the other order the message is handled.\<close>

theorem interrupted_line_lost:
  fixes st :: "'s control"
  assumes "\<And>m. io m" "kept a = []" "ses_partial v = []" "outgoing tx (ses_taken v) (reg st) \<noteq> []"
    and "json_frame to_json parse msg" "to_json msg = a @ b" "parse (trim (b @ [LF])) = None"
  shows "snd (session_loop parse kept io tx [(t, Arrive a), (t, Outgoing), (t, Arrive (b @ [LF]))] v st) = st
    \<and> reg (snd (session_loop parse kept io tx [(t, Arrive a), (t, Arrive (b @ [LF])), (t, Outgoing)] v st))
      = reg (control_message t tx msg st)"
proof -
  obtain c where c: "a @ b = CHR ''{'' # c @ ''}''" "utf8_valid (a @ b)" "LF \<notin> set (a @ b)" "parse (a @ b) = Some msg"
    using assms(5,6) unfolding json_frame_def by metis
  have trimmed: "trim (a @ b @ [LF]) = a @ b" using trim_object_line[of c] c(1) by (metis append.assoc append_Cons)
  have "utf8_valid ((a @ b) @ [LF])" by (rule utf8_valid_snoc_ascii[OF c(2)]) (simp add: byte_def)
  then have u: "utf8_valid (a @ b @ [LF])" by simp
  have ne: "a @ b \<noteq> []" unfolding c(1) by (rule list.simps(3))
  obtain m ms where o: "outgoing tx (ses_taken v) (reg st) = m # ms"
    using assms(4) by (cases "outgoing tx (ses_taken v) (reg st)") auto
  have arrive: "session_turn parse kept io tx t (Arrive a) v st = ((True, v\<lparr>ses_partial := a\<rparr>), st)"
    using c(3) assms(3) by (simp add: session_turn_def)
  have send: "session_turn parse kept io tx t Outgoing (v\<lparr>ses_partial := a\<rparr>) st
      = ((True, v\<lparr>ses_partial := [], ses_taken := ses_taken v + 1, ses_written := ses_written v @ [m]\<rparr>), st)"
    using o assms(1,2) by (simp add: session_turn_def Let_def)
  have rest: "snd (session_turn parse kept io tx t (Arrive (b @ [LF])) w st) = st" if "ses_partial w = []" for w
    using assms(7) that by (simp add: session_turn_def session_line_def Let_def)
  have whole: "session_turn parse kept io tx t (Arrive (b @ [LF])) (v\<lparr>ses_partial := a\<rparr>) st
      = (drain io tx (reg (control_message t tx msg st)) (v\<lparr>ses_partial := [], ses_last := t\<rparr>), control_message t tx msg st)"
    using ne by (simp add: session_turn_def session_line_def u trimmed c(4) Let_def del: append_is_Nil_conv)
  have keeps: "snd (session_turn parse kept io tx t Outgoing w z) = z" for w and z :: "'s control"
    by (simp add: session_turn_def Let_def split: list.split)
  have "snd (session_loop parse kept io tx [(t, Arrive a), (t, Outgoing), (t, Arrive (b @ [LF]))] v st) = st"
    using rest[of "v\<lparr>ses_partial := [], ses_taken := ses_taken v + 1, ses_written := ses_written v @ [m]\<rparr>"]
    by (simp add: arrive send split: prod.split bool.split) auto
  moreover have "snd (session_loop parse kept io tx [(t, Arrive a), (t, Arrive (b @ [LF])), (t, Outgoing)] v st)
      = control_message t tx msg st"
    using keeps by (auto simp: arrive whole split: prod.split bool.split) (metis snd_conv)+
  ultimately show ?thesis by simp
qed

lemma trim_back_subset: "set (trim_back s) \<subseteq> set s"
proof (induction s rule: trim_back.induct)
  case (1 s)
  then show ?case
    by (cases "ws_len_back s = 0") (auto simp: trim_back.simps[of s] dest: in_set_dropD)
qed

lemma trim_subset: "set (trim s) \<subseteq> set s"
proof -
  obtain p where p: "s = p @ trim_start s" using trim_start_suffix by blast
  have "set (trim s) \<subseteq> set (trim_start s)" using trim_back_subset[of "rev (trim_start s)"] by (simp add: trim_def)
  also have "\<dots> \<subseteq> set s" by (subst (2) p) simp
  finally show ?thesis .
qed

definition demo_to_json :: "message \<Rightarrow> string" where "demo_to_json m = ''{1}''"

definition demo_parse :: "string \<Rightarrow> message option" where
  "demo_parse s = (if s = ''{1}'' then Some (new_health ''a'' False) else None)"

theorem interrupted_line_lost_witness:
  "\<exists>v r. healthy (store r ! 0)
     \<and> reg (snd (session_loop demo_parse (\<lambda>_. []) (\<lambda>_. True) 1
         [(0, Arrive ''{''), (0, Outgoing), (0, Arrive (''1}'' @ [LF]))] v (demo_control\<lparr>reg := r\<rparr>))) = r
     \<and> \<not> healthy (store (reg (snd (session_loop demo_parse (\<lambda>_. []) (\<lambda>_. True) 1
         [(0, Arrive ''{''), (0, Arrive (''1}'' @ [LF])), (0, Outgoing)] v (demo_control\<lparr>reg := r\<rparr>)))) ! 0)"
proof -
  define e where "e = new_entry (tcp_service ''a'' 9000) ''c'' (1 :: nat) 0"
  define r where "r = (demo :: nat registry)\<lparr>store := [e], services_by_name := [(''a'', 0)], sent_messages := [(1, new_ping)]\<rparr>"
  define v where "v = \<lparr>ses_partial = [], ses_last = 0, ses_taken = 0, ses_written = []\<rparr>"
  have frame: "json_frame demo_to_json demo_parse (new_health ''a'' False)"
    by (auto simp: json_frame_def demo_to_json_def demo_parse_def byte_def)
  have rest: "demo_parse (trim (''1}'' @ [LF])) = None"
    using trim_subset[of "''1}'' @ [LF]"] by (auto simp: demo_parse_def)
  have out: "outgoing 1 (ses_taken v) (reg (demo_control\<lparr>reg := r\<rparr>)) \<noteq> []" by (simp add: outgoing_def v_def r_def)
  have v: "ses_partial v = []" by (simp add: v_def)
  have h: "healthy e" by (simp add: e_def new_entry_def)
  have hit: "\<not> healthy (store (reg (control_message 0 1 (new_health ''a'' False) (demo_control\<lparr>reg := r\<rparr>))) ! 0)"
    by (simp add: control_message_def new_health_def default_message_def report_health_def update_entry_def r_def hm_get_def)
  from interrupted_line_lost[where kept = "\<lambda>_. []" and io = "\<lambda>_. True", OF _ _ v out frame, of "''{''" "''1}''" 0] rest hit h
  show ?thesis by (intro exI[of _ v] exI[of _ r]) (auto simp: demo_to_json_def r_def)
qed

end
