(* ===== verification/Registry_Types.thy ===== *)
theory Registry_Types
  imports Registry_Relay
begin

text \<open>
  The well-formedness of the registry: every table is a map, every index that a table holds refers to an entry, and
  to the right one. It holds in every reachable registry, so no lookup of the code is ever out of range.
\<close>

definition maps_wf :: "'s registry \<Rightarrow> bool" where
  "maps_wf r \<longleftrightarrow> hm_wf (services_by_name r) \<and> hm_wf (services_by_group r) \<and> hm_wf (client_services r)
     \<and> hm_wf (allocated_ports r) \<and> hm_wf (active_listeners r) \<and> hm_wf (pending_work r)
     \<and> hm_wf (pending_static r) \<and> hm_wf (client_control_tx r)"

definition names_refer :: "service_entry list \<Rightarrow> (string, nat) hmap \<Rightarrow> bool" where
  "names_refer es m \<longleftrightarrow> (\<forall>n i. hm_get m n = Some i \<longrightarrow> i < length es \<and> svc_name (config (es ! i)) = n)"

definition groups_refer :: "service_entry list \<Rightarrow> (string, nat list) hmap \<Rightarrow> bool" where
  "groups_refer es m \<longleftrightarrow> (\<forall>g js. hm_get m g = Some js \<longrightarrow>
     js \<noteq> [] \<and> distinct js \<and> (\<forall>j \<in> set js. j < length es \<and> group (config (es ! j)) = Some g))"

definition registry_wf :: "'s registry \<Rightarrow> bool" where
  "registry_wf r \<longleftrightarrow> maps_wf r \<and> names_refer (store r) (services_by_name r) \<and> groups_refer (store r) (services_by_group r)"

section \<open>Entries\<close>

text \<open>Entries may change everything but who they are, and new ones may come.\<close>

definition grows :: "service_entry list \<Rightarrow> service_entry list \<Rightarrow> bool" where
  "grows es' es \<longleftrightarrow> length es \<le> length es' \<and> (\<forall>i < length es. config (es' ! i) = config (es ! i))"

lemma grows_refl [simp]: "grows es es"
  by (simp add: grows_def)

lemma grows_snoc [simp]: "grows (es @ [e]) es"
  by (simp add: grows_def nth_append)

lemma grows_identity: "map identity es' = map identity es \<Longrightarrow> grows es' es"
proof -
  assume a: "map identity es' = map identity es"
  then have len: "length es' = length es" by (metis length_map)
  have "identity (es' ! i) = identity (es ! i)" if "i < length es" for i
    using arg_cong[OF a, of "\<lambda>xs. xs ! i"] that len by simp
  with len show ?thesis by (simp add: grows_def identity_def)
qed

lemma refer_grows:
  assumes "grows es' es"
  shows "names_refer es m \<Longrightarrow> names_refer es' m" "groups_refer es gm \<Longrightarrow> groups_refer es' gm"
  using assms by (fastforce simp: names_refer_def groups_refer_def grows_def)+

lemma names_refer_insert:
  "names_refer es m \<Longrightarrow> i < length es \<Longrightarrow> svc_name (config (es ! i)) = n \<Longrightarrow> names_refer es (hm_insert n i m)"
  by (simp add: names_refer_def)

lemma names_refer_remove: "names_refer es m \<Longrightarrow> names_refer es (hm_remove n m)"
  by (simp add: names_refer_def)

section \<open>Every operation\<close>

lemma wf_leave_group:
  assumes "registry_wf r"
  shows "registry_wf (leave_group g n r)" "store (leave_group g n r) = store r"
    "services_by_name (leave_group g n r) = services_by_name r"
  using assms
  by (auto simp: registry_wf_def maps_wf_def groups_refer_def leave_group_def Let_def split: option.split)

lemma wf_allocate_loop: "allocate_loop k n r = (p, r') \<Longrightarrow> registry_wf r \<Longrightarrow> registry_wf r'"
proof (induction k arbitrary: r)
  case (Suc k)
  have "registry_wf (r\<lparr>next_port := next_port r + 1\<rparr>)" using Suc.prems(2) by (simp add: registry_wf_def maps_wf_def)
  with Suc show ?case
    by (auto simp: Let_def registry_wf_def maps_wf_def split: if_splits)
qed simp

lemma wf_ports: "registry_wf r \<Longrightarrow> hm_wf m \<Longrightarrow> registry_wf (r\<lparr>allocated_ports := m\<rparr>)"
  by (simp add: registry_wf_def maps_wf_def)

lemma wf_remove_port: "registry_wf r \<Longrightarrow> registry_wf (r\<lparr>allocated_ports := hm_remove p (allocated_ports r)\<rparr>)"
  by (rule wf_ports) (simp_all add: registry_wf_def maps_wf_def)

lemma wf_insert_port: "registry_wf r \<Longrightarrow> registry_wf (r\<lparr>allocated_ports := hm_insert p n (allocated_ports r)\<rparr>)"
  by (rule wf_ports) (simp_all add: registry_wf_def maps_wf_def)

lemma wf_assign_port: "assign_port n ex svc r = (s, r') \<Longrightarrow> registry_wf r \<Longrightarrow> registry_wf r'"
  by (auto simp: assign_port_def allocate_port_def Let_def wf_insert_port
      split: if_splits option.splits sum.splits prod.splits dest: wf_allocate_loop)

lemma wf_stop_listener: "registry_wf r \<Longrightarrow> registry_wf (stop_listener p n r)"
  by (simp add: registry_wf_def maps_wf_def stop_listener_def split: option.split)

lemma wf_retire_previous: "registry_wf r \<Longrightarrow> registry_wf (retire_previous n e svc r)"
  by (simp add: retire_previous_def Let_def wf_leave_group(1) wf_stop_listener wf_remove_port)

lemma wf_publish:
  assumes "registry_wf r"
  shows "registry_wf (publish now cid tx svc r)"
proof -
  let ?es = "store r @ [new_entry svc cid tx now]"
  have cfg: "config (?es ! length (store r)) = svc" by (simp add: new_entry_def)
  have names: "names_refer ?es (hm_insert (svc_name svc) (length (store r)) (services_by_name r))"
    using assms cfg refer_grows(1)[OF grows_snoc] by (intro names_refer_insert) (auto simp: registry_wf_def)
  have groups: "groups_refer ?es (services_by_group r)"
    using assms refer_grows(2)[OF grows_snoc] by (auto simp: registry_wf_def)
  have new: "groups_refer ?es (hm_insert g ((case hm_get (services_by_group r) g of None \<Rightarrow> [] | Some es \<Rightarrow> es)
      @ [length (store r)]) (services_by_group r))" if "group svc = Some g" for g
  proof -
    have "length (store r) \<notin> set js" if "hm_get (services_by_group r) g = Some js" for js
      using assms that by (fastforce simp: registry_wf_def groups_refer_def)
    with groups cfg that show ?thesis by (auto simp: groups_refer_def split: option.split)
  qed
  show ?thesis
    using assms names groups new unfolding registry_wf_def maps_wf_def
    by (auto simp: publish_def Let_def split: option.split)
qed

lemma wf_register_one: "register_one now cid tx svc r = (s, r') \<Longrightarrow> registry_wf r \<Longrightarrow> registry_wf r'"
  by (auto simp: register_one_def Let_def split: if_splits option.splits prod.splits
      intro!: wf_publish wf_retire_previous dest: wf_assign_port)

lemma wf_register_all: "register_all now cid tx svcs r = (as, r') \<Longrightarrow> registry_wf r \<Longrightarrow> registry_wf r'"
proof (induction svcs arbitrary: as r)
  case (Cons svc svcs)
  then show ?case by (auto split: prod.splits dest: wf_register_one)
qed simp

lemma wf_register_services: "register_services now cid tx svcs r = (as, r') \<Longrightarrow> registry_wf r \<Longrightarrow> registry_wf r'"
proof -
  assume "register_services now cid tx svcs r = (as, r')" "registry_wf r"
  moreover from this(2) have "registry_wf (enter_session cid tx r)"
    by (simp add: enter_session_def registry_wf_def maps_wf_def Let_def)
  ultimately show ?thesis unfolding register_services_def using wf_register_all by blast
qed

lemma wf_remove_service: "remove_service n r = (ls, r') \<Longrightarrow> registry_wf r \<Longrightarrow> registry_wf r'"
proof -
  assume a: "remove_service n r = (ls, r')" "registry_wf r"
  have "registry_wf (r\<lparr>services_by_name := hm_remove n (services_by_name r)\<rparr>)"
    using a(2) by (simp add: registry_wf_def maps_wf_def names_refer_remove)
  moreover from this have "registry_wf (r\<lparr>services_by_name := hm_remove n (services_by_name r),
      allocated_ports := hm_remove p (allocated_ports r)\<rparr>)" for p
    by (rule wf_ports) (use a(2) in \<open>simp add: registry_wf_def maps_wf_def\<close>)
  ultimately show ?thesis using a
    by (auto simp: remove_service_def Let_def split: option.splits if_splits intro: wf_leave_group(1))
qed

lemma wf_remove_names: "remove_names ns r = (ls, r') \<Longrightarrow> registry_wf r \<Longrightarrow> registry_wf r'"
proof (induction ns arbitrary: ls r)
  case (Cons n ns)
  then show ?case by (auto split: prod.splits dest: wf_remove_service)
qed simp

lemma wf_stop_listeners: "registry_wf r \<Longrightarrow> registry_wf (fold (\<lambda>(p, n). stop_listener p n) ls r)"
  by (induction ls arbitrary: r) (auto simp: wf_stop_listener)

lemma wf_remove_client_services: "registry_wf r \<Longrightarrow> registry_wf (remove_client_services cid r)"
proof -
  assume "registry_wf r"
  then have "registry_wf (r\<lparr>client_services := hm_remove cid (client_services r)\<rparr>)"
    by (simp add: registry_wf_def maps_wf_def)
  then show ?thesis
    by (auto simp: remove_client_services_def Let_def split: prod.split intro: wf_stop_listeners dest: wf_remove_names)
qed

text \<open>Operations that keep the tables of names and groups and the identity of the entries.\<close>

lemma wf_same:
  assumes "registry_wf r" "services_by_name r' = services_by_name r" "services_by_group r' = services_by_group r"
    and "map identity (store r') = map identity (store r)" "maps_wf r'"
  shows "registry_wf r'"
  using assms refer_grows[OF grows_identity[OF assms(4)]] by (simp add: registry_wf_def)

lemma same_groups:
  "services_by_group (update_entry n f r) = services_by_group r"
  "services_by_group (snd (toggle_service n b r)) = services_by_group r"
  by (simp_all add: update_entry_def toggle_service_def split: option.split)

lemma wf_update_entry: "(\<And>e. identity (f e) = identity e) \<Longrightarrow> registry_wf r \<Longrightarrow> registry_wf (update_entry n f r)"
proof (cases "hm_get (services_by_name r) n")
  case (Some i)
  assume f: "\<And>e. identity (f e) = identity e" and wf: "registry_wf r"
  have "registry_wf (r\<lparr>store := (store r)[i := f (store r ! i)]\<rparr>)"
    by (rule wf_same[OF wf]) (use wf in \<open>simp_all add: registry_wf_def maps_wf_def map_identity_update f\<close>)
  then show ?thesis by (simp add: update_entry_def Some)
qed (simp add: update_entry_def)

lemma wf_cancel: "registry_wf r \<Longrightarrow> registry_wf (cancel_static_response i r)"
  by (simp add: registry_wf_def maps_wf_def cancel_static_response_def)

lemma wf_static:
  assumes "registry_wf r"
  shows "registry_wf (cancel_static_response_for_control i tx r)"
    "registry_wf (cancel_static_responses_for_control tx r)" "registry_wf (snd (try_send q ch r))"
  using assms wf_cancel[OF assms]
  by (simp_all add: cancel_static_response_for_control_def split: option.split)
    (simp_all add: registry_wf_def maps_wf_def cancel_static_responses_for_control_def try_send_def Let_def)

lemma wf_deliver: "registry_wf r \<Longrightarrow> registry_wf (snd (deliver_static_response tx i d eof r))"
proof -
  assume wf: "registry_wf r"
  show ?thesis
  proof (cases "hm_get (pending_static r) i")
    case (Some p)
    obtain b r1 where t: "try_send (queue_id p) \<lparr>chunk_data = d, chunk_eof = eof\<rparr> r = (b, r1)" by fastforce
    with wf_static(3)[OF wf] have "registry_wf r1" by (metis snd_conv)
    with wf t Some show ?thesis by (cases b) (simp_all add: deliver_static_response_def wf_static(1))
  qed (use wf in \<open>simp add: deliver_static_response_def wf_static(1)\<close>)
qed

lemma wf_tables:
  assumes "registry_wf r"
  shows "registry_wf (snd (release_control cid tx r))" "registry_wf (register_listener p n h r)"
    "registry_wf (remove_listener_handle p n r)" "registry_wf (snd (send_message tx m r))"
    "registry_wf (snd (open_tunnel_begin i e src dst r))" "registry_wf (snd (open_tunnel_end i k r))"
    "registry_wf (snd (complete_tunnel i t r))" "registry_wf (reject_tunnel i err r)"
    "registry_wf (snd (queue_recv q r))" "registry_wf (queue_drop q r)" "registry_wf (r\<lparr>dead_channels := d\<rparr>)"
    "registry_wf (r\<lparr>client_control_tx := hm_remove cid (client_control_tx r)\<rparr>)"
  using assms
  by (auto simp: registry_wf_def maps_wf_def release_control_def register_listener_def remove_listener_handle_def
      send_message_def open_tunnel_begin_def open_tunnel_end_def cancel_pending_tunnel_def complete_tunnel_def
      reject_tunnel_def queue_recv_def queue_drop_def Let_def split: option.split list.split sum.split)

lemma wf_request: "registry_wf r \<Longrightarrow> registry_wf (snd (request_static_response i e req r))"
  by (auto simp: registry_wf_def maps_wf_def request_static_response_def send_message_def cancel_static_response_def Let_def)

lemma wf_entries:
  assumes "registry_wf r"
  shows "registry_wf (report_health now n h r)" "registry_wf (record_traffic n a b r)"
    "registry_wf (snd (toggle_service n t r))" "registry_wf (snd (get_group_service g r))"
    "registry_wf (run_health_monitor now r)"
proof -
  show "registry_wf (report_health now n h r)" "registry_wf (record_traffic n a b r)"
    unfolding report_health_def record_traffic_def by (rule wf_update_entry[OF _ assms], simp add: identity_def)+
  have "registry_wf (update_entry n (\<lambda>e. e\<lparr>enabled := t\<rparr>) r)"
    by (rule wf_update_entry[OF _ assms]) (simp add: identity_def)
  then show "registry_wf (snd (toggle_service n t r))" using assms by (simp add: toggle_service_def)
  show "registry_wf (snd (get_group_service g r))"
    by (rule wf_same[OF assms])
      (use assms in \<open>auto simp: get_group_service_def Let_def map_identity_update identity_def registry_wf_def maps_wf_def
         split: option.split list.split\<close>)
  show "registry_wf (run_health_monitor now r)"
    by (rule wf_same[OF assms]) (use assms inert_monitor[of now r] in \<open>auto simp: inert_def registry_wf_def maps_wf_def monitor_store\<close>)
qed

lemmas wf_rules = wf_remove_client_services wf_stop_listener wf_tables wf_request wf_deliver wf_cancel wf_static wf_entries

lemma wf_step: "registry_step P r r' \<Longrightarrow> registry_wf r \<Longrightarrow> registry_wf r'"
proof (induction rule: registry_step.induct)
  case (step_register svcs now cid tx r as r')
  then show ?case using wf_register_services by blast
next
  case (step_unregister r cid)
  then show ?case unfolding unregister_client_def by (intro wf_rules)
qed (simp_all add: wf_rules)

lemma wf_reachable: "registry_reachable P r0 r \<Longrightarrow> registry_wf r0 \<Longrightarrow> registry_wf r"
  by (induction rule: registry_reachable.induct) (auto intro: wf_step)

section \<open>No lookup is out of range\<close>

lemma wf_fresh: "registry_wf (new_with_network_policy pmin pmax q b priv prot res)"
  by (simp add: registry_wf_def maps_wf_def names_refer_def groups_refer_def new_with_network_policy_def)

lemma get_by_host_refers:
  assumes "registry_wf r" "get_service_by_host h r = Some i"
  shows "i < length (store r) \<and> enabled (store r ! i)"
proof -
  from assms(2) have i: "i \<in> set (map snd (services_by_name r))" "host_matches (to_ascii_lowercase h) (store r ! i)"
    by (auto simp: get_service_by_host_def find_Some_iff set_conv_nth simp del: length_map set_map)
  then obtain n where "(n, i) \<in> set (services_by_name r)" by auto
  then have "hm_get (services_by_name r) n = Some i"
    using assms(1) by (simp add: registry_wf_def maps_wf_def hm_wf_def hm_get_def)
  with assms(1) i(2) show ?thesis by (auto simp: registry_wf_def names_refer_def host_matches_def)
qed

lemma get_group_refers:
  assumes "registry_wf r" "fst (get_group_service g r) = Some i"
  shows "i < length (store r) \<and> group (config (store r ! i)) = Some g"
proof -
  from assms(2) obtain j js where js: "hm_get (services_by_group r) g = Some (j # js)" "i \<in> set (j # js)"
    by (auto simp: get_group_service_def Let_def split: option.splits list.splits simp del: nth_Cons_pos)
      (metis length_Cons mod_less_divisor nth_mem zero_less_Suc list.set(2) insert_iff)
  with assms(1) show ?thesis by (fastforce simp: registry_wf_def groups_refer_def)
qed



end
