(* ===== verification/Client_Tasks.thy ===== *)
theory Client_Tasks
  imports Client_Session
begin

text \<open>
  The tasks a client session starts: health checks (\<^verbatim>\<open>cross233-client/src/health_check.rs\<close>), visitors
  (\<^verbatim>\<open>cross233-client/src/visitor.rs\<close>) and which tasks there are for the assigned services (\<^verbatim>\<open>session\<close> of
  \<^verbatim>\<open>cross233-client/src/client.rs\<close>). Whether an address can be connected or bound is an argument.
\<close>

section \<open>Health checks\<close>

record health_check_config =
  hc_type :: string
  hc_interval :: u32
  hc_timeout_ms :: u32
  hc_max_failed :: u32
  hc_path :: "string option"
  hc_headers :: "(string, string) hmap"

definition from_service :: "service \<Rightarrow> health_check_config option" where
  "from_service svc =
     (case health_check svc of
        None \<Rightarrow> None
      | Some ty \<Rightarrow>
          if ty = [] then None
          else Some \<lparr>hc_type = ty,
                     hc_interval = (if health_interval svc > 0 then health_interval svc else 10),
                     hc_timeout_ms = (if health_timeout svc > 0 then health_timeout svc else 3),
                     hc_max_failed = (if health_max_failed svc > 0 then health_max_failed svc else 1),
                     hc_path = health_path svc, hc_headers = health_headers svc\<rparr>)"

text \<open>\<open>connects addr t\<close>: a connection to the address succeeds within \<open>t\<close> seconds. The HTTP check builds a URL
  and then does what the TCP check does.\<close>

definition check_tcp :: "(string \<Rightarrow> nat \<Rightarrow> bool) \<Rightarrow> string \<Rightarrow> nat \<Rightarrow> bool" where
  "check_tcp connects addr t = connects addr t"

definition check_http :: "(string \<Rightarrow> nat \<Rightarrow> bool) \<Rightarrow> string \<Rightarrow> health_check_config \<Rightarrow> nat \<Rightarrow> bool" where
  "check_http connects addr cfg t = check_tcp connects addr t"

definition check_health :: "(string \<Rightarrow> nat \<Rightarrow> bool) \<Rightarrow> string \<Rightarrow> health_check_config \<Rightarrow> nat \<Rightarrow> bool" where
  "check_health connects addr cfg t =
     (if hc_type cfg \<in> {''http'', ''https''} then check_http connects addr cfg t else check_tcp connects addr t)"

text \<open>One tick: the failures counted so far, and the report if there is one. The interval
  and the time-out are both taken in seconds.\<close>

definition health_tick ::
  "string \<Rightarrow> string \<Rightarrow> health_check_config \<Rightarrow> (string \<Rightarrow> nat \<Rightarrow> bool) \<Rightarrow> u32 \<Rightarrow> u32 \<times> message list" where
  "health_tick name addr cfg connects fail_count =
     (let h = check_health connects addr cfg (unat (hc_timeout_ms cfg));
          n = (if h then 0 else fail_count + 1)
      in (n, if h \<or> n \<ge> hc_max_failed cfg then [new_health name h] else []))"

text \<open>The loop, with what the network answers at each tick: the messages of each.\<close>

fun run_health_check ::
  "string \<Rightarrow> string \<Rightarrow> health_check_config \<Rightarrow> (string \<Rightarrow> nat \<Rightarrow> bool) list \<Rightarrow> u32 \<Rightarrow> message list list" where
  "run_health_check name addr cfg [] n = []"
| "run_health_check name addr cfg (c # cs) n =
     (case health_tick name addr cfg c n of (n', ms) \<Rightarrow> ms # run_health_check name addr cfg cs n')"

section \<open>Visitors\<close>

record visitor_config =
  v_name :: string
  v_ty :: string
  v_server_name :: string
  v_secret_key :: string
  v_bind_addr :: string
  v_bind_port :: u16

datatype visitor_error = Unsupported string | VBind | VHandshake | VAuthFailed string | VExpectedReady

text \<open>\<^verbatim>\<open>run_visitor\<close> accepts secret TCP services only; what it does with a local connection is
  \<^verbatim>\<open>handle_stcp_conn\<close>. The secret key of the configuration is not used.\<close>

definition run_visitor :: "bool \<Rightarrow> visitor_config \<Rightarrow> visitor_error + unit" where
  "run_visitor bind_ok cfg =
     (if v_ty cfg = ''stcp'' then (if bind_ok then Inr () else Inl VBind) else Inl (Unsupported (v_ty cfg)))"

definition handle_stcp_conn ::
  "(string \<Rightarrow> string \<Rightarrow> string) \<Rightarrow> string \<Rightarrow> string \<Rightarrow> string \<Rightarrow> string \<Rightarrow> message option \<Rightarrow> message option
    \<Rightarrow> message list \<times> (visitor_error + unit)" where
  "handle_stcp_conn mac key client_id service_name visitor_id challenge resp =
     (let hello = new_visitor_hello client_id service_name (Some visitor_id)
      in case answer_challenge mac key ''visitor'' client_id visitor_id challenge of
           Inl e \<Rightarrow> ([hello], Inl VHandshake)
         | Inr am \<Rightarrow>
             ([hello, am],
              case resp of
                None \<Rightarrow> Inl VHandshake
              | Some r \<Rightarrow> if m_ty r = ''error'' then Inl (VAuthFailed (opt_str (m_error r) []))
                         else if m_ty r \<noteq> ''ready'' \<and> m_ty r \<noteq> ''visitor_ok'' then Inl VExpectedReady else Inr ()))"

section \<open>The tasks of a session\<close>

datatype task =
    UdpTask u16 service
  | StaticHealthTask string string
  | HealthTask string string health_check_config
  | VisitorTask visitor_config

definition service_tasks :: "(string \<Rightarrow> bool) \<Rightarrow> service \<Rightarrow> task list" where
  "service_tasks bind_ok svc =
     (if is_udp svc \<and> \<not> is_private svc \<and> remote_port svc > 0 \<and> bind_ok (local_addr svc)
      then [UdpTask (remote_port svc) svc] else [])
     @ (if effective_type svc = ''static'' then [StaticHealthTask (svc_name svc) (local_addr svc)]
        else (case from_service svc of
                Some hc \<Rightarrow> [HealthTask (svc_name svc) (local_addr svc) hc]
              | None \<Rightarrow> []))"

definition session_tasks :: "(string \<Rightarrow> bool) \<Rightarrow> service list \<Rightarrow> visitor_config list \<Rightarrow> task list" where
  "session_tasks bind_ok assigned visitors = concat (map (service_tasks bind_ok) assigned) @ map VisitorTask visitors"

section \<open>What is reported\<close>

text \<open>The number of failures in a row at the end of a list of results.\<close>

fun streak :: "nat \<Rightarrow> bool list \<Rightarrow> nat" where
  "streak k [] = k"
| "streak k (h # hs) = streak (if h then 0 else k + 1) hs"

lemma streak_bound: "streak k hs \<le> k + length hs"
  by (induction k hs rule: streak.induct) auto

lemma streak_snoc: "streak k (hs @ [h]) = (if h then 0 else streak k hs + 1)"
  by (induction k hs rule: streak.induct) auto

lemma health_count:
  assumes "unat n + length cs < 2 ^ 32" "i < length cs"
  shows "run_health_check name addr cfg cs n ! i =
    (let hs = map (\<lambda>c. check_health c addr cfg (unat (hc_timeout_ms cfg))) (take (i + 1) cs)
     in if last hs then [new_health name True]
        else if unat (hc_max_failed cfg) \<le> streak (unat n) hs then [new_health name False] else [])"
  using assms
proof (induction cs arbitrary: n i)
  case (Cons c cs)
  let ?h = "\<lambda>c. check_health c addr cfg (unat (hc_timeout_ms cfg))"
  have suc: "unat (n + 1) = unat n + 1"
  proof -
    have "unat n + 1 < 2 ^ 32" using Cons.prems(1) by simp
    then have "unat (of_nat (unat n + 1) :: u32) = unat n + 1" by (rule unat_of_nat_u32)
    then show ?thesis by (simp add: add.commute)
  qed
  show ?case
  proof (cases i)
    case 0
    then show ?thesis by (simp add: health_tick_def Let_def suc word_le_nat_alt)
  next
    case (Suc k)
    let ?n = "if ?h c then 0 else n + 1"
    have small: "unat ?n + length cs < 2 ^ 32" "k < length cs" using Cons.prems suc Suc by auto
    have u: "unat ?n = (if ?h c then 0 else unat n + 1)" using suc by simp
    have ne: "map ?h (take (k + 1) cs) \<noteq> []" using small(2) by (cases cs) auto
    have "run_health_check name addr cfg (c # cs) n ! i = run_health_check name addr cfg cs ?n ! k"
      by (simp add: Suc health_tick_def Let_def)
    then show ?thesis unfolding Cons.IH[OF small] using ne by (simp add: Suc Let_def u)
  qed
qed simp

lemma streak_all_failed: "m \<le> streak 0 hs \<longleftrightarrow> m \<le> length hs \<and> (\<forall>h \<in> set (drop (length hs - m) hs). \<not> h)"
proof (induction hs arbitrary: m rule: rev_induct)
  case (snoc h hs)
  show ?case
  proof (cases m)
    case (Suc k)
    have "length hs - k \<le> length hs" by simp
    with snoc[of k] Suc show ?thesis by (auto simp: streak_snoc)
  qed (simp add: streak_snoc)
qed simp

text \<open>Whether the service answered at a tick.\<close>

definition answered :: "(string \<Rightarrow> nat \<Rightarrow> bool) list \<Rightarrow> string \<Rightarrow> health_check_config \<Rightarrow> nat \<Rightarrow> bool" where
  "answered cs addr cfg j = check_health (cs ! j) addr cfg (unat (hc_timeout_ms cfg))"

text \<open>Health is reported without flapping. At every tick of a health check, a service that
  answers is reported healthy at once; one that does not is reported unhealthy exactly when it has not
  answered at any of the last \<^verbatim>\<open>max_failed\<close> ticks, this one included, and otherwise nothing is reported.\<close>

theorem health_debounced:
  assumes "length cs < 2 ^ 32" "i < length cs"
  shows "run_health_check name addr cfg cs 0 ! i =
    (if answered cs addr cfg i then [new_health name True]
     else if unat (hc_max_failed cfg) \<le> i + 1
         \<and> (\<forall>j \<in> {i + 1 - unat (hc_max_failed cfg)..i}. \<not> answered cs addr cfg j)
     then [new_health name False] else [])"
proof -
  let ?hs = "map (\<lambda>c. check_health c addr cfg (unat (hc_timeout_ms cfg))) (take (i + 1) cs)"
  have len: "length ?hs = i + 1" using assms(2) by simp
  have nth: "?hs ! j = answered cs addr cfg j" if "j \<le> i" for j using that assms(2) by (simp add: answered_def)
  have "?hs \<noteq> []" using len by force
  then have last: "last ?hs = answered cs addr cfg i" using nth[of i] len by (simp add: last_conv_nth)
  have failed: "(\<forall>h \<in> set (drop (i + 1 - m) ?hs). \<not> h) \<longleftrightarrow> (\<forall>j \<in> {i + 1 - m..i}. \<not> answered cs addr cfg j)" for m
    unfolding all_set_conv_all_nth
  proof safe
    fix j assume a: "\<forall>k < length (drop (i + 1 - m) ?hs). \<not> drop (i + 1 - m) ?hs ! k"
      and j: "j \<in> {i + 1 - m..i}" "answered cs addr cfg j"
    then have "j - (i + 1 - m) < length (drop (i + 1 - m) ?hs)" using len by auto
    with a j nth[of j] len show False by (auto simp: nth_drop)
  next
    fix k assume a: "\<forall>j \<in> {i + 1 - m..i}. \<not> answered cs addr cfg j"
      and k: "k < length (drop (i + 1 - m) ?hs)" "drop (i + 1 - m) ?hs ! k"
    then have "i + 1 - m + k \<le> i" using len by simp
    with a k nth[of "i + 1 - m + k"] show False by (auto simp: nth_drop)
  qed
  have "unat (0 :: u32) + length cs < 2 ^ 32" using assms(1) by simp
  from health_count[OF this assms(2), of name addr cfg] show ?thesis
    by (simp only: Let_def last unat_0 streak_all_failed len failed)
qed

theorem health_debounced_witness:
  "run_health_check ''web'' ''a'' (the (from_service (default_service\<lparr>health_check := Some ''tcp'', health_max_failed := 2\<rparr>)))
     [\<lambda>_ _. True, \<lambda>_ _. False, \<lambda>_ _. False] 0 ! 1 = []
   \<and> run_health_check ''web'' ''a'' (the (from_service (default_service\<lparr>health_check := Some ''tcp'', health_max_failed := 2\<rparr>)))
     [\<lambda>_ _. True, \<lambda>_ _. False, \<lambda>_ _. False] 0 ! 2 = [new_health ''web'' False]"
proof -
  define cfg where "cfg = the (from_service (default_service\<lparr>health_check := Some ''tcp'', health_max_failed := 2\<rparr>))"
  let ?cs = "[\<lambda>_ _. True, \<lambda>_ _. False, \<lambda>_ _. False] :: (string \<Rightarrow> nat \<Rightarrow> bool) list"
  have m: "unat (hc_max_failed cfg) = 2" by (simp add: cfg_def from_service_def default_service_def)
  have a: "answered ?cs addr cfg j = (j = 0)" if "j \<le> 2" for addr j
    using that by (auto simp: answered_def check_health_def check_http_def check_tcp_def nth_Cons' numeral_2_eq_2)
  have "{0..1} = {0, 1 :: nat}" "{1..2} = {1, 2 :: nat}" by auto
  with health_debounced[of ?cs 1 "''web''" "''a''" cfg] health_debounced[of ?cs 2 "''web''" "''a''" cfg]
  show ?thesis unfolding cfg_def[symmetric] by (simp add: a m)
qed

end
