(* ===== verification/Health_Theorems.thy ===== *)
theory Health_Theorems
  imports Control_Theorems Registry_Types Client_Tasks
begin

text \<open>
  Health reports and the health monitor together: the client's checks (\<open>Client_Tasks\<close>) reach the server as messages
  (\<open>Control_Session\<close>), and the monitor (\<open>Health_Monitor\<close>) marks the services whose reports stop.
\<close>

text \<open>What happens to a service: a report that it is healthy arrives, or the monitor makes a round.\<close>

datatype health_event = Reported nat | Round nat

fun health_run :: "chan \<Rightarrow> string \<Rightarrow> health_event list \<Rightarrow> 's control \<Rightarrow> 's control" where
  "health_run tx n [] st = st"
| "health_run tx n (Reported t # es) st = health_run tx n es (control_message t tx (new_health n True) st)"
| "health_run tx n (Round t # es) st = health_run tx n es (st\<lparr>reg := run_health_monitor t (reg st)\<rparr>)"

text \<open>Every round comes at most \<open>T\<close> after a report, the first of which was at \<open>seen\<close>.\<close>

fun timely :: "nat \<Rightarrow> nat \<Rightarrow> health_event list \<Rightarrow> bool" where
  "timely T seen [] = True"
| "timely T seen (Reported t # es) = timely T t es"
| "timely T seen (Round t # es) = (t - seen \<le> T \<and> timely T seen es)"

lemma control_health:
  "control_message t tx (new_health n h) st = st\<lparr>reg := report_health t n h (reg st)\<rparr>"
  by (simp add: control_message_def new_health_def default_message_def)

lemma wf_names: "registry_wf r \<Longrightarrow> hm_get (services_by_name r) n = Some i \<Longrightarrow> i < length (store r)"
  by (simp add: registry_wf_def names_refer_def)

lemma entry_at_report:
  assumes "registry_wf r" "entry_at r n = Some e"
  shows "entry_at (report_health t n h r) n = Some (e\<lparr>healthy := h, last_health_check := t\<rparr>)"
proof -
  obtain i where i: "hm_get (services_by_name r) n = Some i" "e = store r ! i" using assms(2) by (auto simp: entry_at_def)
  with wf_names[OF assms(1) i(1)] show ?thesis by (simp add: entry_at_def report_health_def update_entry_def)
qed

lemma entry_at_round:
  "registry_wf r \<Longrightarrow> entry_at r n = Some e \<Longrightarrow> entry_at (run_health_monitor t r) n = Some (monitor_entry t e)"
  using monitor_entry_at[of r n t] wf_names[of r n] by simp

lemma health_run_healthy:
  assumes "registry_wf (reg st)" "entry_at (reg st) n = Some e" "healthy e"
    and "timely (monitor_timeout (config e)) (last_health_check e) es"
  shows "\<exists>e'. entry_at (reg (health_run tx n es st)) n = Some e' \<and> healthy e' \<and> config e' = config e"
  using assms
proof (induction tx n es st arbitrary: e rule: health_run.induct)
  case (2 tx n t es st)
  let ?e = "e\<lparr>healthy := True, last_health_check := t\<rparr>"
  have "entry_at (reg (control_message t tx (new_health n True) st)) n = Some ?e"
    unfolding control_health using entry_at_report[OF 2(2,3)] by simp
  moreover have "registry_wf (reg (control_message t tx (new_health n True) st))"
    unfolding control_health using wf_entries(1)[OF 2(2)] by simp
  ultimately show ?case using 2(1)[of ?e] 2(5) by simp
next
  case (3 tx n t es st)
  have "monitor_entry t e = e" using 3(5) by (simp add: monitor_entry_def)
  with entry_at_round[OF 3(2,3), of t] wf_entries(5)[OF 3(2), of t] 3(1)[of e] 3(4,5) show ?case by simp
qed simp

text \<open>A service that keeps reporting stays available. In whatever order its reports and the rounds of the monitor come, as long as
  every round finds a report that is not older than the service's time limit, the service is never marked unhealthy.\<close>

theorem reports_keep_healthy:
  assumes "registry_reachable P (new_with_network_policy pmin pmax q b priv prot res) (reg st)"
    and "entry_at (reg st) n = Some e" "healthy e" "timely (monitor_timeout (config e)) (last_health_check e) es"
  shows "\<exists>e'. entry_at (reg (health_run tx n es st)) n = Some e' \<and> healthy e' \<and> config e' = config e"
  by (rule health_run_healthy[OF wf_reachable[OF assms(1) wf_fresh] assms(2-4)])

text \<open>A service that asks for a check of no kind: the client never reports it, and the monitor takes it down after its time limit, from
  which nothing brings it back.\<close>

theorem empty_health_check_dies:
  assumes "registry_wf r" "entry_at r n = Some e" "health_check (config e) = Some []" "enabled e"
    and "now - last_health_check e > monitor_timeout (config e)"
  shows "(\<forall>bind_ok name addr hc. HealthTask name addr hc \<notin> set (service_tasks bind_ok (config e)))
    \<and> (\<exists>e'. entry_at (run_health_monitor now r) n = Some e' \<and> \<not> healthy e')"
proof
  show "\<forall>bind_ok name addr hc. HealthTask name addr hc \<notin> set (service_tasks bind_ok (config e))"
    using assms(3) by (simp add: service_tasks_def from_service_def)
  show "\<exists>e'. entry_at (run_health_monitor now r) n = Some e' \<and> \<not> healthy e'"
    using entry_at_round[OF assms(1,2), of now] assms(3-5) by (simp add: monitor_entry_def)
qed

text \<open>A report after 80 seconds, and rounds after 90 and 165.\<close>

theorem reports_keep_healthy_witness:
  "\<exists>(st :: nat control) e e'. entry_at (reg st) ''a'' = Some e \<and> health_check (config e) = Some ''tcp''
     \<and> entry_at (reg (health_run 1 ''a'' [Round (secs 90), Reported (secs 80), Round (secs 165)] st)) ''a'' = Some e' \<and> healthy e'"
proof -
  let ?s = "default_service\<lparr>svc_name := ''a'', svc_ty := Some ''http'', health_check := Some ''tcp''\<rparr>"
  define r where "r = snd (register_services 0 ''c'' 1 [?s] demo)"
  define st where "st = demo_control\<lparr>reg := r\<rparr>"
  obtain as where "register_services 0 ''c'' 1 [?s] demo = (as, r)" by (metis r_def prod.collapse)
  then have "registry_reachable (\<lambda>_. True) demo r" by (intro reach_next[OF reach_init] step_register) auto
  then have reach: "registry_reachable (\<lambda>_. True) (new_with_network_policy 7712 7720 7713 [] False {22} {7710}) (reg st)"
    by (simp add: st_def demo_def)
  have "entry_at r ''a'' = Some (new_entry ?s ''c'' 1 0)" unfolding r_def by code_simp
  then have at: "entry_at (reg st) ''a'' = Some (new_entry ?s ''c'' 1 0)" by (simp add: st_def)
  let ?es = "[Round (secs 90), Reported (secs 80), Round (secs 165)]"
  have "timely (monitor_timeout ?s) 0 ?es"
    by (simp add: monitor_timeout_def default_service_def secs_def)
  then have "timely (monitor_timeout (config (new_entry ?s ''c'' 1 0))) (last_health_check (new_entry ?s ''c'' 1 0)) ?es"
    by (simp only: new_entry_def service_entry.simps)
  from reports_keep_healthy[OF reach at _ this, of 1] obtain e' where
    "entry_at (reg (health_run 1 ''a'' ?es st)) ''a'' = Some e'" "healthy e'"
    by (auto simp only: new_entry_def service_entry.simps)
  moreover have "health_check (config (new_entry ?s ''c'' 1 0)) = Some ''tcp''" by (simp add: new_entry_def)
  ultimately show ?thesis using at by blast
qed

end
