(* ===== verification/Bounded_Log.thy ===== *)
theory Bounded_Log
  imports Prelude
begin

text \<open>
  Logs of bounded length, as the metrics and the web interface of the server keep them: the contract \<open>bounded_log\<close>
  is that of an unbounded list of which only the last elements are seen. The two components implement
  it in two ways, which they show to meet it.
\<close>

definition last_n :: "nat \<Rightarrow> 'a list \<Rightarrow> 'a list" where
  "last_n n xs = drop (length xs - n) xs"

lemma length_last_n [simp]: "length (last_n n xs) = min n (length xs)"
  by (simp add: last_n_def)

lemma last_n_all [simp]: "length xs \<le> n \<Longrightarrow> last_n n xs = xs"
  by (simp add: last_n_def)

lemma last_n_rev_take: "rev (take n (rev xs)) = last_n n xs"
  by (simp add: last_n_def take_rev)

lemma last_n_append: "length ys \<le> n \<Longrightarrow> last_n n (xs @ ys) = last_n (n - length ys) xs @ ys"
  by (simp add: last_n_def)

lemma last_n_last_n [simp]: "last_n m (last_n n xs) = last_n (min m n) xs"
  by (auto simp: last_n_def min_def intro!: arg_cong[where f = "\<lambda>k. drop k xs"])

lemma last_n_snoc [simp]: "last_n n (last_n n xs @ [x]) = last_n n (xs @ [x])"
  by (cases n) (simp add: last_n_def, simp add: last_n_append)

lemma set_last_n: "set (last_n n xs) \<subseteq> set xs"
  by (simp add: last_n_def set_drop_subset)

section \<open>The contract\<close>

locale bounded_log =
  fixes cap :: nat and push :: "'a \<Rightarrow> 'a list \<Rightarrow> 'a list"
  assumes cap_pos: "0 < cap"
    and push: "length xs \<le> cap \<Longrightarrow> push x xs = last_n cap (xs @ [x])"
begin

lemma push_bounded: "length xs \<le> cap \<Longrightarrow> length (push x xs) \<le> cap"
  by (simp add: push)

lemma push_last: "length xs \<le> cap \<Longrightarrow> push x xs \<noteq> [] \<and> last (push x xs) = x"
  using cap_pos by (simp add: push last_n_append)

lemma push_abstract: "push x (last_n cap xs) = last_n cap (xs @ [x])"
  by (simp add: push)

theorem pushes: "fold push ys (last_n cap xs) = last_n cap (xs @ ys)"
proof (induction ys arbitrary: xs)
  case (Cons y ys)
  show ?case by (simp add: push_abstract Cons.IH)
qed simp

end

section \<open>The two implementations\<close>

text \<open>Append, then remove the first when there are too many; and the other way round.\<close>

definition append_then_pop :: "nat \<Rightarrow> 'a \<Rightarrow> 'a list \<Rightarrow> 'a list" where
  "append_then_pop n x xs = (let ys = xs @ [x] in if length ys > n then tl ys else ys)"

definition pop_then_append :: "nat \<Rightarrow> 'a \<Rightarrow> 'a list \<Rightarrow> 'a list" where
  "pop_then_append n x xs = (if length xs \<ge> n then tl xs else xs) @ [x]"

lemma append_then_pop_log: "0 < n \<Longrightarrow> bounded_log n (append_then_pop n)"
proof
  fix x :: 'a and xs :: "'a list"
  assume "length xs \<le> n"
  then show "append_then_pop n x xs = last_n n (xs @ [x])"
    by (cases "length xs = n") (auto simp: append_then_pop_def last_n_def drop_Suc simp del: drop_append tl_append2)
qed

lemma pop_then_append_log: "0 < n \<Longrightarrow> bounded_log n (pop_then_append n)"
proof
  fix x :: 'a and xs :: "'a list"
  assume "0 < n" "length xs \<le> n"
  then show "pop_then_append n x xs = last_n n (xs @ [x])"
    by (cases "length xs = n") (auto simp: pop_then_append_def last_n_def drop_Suc)
qed

end
