(* ===== verification/Metrics.thy ===== *)
theory Metrics
  imports Registry_Types Bounded_Log
begin

text \<open>
  The server's metrics (\<^verbatim>\<open>cross233-server/src/metrics.rs\<close>): once per second the counters of all services are added
  up and a point is appended to the history of the server and to that of each service. The rate of a
  counter, a division of floating-point numbers, is the parameter \<open>rate\<close>, a function of the difference and the elapsed
  time.
\<close>

definition MAX_HISTORY_POINTS :: nat where "MAX_HISTORY_POINTS = 600"

record metric_point =
  pt_ts :: u64
  total_tx :: u64
  total_rx :: u64
  total_conns :: u32
  active_clients :: u32
  active_services :: u32
  bandwidth_tx :: u64
  bandwidth_rx :: u64

record service_metric_point =
  sp_ts :: u64
  sp_conns :: u32
  sp_tx :: u64
  sp_rx :: u64
  sp_bw_tx :: u64
  sp_bw_rx :: u64

record collector =
  history :: "metric_point list"
  service_history :: "(string \<times> service_metric_point list) list"
  last_total_tx :: u64
  last_total_rx :: u64
  last_collect :: nat

definition new_collector :: "nat \<Rightarrow> collector" where
  "new_collector now = \<lparr>history = [], service_history = [], last_total_tx = 0, last_total_rx = 0, last_collect = now\<rparr>"

text \<open>What a round sees: the registry, the clock of the system, and the monotonic clock, which is read once for the
  elapsed time and once for the next round.\<close>

record 's sample =
  smp_registry :: "'s registry"
  smp_unix :: u64
  smp_measured :: nat
  smp_noted :: nat

type_synonym rate = "u64 \<Rightarrow> nat \<Rightarrow> u64"
type_synonym service_datum = "u32 \<times> u64 \<times> u64"

definition saturating_sub :: "u64 \<Rightarrow> u64 \<Rightarrow> u64" where
  "saturating_sub a b = (if b \<le> a then a - b else 0)"

definition service_data :: "'s registry \<Rightarrow> (string \<times> service_datum) list" where
  "service_data r = map (\<lambda>i. let e = store r ! i
     in (svc_name (config e), of_nat (current_conns e), traffic_tx e, traffic_rx e)) (get_all_services r)"

definition elapsed :: "nat \<Rightarrow> 's sample \<Rightarrow> nat" where
  "elapsed since s = max (smp_measured s - since) (secs 1 div 10)"

text \<open>The point of the whole server. The sums wrap.\<close>

definition metric_point_of :: "rate \<Rightarrow> nat \<Rightarrow> u64 \<Rightarrow> u64 \<Rightarrow> 's sample \<Rightarrow> metric_point" where
  "metric_point_of rate since prev_tx prev_rx s =
     (let ds = service_data (smp_registry s);
          tx = sum_list (map (\<lambda>(_, _, t, _). t) ds); rx = sum_list (map (\<lambda>(_, _, _, x). x) ds)
      in \<lparr>pt_ts = smp_unix s, total_tx = tx, total_rx = rx,
          total_conns = sum_list (map (\<lambda>(_, c, _, _). c) ds),
          active_clients = of_nat (length (get_clients (smp_registry s))),
          active_services = of_nat (length (get_all_services (smp_registry s))),
          bandwidth_tx = rate (saturating_sub tx prev_tx) (elapsed since s),
          bandwidth_rx = rate (saturating_sub rx prev_rx) (elapsed since s)\<rparr>)"

definition queue_back :: "'a list \<Rightarrow> 'a option" where
  "queue_back xs = (if xs = [] then None else Some (last xs))"

definition service_point :: "rate \<Rightarrow> nat \<Rightarrow> u64 \<Rightarrow> service_metric_point option \<Rightarrow> service_datum \<Rightarrow> service_metric_point" where
  "service_point rate el ts prev d =
     (case d of (conns, tx, rx) \<Rightarrow>
        let bw = (case prev of
                    Some p \<Rightarrow> (rate (saturating_sub tx (sp_tx p)) el, rate (saturating_sub rx (sp_rx p)) el)
                  | None \<Rightarrow> (0, 0))
        in \<lparr>sp_ts = ts, sp_conns = conns, sp_tx = tx, sp_rx = rx, sp_bw_tx = fst bw, sp_bw_rx = snd bw\<rparr>)"

fun note_service ::
  "rate \<Rightarrow> nat \<Rightarrow> u64 \<Rightarrow> string \<times> service_datum \<Rightarrow> (string \<times> service_metric_point list) list
    \<Rightarrow> (string \<times> service_metric_point list) list" where
  "note_service rate el ts (n, d) [] = [(n, [service_point rate el ts None d])]"
| "note_service rate el ts (n, d) ((n', q) # h) =
     (if n' = n then (n', append_then_pop MAX_HISTORY_POINTS (service_point rate el ts (queue_back q) d) q) # h
      else (n', q) # note_service rate el ts (n, d) h)"

definition collect :: "rate \<Rightarrow> 's sample \<Rightarrow> collector \<Rightarrow> collector" where
  "collect rate s c =
     (let p = metric_point_of rate (last_collect c) (last_total_tx c) (last_total_rx c) s;
          el = elapsed (last_collect c) s; ds = service_data (smp_registry s);
          h = fold (note_service rate el (smp_unix s)) ds (service_history c)
      in \<lparr>history = append_then_pop MAX_HISTORY_POINTS p (history c),
          service_history = filter (\<lambda>(n, _). n \<in> set (map fst ds)) h,
          last_total_tx = total_tx p, last_total_rx = total_rx p, last_collect = smp_noted s\<rparr>)"

text \<open>The last points, in the order of time.\<close>

definition limited :: "nat option \<Rightarrow> 'a list \<Rightarrow> 'a list" where
  "limited limit q =
     (let n = min (case limit of None \<Rightarrow> length q | Some k \<Rightarrow> k) (length q) in rev (take n (rev q)))"

definition get_history :: "nat option \<Rightarrow> collector \<Rightarrow> metric_point list" where
  "get_history limit c = limited limit (history c)"

definition get_service_history :: "string \<Rightarrow> nat option \<Rightarrow> collector \<Rightarrow> service_metric_point list" where
  "get_service_history name limit c =
     (case find (\<lambda>(n, _). n = name) (service_history c) of
        Some (_, q) \<Rightarrow> limited limit q
      | None \<Rightarrow> [])"

text \<open>The collector's loop.\<close>

definition start_collector :: "rate \<Rightarrow> 's sample list \<Rightarrow> collector \<Rightarrow> collector" where
  "start_collector rate ss c = fold (collect rate) ss c"

section \<open>The histories as bounded logs\<close>

interpretation hist: bounded_log MAX_HISTORY_POINTS "append_then_pop MAX_HISTORY_POINTS"
  by (rule append_then_pop_log) (simp add: MAX_HISTORY_POINTS_def)

definition visible :: "nat option \<Rightarrow> nat" where
  "visible limit = (case limit of None \<Rightarrow> MAX_HISTORY_POINTS | Some k \<Rightarrow> min k MAX_HISTORY_POINTS)"

lemma limited_eq: "limited limit q = (case limit of None \<Rightarrow> q | Some k \<Rightarrow> last_n k q)"
  by (cases limit) (auto simp: limited_def last_n_rev_take Let_def min_def)

lemma limited_last_n: "limited limit (last_n MAX_HISTORY_POINTS xs) = last_n (visible limit) xs"
  by (cases limit) (simp_all add: limited_eq visible_def)

text \<open>All points that were ever recorded.\<close>

fun points :: "rate \<Rightarrow> nat \<Rightarrow> u64 \<Rightarrow> u64 \<Rightarrow> 's sample list \<Rightarrow> metric_point list" where
  "points rate since tx rx [] = []"
| "points rate since tx rx (s # ss) =
     (let p = metric_point_of rate since tx rx s
      in p # points rate (smp_noted s) (total_tx p) (total_rx p) ss)"

lemma history_pushes:
  "history (start_collector rate ss c) =
     fold (append_then_pop MAX_HISTORY_POINTS) (points rate (last_collect c) (last_total_tx c) (last_total_rx c) ss) (history c)"
  unfolding start_collector_def by (induction ss arbitrary: c) (simp_all add: collect_def Let_def)

text \<open>The points of a service since it was last missing.\<close>

fun service_points ::
  "rate \<Rightarrow> string \<Rightarrow> nat \<Rightarrow> service_metric_point list \<Rightarrow> 's sample list \<Rightarrow> service_metric_point list" where
  "service_points rate n since acc [] = acc"
| "service_points rate n since acc (s # ss) =
     service_points rate n (smp_noted s)
       (case map_of (service_data (smp_registry s)) n of
          None \<Rightarrow> []
        | Some d \<Rightarrow> acc @ [service_point rate (elapsed since s) (smp_unix s) (queue_back acc) d]) ss"

definition queue_of :: "string \<Rightarrow> (string \<times> 'a list) list \<Rightarrow> 'a list" where
  "queue_of n h = (case map_of h n of None \<Rightarrow> [] | Some q \<Rightarrow> q)"

lemma get_service_history_queue: "get_service_history n limit c = limited limit (queue_of n (service_history c))"
proof -
  have "find (\<lambda>(m, _). m = n) h = map_option (Pair n) (map_of h n)" for h :: "(string \<times> service_metric_point list) list"
    by (induction h) auto
  then show ?thesis by (simp add: get_service_history_def queue_of_def limited_def split: option.split)
qed

lemma map_of_note_service:
  "map_of (note_service rate el ts (n, d) h) m =
     (if m = n then Some (append_then_pop MAX_HISTORY_POINTS (service_point rate el ts (queue_back (queue_of n h)) d) (queue_of n h))
      else map_of h m)"
  by (induction rate el ts "(n, d)" h rule: note_service.induct)
    (auto simp: queue_of_def queue_back_def append_then_pop_def MAX_HISTORY_POINTS_def)

lemma map_of_note_services:
  assumes "distinct (map fst ds)"
  shows "map_of (fold (note_service rate el ts) ds h) m =
     (case map_of ds m of
        None \<Rightarrow> map_of h m
      | Some d \<Rightarrow> Some (append_then_pop MAX_HISTORY_POINTS (service_point rate el ts (queue_back (queue_of m h)) d) (queue_of m h)))"
  using assms
proof (induction ds arbitrary: h)
  case (Cons nd ds)
  obtain n d where nd: "nd = (n, d)" by (cases nd)
  with Cons.prems have "map_of ds n = None" by (simp add: map_of_eq_None_iff)
  with Cons nd show ?case by (auto simp: map_of_note_service queue_of_def split: option.split)
qed simp

lemma map_of_filter_keys: "map_of (filter (\<lambda>(n, _). n \<in> A) h) m = (if m \<in> A then map_of h m else None)"
  by (induction h) auto

lemma collect_queue:
  assumes "distinct (map fst (service_data (smp_registry s)))"
  shows "queue_of m (service_history (collect rate s c)) =
    (case map_of (service_data (smp_registry s)) m of
       None \<Rightarrow> []
     | Some d \<Rightarrow> append_then_pop MAX_HISTORY_POINTS
         (service_point rate (elapsed (last_collect c) s) (smp_unix s) (queue_back (queue_of m (service_history c))) d)
         (queue_of m (service_history c)))"
proof -
  have "m \<in> set (map fst ds) \<longleftrightarrow> map_of ds m \<noteq> None" for ds :: "(string \<times> service_datum) list"
    by (metis map_of_eq_None_iff set_map)
  then show ?thesis
    by (simp add: collect_def Let_def queue_of_def map_of_filter_keys map_of_note_services[OF assms] del: set_map split: option.split)
qed

lemma queue_back_last_n: "queue_back (last_n MAX_HISTORY_POINTS xs) = queue_back xs"
  by (cases xs rule: rev_cases) (simp_all add: queue_back_def last_n_append MAX_HISTORY_POINTS_def)

lemma service_queue:
  assumes "\<forall>s \<in> set ss. distinct (map fst (service_data (smp_registry s)))"
    and "queue_of n (service_history c) = last_n MAX_HISTORY_POINTS acc"
  shows "queue_of n (service_history (start_collector rate ss c)) =
    last_n MAX_HISTORY_POINTS (service_points rate n (last_collect c) acc ss)"
  using assms unfolding start_collector_def
proof (induction ss arbitrary: c acc)
  case (Cons s ss)
  let ?acc = "case map_of (service_data (smp_registry s)) n of None \<Rightarrow> []
      | Some d \<Rightarrow> acc @ [service_point rate (elapsed (last_collect c) s) (smp_unix s) (queue_back acc) d]"
  have "queue_of n (service_history (collect rate s c)) = last_n MAX_HISTORY_POINTS ?acc"
    using Cons.prems by (simp add: collect_queue queue_back_last_n hist.push_abstract split: option.split)
  from Cons.IH[OF _ this] Cons.prems(1) show ?case by (simp add: collect_def Let_def)
qed simp

lemma service_data_names:
  assumes "registry_wf r"
  shows "map fst (service_data r) = map fst (services_by_name r)"
proof -
  have "svc_name (config (store r ! i)) = n" if "(n, i) \<in> set (services_by_name r)" for n i
  proof -
    have "hm_get (services_by_name r) n = Some i"
      using assms that by (simp add: registry_wf_def maps_wf_def hm_wf_def hm_get_def)
    with assms show ?thesis by (auto simp: registry_wf_def names_refer_def)
  qed
  then show ?thesis by (auto simp: service_data_def get_all_services_def Let_def)
qed

text \<open>\<^bold>\<open>C27\<close>: the histories are the last points. However many rounds the collector makes, what it returns for the
  server is the end of the list of all points it ever recorded, and for a service the end of the list of its points
  since it was last missing, each point with the traffic since the one before. A caller gets as many as it asks for, at
  most 600: the bounded queues implement unbounded lists.\<close>

theorem metrics_are_last_points:
  fixes ss :: "'s sample list"
  assumes "\<forall>s \<in> set ss. registry_reachable P (new_with_network_policy pmin pmax q b priv prot res) (smp_registry s)"
    and "c = start_collector rate ss (new_collector t0)"
  shows "get_history limit c = last_n (visible limit) (points rate t0 0 0 ss)
    \<and> get_service_history n limit c = last_n (visible limit) (service_points rate n t0 [] ss)"
proof
  show "get_history limit c = last_n (visible limit) (points rate t0 0 0 ss)"
    by (simp add: assms(2) get_history_def history_pushes new_collector_def hist.pushes[of _ "[]", simplified] limited_last_n)
  have "distinct (map fst (service_data (smp_registry s)))" if "s \<in> set ss" for s
  proof -
    have "registry_wf (smp_registry s)" using assms(1) that wf_reachable[OF _ wf_fresh] by blast
    then show ?thesis by (simp add: service_data_names registry_wf_def maps_wf_def hm_wf_def)
  qed
  then show "get_service_history n limit c = last_n (visible limit) (service_points rate n t0 [] ss)"
    using service_queue[of ss n "new_collector t0" "[]" rate]
    by (simp add: assms(2) get_service_history_queue new_collector_def queue_of_def limited_last_n)
qed

text \<open>Two rounds on a registry without services.\<close>

theorem metrics_are_last_points_witness:
  "map pt_ts (get_history (Some 1) (start_collector (\<lambda>_ _. 0)
     [\<lparr>smp_registry = demo, smp_unix = 7, smp_measured = 1, smp_noted = 2\<rparr>, \<lparr>smp_registry = demo, smp_unix = 8, smp_measured = 3, smp_noted = 4\<rparr>]
     (new_collector 0))) = [8]"
proof -
  let ?ss = "[\<lparr>smp_registry = demo, smp_unix = 7, smp_measured = 1, smp_noted = 2\<rparr>, \<lparr>smp_registry = demo, smp_unix = 8, smp_measured = 3, smp_noted = 4\<rparr>]"
  have reach: "\<forall>s \<in> set ?ss. registry_reachable (\<lambda>_. True) (new_with_network_policy 7712 7720 7713 [] False {22} {7710}) (smp_registry s)"
    using reach_init[of "\<lambda>_. True" demo] by (simp add: demo_def)
  from metrics_are_last_points[OF reach refl, of "Some 1" "\<lambda>_ _. 0" 0]
  show ?thesis by (simp add: Let_def metric_point_of_def visible_def last_n_def MAX_HISTORY_POINTS_def)
qed

end
