(* ===== verification/Web_Api.thy ===== *)
theory Web_Api
  imports Metrics
begin

text \<open>
  The server's web interface (\<^verbatim>\<open>cross233-server/src/web/api.rs\<close>, \<^verbatim>\<open>web/assets.rs\<close>). The HTTP framework is not
  modelled: a request comes with the route it matched, the parameters of its path, query and body, and the header
  fields that the code reads. A reply is its status, the session cookie it sets, and what its JSON is made from.
  Random ids and the clocks are arguments; what was sent on the broadcast channel is a list.
\<close>

section \<open>State\<close>

record log_entry =
  log_ts :: u64
  log_level :: string
  log_message :: string

record service_info =
  si_name :: string
  si_ty :: string
  si_local_addr :: string
  si_remote_port :: u16
  si_host :: "string option"
  si_subdomain :: "string option"
  si_healthy :: bool
  si_enabled :: bool
  si_current_conns :: nat
  si_traffic_tx :: u64
  si_traffic_rx :: u64
  si_client_id :: string
  si_uptime_secs :: nat
  si_group :: "string option"
  si_bandwidth_limit_kbps :: u64

record stats_snapshot =
  total_services :: nat
  st_total_tx :: u64
  st_total_rx :: u64
  st_total_conns :: nat
  total_clients :: nat

datatype server_event = ServiceUpdate "service_info list" | Stats stats_snapshot | LogEvent log_entry

record 's web_state =
  service_state :: "'s registry"
  web_config :: server_config
  sessions :: "(string, nat) hmap"
  logs :: "log_entry list"
  metrics :: collector
  event_tx :: "server_event list"

definition new_web_state :: "'s registry \<Rightarrow> server_config \<Rightarrow> collector \<Rightarrow> 's web_state" where
  "new_web_state r cfg m = \<lparr>service_state = r, web_config = cfg, sessions = [], logs = [], metrics = m, event_tx = []\<rparr>"

definition MAX_LOGS :: nat where "MAX_LOGS = 500"

definition send_event :: "server_event \<Rightarrow> 's web_state \<Rightarrow> 's web_state" where
  "send_event ev st = st\<lparr>event_tx := event_tx st @ [ev]\<rparr>"

definition add_log :: "u64 \<Rightarrow> string \<Rightarrow> string \<Rightarrow> 's web_state \<Rightarrow> 's web_state" where
  "add_log unix level msg st =
     (let e = \<lparr>log_ts = unix, log_level = level, log_message = msg\<rparr>
      in send_event (LogEvent e) (st\<lparr>logs := pop_then_append MAX_LOGS e (logs st)\<rparr>))"

definition service_info_of :: "nat \<Rightarrow> service_entry \<Rightarrow> service_info" where
  "service_info_of now e = \<lparr>si_name = svc_name (config e), si_ty = effective_type (config e), si_local_addr = local_addr (config e),
     si_remote_port = remote_port (config e), si_host = host (config e), si_subdomain = subdomain (config e),
     si_healthy = healthy e, si_enabled = enabled e, si_current_conns = current_conns e, si_traffic_tx = traffic_tx e,
     si_traffic_rx = traffic_rx e, si_client_id = entry_client_id e, si_uptime_secs = (now - started_at e) div secs 1,
     si_group = group (config e), si_bandwidth_limit_kbps = bandwidth_limit_kbps (config e)\<rparr>"

definition all_entries :: "'s registry \<Rightarrow> service_entry list" where
  "all_entries r = map (\<lambda>i. store r ! i) (get_all_services r)"

definition collect_services :: "nat \<Rightarrow> 's web_state \<Rightarrow> service_info list" where
  "collect_services now st = map (service_info_of now) (all_entries (service_state st))"

definition collect_stats :: "'s web_state \<Rightarrow> stats_snapshot" where
  "collect_stats st =
     (let es = all_entries (service_state st)
      in \<lparr>total_services = length es, st_total_tx = sum_list (map traffic_tx es), st_total_rx = sum_list (map traffic_rx es),
          st_total_conns = sum_list (map current_conns es), total_clients = length (get_clients (service_state st))\<rparr>)"

definition broadcast_services :: "nat \<Rightarrow> 's web_state \<Rightarrow> 's web_state" where
  "broadcast_services now st = send_event (ServiceUpdate (collect_services now st)) st"

definition broadcast_stats :: "'s web_state \<Rightarrow> 's web_state" where
  "broadcast_stats st = send_event (Stats (collect_stats st)) st"

definition SESSION_LIFETIME :: nat where "SESSION_LIFETIME = secs (24 * 3600)"

definition cleanup_sessions :: "nat \<Rightarrow> 's web_state \<Rightarrow> 's web_state" where
  "cleanup_sessions now st = st\<lparr>sessions := hm_retain (\<lambda>_ created. now - created < SESSION_LIFETIME) (sessions st)\<rparr>"

text \<open>One round of the broadcast loop, every two seconds.\<close>

definition broadcast_round :: "nat \<Rightarrow> 's web_state \<Rightarrow> 's web_state" where
  "broadcast_round now st = broadcast_stats (broadcast_services now st)"

section \<open>Requests\<close>

datatype web_route =
    Login string string
  | Healthz
  | Asset string
  | Services
  | ServiceDetail string
  | ServiceMetrics string "string option"
  | Toggle string "bool option"
  | Kick string
  | GetStats
  | MetricsHistory "string option"
  | Clients
  | Logs
  | Config
  | Reload
  | Ws
  | ApiStatus

fun public_route :: "web_route \<Rightarrow> bool" where
  "public_route (Login _ _) = True"
| "public_route Healthz = True"
| "public_route (Asset _) = True"
| "public_route _ = False"

text \<open>The header fields are there only when they are text.\<close>

record request =
  req_route :: web_route
  req_authorization :: "string option"
  req_query :: "string option"
  req_cookie :: "string option"

record client_detail =
  cd_id :: string
  cd_services :: "string list"
  cd_service_count :: nat
  cd_active_conns :: nat
  cd_services_detail :: "(string \<times> string \<times> u16 \<times> nat \<times> bool) list"

datatype cfg_value = CStr string | CNum nat | CBool bool | CNums "nat list"

datatype web_body =
    ErrorBody string
  | OkBody bool
  | ServicesBody "service_info list"
  | ServiceBody service_info
  | ServiceMetricsBody "service_metric_point list" string
  | StatsBody stats_snapshot
  | MetricsBody "metric_point list"
  | ClientsBody "client_detail list"
  | LogsBody "log_entry list"
  | ConfigBody "(string \<times> cfg_value) list"
  | StatusBody stats_snapshot
  | TextBody string
  | AssetBody string bytes
  | Upgrade

record response =
  resp_status :: nat
  resp_cookie :: "string option"
  resp_body :: web_body

definition ok_response :: "web_body \<Rightarrow> response" where
  "ok_response b = \<lparr>resp_status = 200, resp_cookie = None, resp_body = b\<rparr>"

definition web_error :: "nat \<Rightarrow> string \<Rightarrow> response" where
  "web_error status msg = \<lparr>resp_status = status, resp_cookie = None, resp_body = ErrorBody msg\<rparr>"

section \<open>Authentication\<close>

definition login :: "string \<Rightarrow> nat \<Rightarrow> string \<Rightarrow> string \<Rightarrow> 's web_state \<Rightarrow> response \<times> 's web_state" where
  "login token now user pass st =
     (let cfg = web_config st
      in if web_user cfg \<noteq> [] \<and> (user \<noteq> web_user cfg \<or> pass \<noteq> web_password cfg)
         then (web_error 401 ''invalid credentials'', st)
         else (\<lparr>resp_status = 200, resp_cookie = Some token, resp_body = OkBody True\<rparr>,
               st\<lparr>sessions := hm_insert token now (sessions st)\<rparr>))"

text \<open>The first parameter of this name decides.\<close>

fun token_param :: "string list \<Rightarrow> string option" where
  "token_param [] = None"
| "token_param (p # ps) = (case strip_prefix ''token='' p of Some rest \<Rightarrow> Some rest | None \<Rightarrow> token_param ps)"

definition query_token :: "request \<Rightarrow> string \<Rightarrow> bool" where
  "query_token req api_tok =
     (case req_query req of
        Some q \<Rightarrow> token_param (split_char (CHR ''&'') q) = Some api_tok
      | None \<Rightarrow> False)"

definition check_api_token :: "request \<Rightarrow> string \<Rightarrow> bool" where
  "check_api_token req api_tok =
     (if api_tok = [] then False
      else case req_authorization req of
             Some auth \<Rightarrow> (case strip_prefix ''Bearer '' auth of
                            Some token \<Rightarrow> token = api_tok
                          | None \<Rightarrow> query_token req api_tok)
           | None \<Rightarrow> query_token req api_tok)"

text \<open>The last cookie of this name counts.\<close>

definition session_token :: "request \<Rightarrow> string option" where
  "session_token req =
     fold (\<lambda>part acc. case strip_prefix ''session='' (trim part) of Some v \<Rightarrow> Some v | None \<Rightarrow> acc)
       (split_char (CHR '';'') (case req_cookie req of Some c \<Rightarrow> c | None \<Rightarrow> [])) None"

definition session_valid :: "nat \<Rightarrow> request \<Rightarrow> 's web_state \<Rightarrow> bool" where
  "session_valid now req st =
     (case session_token req of
        None \<Rightarrow> False
      | Some token \<Rightarrow> (case hm_get (sessions st) token of
                        Some created \<Rightarrow> now - created < SESSION_LIFETIME
                      | None \<Rightarrow> False))"

text \<open>Whether \<^verbatim>\<open>auth_middleware\<close> lets a request pass.\<close>

definition auth_passes :: "nat \<Rightarrow> request \<Rightarrow> 's web_state \<Rightarrow> bool" where
  "auth_passes now req st =
     (let cfg = web_config st
      in if api_token cfg \<noteq> [] \<and> check_api_token req (api_token cfg) then True
         else if web_user cfg = [] then True
         else session_valid now req st)"

section \<open>Handlers\<close>

definition get_service_detail :: "nat \<Rightarrow> string \<Rightarrow> 's web_state \<Rightarrow> response" where
  "get_service_detail now name st =
     (case get_service_by_name name (service_state st) of
        Some i \<Rightarrow> ok_response (ServiceBody (service_info_of now (store (service_state st) ! i)))
      | None \<Rightarrow> web_error 404 ''not found'')"

definition limit_param :: "string option \<Rightarrow> nat" where
  "limit_param q = (case q of
     None \<Rightarrow> 120
   | Some v \<Rightarrow> (case parse_uint 64 v of Some n \<Rightarrow> n | None \<Rightarrow> 120))"

definition toggle_handler :: "nat \<Rightarrow> string \<Rightarrow> bool option \<Rightarrow> 's web_state \<Rightarrow> response \<times> 's web_state" where
  "toggle_handler now name body st =
     (case toggle_service name (case body of Some b \<Rightarrow> b | None \<Rightarrow> True) (service_state st) of
        (ok, r) \<Rightarrow> (ok_response (OkBody ok), broadcast_services now (st\<lparr>service_state := r\<rparr>)))"

definition kick_client :: "nat \<Rightarrow> u64 \<Rightarrow> string \<Rightarrow> 's web_state \<Rightarrow> response \<times> 's web_state" where
  "kick_client now unix cid st =
     (let r = service_state st;
          r1 = (case hm_get (client_control_tx r) cid of
                  Some tx \<Rightarrow> snd (send_message tx (new_close ''kicked by admin'') r)
                | None \<Rightarrow> r);
          st1 = st\<lparr>service_state := unregister_client cid r1\<rparr>;
          st2 = add_log unix ''warn'' (''client '' @ cid @ '' kicked by admin'') st1
      in (ok_response (OkBody True), broadcast_services now st2))"

definition client_detail_of :: "service_entry list \<Rightarrow> string \<times> string list \<Rightarrow> client_detail" where
  "client_detail_of es c =
     (case c of (cid, names) \<Rightarrow>
        let own = filter (\<lambda>e. entry_client_id e = cid) es
        in \<lparr>cd_id = cid, cd_services = names, cd_service_count = length names,
            cd_active_conns = sum_list (map current_conns own),
            cd_services_detail = map (\<lambda>e. (svc_name (config e), effective_type (config e), remote_port (config e),
                                           current_conns e, healthy e)) own\<rparr>)"

definition get_clients_handler :: "'s web_state \<Rightarrow> response" where
  "get_clients_handler st =
     ok_response (ClientsBody (map (client_detail_of (all_entries (service_state st))) (get_clients (service_state st))))"

definition get_logs :: "nat \<Rightarrow> 's web_state \<Rightarrow> response \<times> 's web_state" where
  "get_logs now st = (let st1 = cleanup_sessions now st in (ok_response (LogsBody (logs st1)), st1))"

text \<open>The configuration as a JSON object.\<close>

definition config_value :: "server_config \<Rightarrow> (string \<times> cfg_value) list" where
  "config_value c = [(''bind'', CStr (bind c)), (''proxy_bind'', CStr (cfg_proxy_bind c)), (''auth_key'', CStr (auth_key c)),
     (''auth_key_file'', CStr (auth_key_file c)), (''cert_file'', CStr (cert_file c)), (''key_file'', CStr (key_file c)),
     (''control_port'', CNum (unat (control_port c))), (''web_port'', CNum (unat (web_port c))),
     (''http_vhost_port'', CNum (unat (http_vhost_port c))), (''https_vhost_port'', CNum (unat (https_vhost_port c))),
     (''tcpmux_port'', CNum (unat (tcpmux_port c))), (''qcp_port'', CNum (unat (cfg_qcp_port c))),
     (''qcp_tunnel_port'', CNum (unat (qcp_tunnel_port c))), (''subdomain_host'', CStr (subdomain_host c)),
     (''port_min'', CNum (unat (cfg_port_min c))), (''port_max'', CNum (unat (cfg_port_max c))),
     (''allow_privileged_ports'', CBool (cfg_allow_privileged_ports c)),
     (''protected_ports'', CNums (map unat (cfg_protected_ports c))),
     (''max_connections'', CNum (unat (cfg_max_connections c))), (''handshake_timeout'', CNum (unat (handshake_timeout c))),
     (''web_user'', CStr (web_user c)), (''web_password'', CStr (web_password c)), (''api_token'', CStr (api_token c))]"

definition get_config :: "'s web_state \<Rightarrow> response" where
  "get_config st =
     ok_response (ConfigBody (hm_remove ''api_token'' (hm_remove ''auth_key'' (config_value (web_config st)))))"

definition reload_config :: "'s web_state \<Rightarrow> response" where
  "reload_config st = ok_response (OkBody True)"

text \<open>Embedded files, by path, and the guess of their type are arguments; \<^verbatim>\<open>index.html\<close> stands in for paths that are
  no files.\<close>

definition static_handler :: "(string \<Rightarrow> bytes option) \<Rightarrow> (string \<Rightarrow> string) \<Rightarrow> string \<Rightarrow> response" where
  "static_handler assets mime uri_path =
     (let p0 = dropWhile (\<lambda>c. c = CHR ''/'') uri_path; p = (if p0 = [] then ''index.html'' else p0)
      in case assets p of
           Some data \<Rightarrow> ok_response (AssetBody (mime p) data)
         | None \<Rightarrow>
             if starts_with p ''api/'' then \<lparr>resp_status = 404, resp_cookie = None, resp_body = TextBody ''not found''\<rparr>
             else (case assets ''index.html'' of
                     Some index \<Rightarrow> ok_response (AssetBody ''text/html'' index)
                   | None \<Rightarrow> \<lparr>resp_status = 404, resp_cookie = None, resp_body = TextBody ''not found''\<rparr>))"

section \<open>The router\<close>

text \<open>What surrounds a request: the clocks, a random id, the embedded files.\<close>

record web_env =
  env_now :: nat
  env_unix :: u64
  env_token :: string
  env_assets :: "string \<Rightarrow> bytes option"
  env_mime :: "string \<Rightarrow> string"

fun handle_route :: "web_env \<Rightarrow> web_route \<Rightarrow> 's web_state \<Rightarrow> response \<times> 's web_state" where
  "handle_route env (Login user pass) st = login (env_token env) (env_now env) user pass st"
| "handle_route env Healthz st = (ok_response (TextBody ''ok''), st)"
| "handle_route env (Asset path) st = (static_handler (env_assets env) (env_mime env) path, st)"
| "handle_route env Services st = (ok_response (ServicesBody (collect_services (env_now env) st)), st)"
| "handle_route env (ServiceDetail name) st = (get_service_detail (env_now env) name st, st)"
| "handle_route env (ServiceMetrics name limit) st =
     (ok_response (ServiceMetricsBody (get_service_history name (Some (limit_param limit)) (metrics st)) name), st)"
| "handle_route env (Toggle name body) st = toggle_handler (env_now env) name body st"
| "handle_route env (Kick cid) st = kick_client (env_now env) (env_unix env) cid st"
| "handle_route env GetStats st = (ok_response (StatsBody (collect_stats st)), st)"
| "handle_route env (MetricsHistory limit) st =
     (ok_response (MetricsBody (get_history (Some (limit_param limit)) (metrics st))), st)"
| "handle_route env Clients st = (get_clients_handler st, st)"
| "handle_route env Logs st = get_logs (env_now env) st"
| "handle_route env Config st = (get_config st, st)"
| "handle_route env Reload st = (reload_config st, st)"
| "handle_route env Ws st = (\<lparr>resp_status = 101, resp_cookie = None, resp_body = Upgrade\<rparr>, st)"
| "handle_route env ApiStatus st = (ok_response (StatusBody (collect_stats st)), st)"

definition handle_request :: "web_env \<Rightarrow> request \<Rightarrow> 's web_state \<Rightarrow> response \<times> 's web_state" where
  "handle_request env req st =
     (if public_route (req_route req) \<or> auth_passes (env_now env) req st then handle_route env (req_route req) st
      else (web_error 401 ''authentication required'', st))"

section \<open>The event stream\<close>

text \<open>What the loop of a web socket waits for: an event, the news that the receiver has lagged behind, or something
  from the peer. The result is what is sent; \<open>io\<close> tells which sends succeed.\<close>

datatype ws_in = WsEvent server_event | WsLagged | WsClose | WsGone | WsPing bytes | WsOther
datatype ws_out = WsText server_event | WsPong bytes

fun handle_ws :: "(ws_out \<Rightarrow> bool) \<Rightarrow> ws_in list \<Rightarrow> ws_out list" where
  "handle_ws io [] = []"
| "handle_ws io (WsEvent ev # xs) = (if io (WsText ev) then WsText ev # handle_ws io xs else [])"
| "handle_ws io (WsLagged # xs) = []"
| "handle_ws io (WsClose # xs) = []"
| "handle_ws io (WsGone # xs) = []"
| "handle_ws io (WsPing p # xs) = (if io (WsPong p) then [WsPong p] else []) @ handle_ws io xs"
| "handle_ws io (WsOther # xs) = handle_ws io xs"

end
