(* ===== verification/Web_Theorems.thy ===== *)
theory Web_Theorems
  imports Web_Api
begin

text \<open>
  What the web interface guarantees: who gets in, what a request may change, and that the log and the stream of
  events agree.
\<close>

section \<open>Traces\<close>

text \<open>The requests so far; between them the broadcast loop runs, and the registry and the metrics change as they
  like.\<close>

inductive web_trace :: "'s web_state \<Rightarrow> (web_env \<times> request) list \<Rightarrow> 's web_state \<Rightarrow> bool" for st0 where
  trace_start: "web_trace st0 [] st0"
| trace_request: "web_trace st0 tr st \<Longrightarrow> web_trace st0 (tr @ [(env, req)]) (snd (handle_request env req st))"
| trace_broadcast: "web_trace st0 tr st \<Longrightarrow> web_trace st0 tr (broadcast_round now st)"
| trace_world: "web_trace st0 tr st \<Longrightarrow> web_trace st0 tr (st\<lparr>service_state := r, metrics := m\<rparr>)"

lemmas web_events = send_event_def broadcast_services_def broadcast_stats_def broadcast_round_def add_log_def

lemmas web_handlers = login_def toggle_handler_def kick_client_def get_logs_def cleanup_sessions_def

lemma handle_route_config: "web_config (snd (handle_route env rt st)) = web_config st"
  by (cases rt) (simp_all add: web_handlers web_events Let_def split: prod.split)

lemma trace_config: "web_trace st0 tr st \<Longrightarrow> web_config st = web_config st0"
  by (induction rule: web_trace.induct) (simp_all add: handle_request_def handle_route_config web_events Let_def)

text \<open>Only a login adds a session, and only the log page removes some.\<close>

lemma handle_route_sessions:
  "sessions (snd (handle_route env rt st)) =
    (case rt of
       Login u p \<Rightarrow> if web_user (web_config st) \<noteq> [] \<and> (u \<noteq> web_user (web_config st) \<or> p \<noteq> web_password (web_config st))
                   then sessions st else hm_insert (env_token env) (env_now env) (sessions st)
     | Logs \<Rightarrow> hm_retain (\<lambda>_ created. env_now env - created < SESSION_LIFETIME) (sessions st)
     | _ \<Rightarrow> sessions st)"
  by (cases rt) (simp_all add: web_handlers web_events Let_def split: prod.split)

text \<open>A session was issued by a login with valid credentials.\<close>

definition session_issued :: "server_config \<Rightarrow> (web_env \<times> request) list \<Rightarrow> string \<Rightarrow> nat \<Rightarrow> bool" where
  "session_issued cfg tr token created \<longleftrightarrow> (\<exists>env req u p. (env, req) \<in> set tr \<and> req_route req = Login u p
     \<and> env_token env = token \<and> env_now env = created \<and> (web_user cfg = [] \<or> u = web_user cfg \<and> p = web_password cfg))"

lemma session_issued_more: "session_issued cfg tr token created \<Longrightarrow> session_issued cfg (tr @ tr') token created"
  unfolding session_issued_def by force

lemma session_issued_last:
  "req_route req = Login u p \<Longrightarrow> web_user cfg = [] \<or> u = web_user cfg \<and> p = web_password cfg
   \<Longrightarrow> session_issued cfg (tr @ [(env, req)]) (env_token env) (env_now env)"
  unfolding session_issued_def by force

definition sessions_ok :: "server_config \<Rightarrow> (web_env \<times> request) list \<Rightarrow> (string, nat) hmap \<Rightarrow> bool" where
  "sessions_ok cfg tr ss \<longleftrightarrow> hm_wf ss \<and> (\<forall>token created. hm_get ss token = Some created \<longrightarrow> session_issued cfg tr token created)"

lemma sessions_ok_route:
  assumes "sessions_ok cfg tr (sessions st)" "web_config st = cfg"
  shows "sessions_ok cfg (tr @ [(env, req)]) (sessions (snd (handle_route env (req_route req) st)))"
proof (cases "req_route req")
  case (Login u p)
  have "session_issued cfg (tr @ [(env, req)]) (env_token env) (env_now env)"
    if "web_user cfg = [] \<or> u = web_user cfg \<and> p = web_password cfg" by (rule session_issued_last[OF Login that])
  with assms Login session_issued_more show ?thesis
    unfolding handle_route_sessions by (auto simp: sessions_ok_def)
qed (use assms session_issued_more in \<open>unfold handle_route_sessions, auto simp: sessions_ok_def hm_get_retain split: option.splits if_splits\<close>)

lemma trace_sessions:
  assumes "web_trace (new_web_state r cfg m) tr st"
  shows "sessions_ok cfg tr (sessions st)"
  using assms
proof (induction rule: web_trace.induct)
  case trace_start
  show ?case by (simp add: sessions_ok_def new_web_state_def)
next
  case (trace_request tr st env req)
  have "web_config st = cfg" using trace_config[OF trace_request(1)] by (simp add: new_web_state_def)
  with sessions_ok_route[OF trace_request(2) this] trace_request(2) session_issued_more show ?case
    by (auto simp: handle_request_def sessions_ok_def)
qed (simp_all add: web_events Let_def)


text \<open>The requests of the witness: a login, then the list of services.\<close>

definition demo_env :: "nat \<Rightarrow> web_env" where
  "demo_env now = \<lparr>env_now = now, env_unix = 0, env_token = ''t0k'', env_assets = (\<lambda>_. None), env_mime = (\<lambda>_. [])\<rparr>"

definition demo_request :: "web_route \<Rightarrow> string option \<Rightarrow> request" where
  "demo_request rt cookie = \<lparr>req_route = rt, req_authorization = None, req_query = None, req_cookie = cookie\<rparr>"

definition demo_web :: "nat web_state" where
  "demo_web = new_web_state demo (default_config\<lparr>web_user := ''u'', web_password := ''p''\<rparr>) (new_collector 0)"

lemma demo_login:
  "web_trace demo_web [(demo_env 5, demo_request (Login ''u'' ''p'') None)]
     (snd (handle_request (demo_env 5) (demo_request (Login ''u'' ''p'') None) demo_web))"
  using trace_request[OF trace_start] by simp


section \<open>What is shown\<close>

text \<open>The configuration page leaves out the key of the clients and the API token, but not the password of the web
  interface: whoever has the API token, or is let in because no user is configured, reads it.\<close>

theorem config_page_shows_password:
  assumes "handle_request env req st = (resp, st')" "req_route req = Config" "auth_passes (env_now env) req st"
  shows "\<exists>vs. resp_body resp = ConfigBody vs \<and> hm_get vs ''auth_key'' = None \<and> hm_get vs ''api_token'' = None
    \<and> hm_get vs ''web_password'' = Some (CStr (web_password (web_config st)))"
proof -
  have "resp = get_config st" using assms by (auto simp: handle_request_def)
  then show ?thesis by (simp add: get_config_def ok_response_def) (simp add: hm_get_def config_value_def)
qed

section \<open>Removing a client\<close>

text \<open>What the web interface does to the registry is what the registry's own operations do.\<close>

lemma web_reachable:
  assumes "registry_reachable P r0 (service_state st)"
  shows "registry_reachable P r0 (service_state (snd (handle_request env req st)))"
proof -
  have kick: "registry_reachable P r0 (unregister_client cid (snd (send_message tx msg (service_state st))))" for cid tx msg
    by (rule reach_next[OF reach_next[OF assms step_send] step_unregister])
  have gone: "registry_reachable P r0 (unregister_client cid (service_state st))" for cid
    by (rule reach_next[OF assms step_unregister])
  have toggle: "registry_reachable P r0 (snd (toggle_service n b (service_state st)))" for n b
    by (rule reach_next[OF assms step_toggle])
  have "registry_reachable P r0 (service_state (snd (handle_route env rt st)))" for rt
    using assms kick gone toggle
    by (cases rt) (auto simp: web_handlers web_events Let_def split: prod.split option.split, (metis snd_conv)+)
  with assms show ?thesis by (simp add: handle_request_def)
qed

lemma sent_stop_listener: "sent_messages (stop_listener p n r) = sent_messages r"
  by (simp add: stop_listener_def split: option.split)

lemma sent_remove_names: "remove_names ns r = (ls, r') \<Longrightarrow> sent_messages r' = sent_messages r"
proof (induction ns arbitrary: ls r)
  case (Cons n ns)
  have "sent_messages (snd (remove_service n r)) = sent_messages r"
    by (simp add: remove_service_def leave_group_def Let_def split: option.split)
  with Cons show ?case by (auto split: prod.splits)
qed simp

lemma sent_unregister: "sent_messages (unregister_client cid r) = sent_messages r"
proof -
  have "sent_messages (fold (\<lambda>(p, n). stop_listener p n) ls r) = sent_messages r" for ls and r :: "'a registry"
    by (induction ls arbitrary: r) (auto simp: sent_stop_listener)
  then show ?thesis
    by (auto simp: unregister_client_def remove_client_services_def Let_def split: prod.split dest: sent_remove_names)
qed

lemma unregister_effect:
  assumes "registry_ok r"
  shows "entry_at (unregister_client cid r) n =
      (case entry_at r n of None \<Rightarrow> None | Some e \<Rightarrow> if entry_client_id e = cid then None else Some e)"
    "client_control_tx (unregister_client cid r) = hm_remove cid (client_control_tx r)"
    "names_of (unregister_client cid r) cid = []"
proof -
  have ok: "registry_ok (r\<lparr>client_control_tx := hm_remove cid (client_control_tx r)\<rparr>)"
    using assms by (simp add: unregister_client_start)
  show "entry_at (unregister_client cid r) n =
      (case entry_at r n of None \<Rightarrow> None | Some e \<Rightarrow> if entry_client_id e = cid then None else Some e)"
    unfolding unregister_client_def entry_at_remove_client[OF ok] by (simp add: entry_at_def)
qed (simp_all add: unregister_client_def remove_client_services_effect)

text \<open>A client that an administrator removes is gone. After the request its services and its control
  channel are out of the registry, its session has been told to close unless it was dead already, the services of all other clients
  are as before, and the removal is the newest entry of the log.\<close>

theorem kick_removes_client:
  fixes st :: "'s web_state"
  assumes "registry_reachable P (new_with_network_policy pmin pmax q b priv prot res) (service_state st)"
    and "req_route req = Kick cid" "auth_passes (env_now env) req st" "handle_request env req st = (resp, st')"
  shows "resp = ok_response (OkBody True)
    \<and> (\<forall>n. entry_at (service_state st') n = (case entry_at (service_state st) n of None \<Rightarrow> None
          | Some e \<Rightarrow> if entry_client_id e = cid then None else Some e))
    \<and> hm_get (client_control_tx (service_state st')) cid = None
    \<and> sent_messages (service_state st') = sent_messages (service_state st)
        @ (case hm_get (client_control_tx (service_state st)) cid of
             Some tx \<Rightarrow> if tx \<in> dead_channels (service_state st) then [] else [(tx, new_close ''kicked by admin'')]
           | None \<Rightarrow> [])
    \<and> logs st' \<noteq> [] \<and> log_message (last (logs st')) = ''client '' @ cid @ '' kicked by admin''"
proof -
  let ?r = "service_state st"
  define r1 where "r1 = (case hm_get (client_control_tx ?r) cid of
      Some tx \<Rightarrow> snd (send_message tx (new_close ''kicked by admin'') ?r) | None \<Rightarrow> ?r)"
  have st': "resp = ok_response (OkBody True)" "service_state st' = unregister_client cid r1"
    "logs st' = pop_then_append MAX_LOGS \<lparr>log_ts = env_unix env, log_level = ''warn'', log_message = ''client '' @ cid @ '' kicked by admin''\<rparr> (logs st)"
    using assms(2-4) by (auto simp: handle_request_def kick_client_def web_events Let_def r1_def)
  have "registry_ok ?r" using registry_ok_reachable[OF assms(1)] by (simp add: fresh_registry)
  moreover have "inert r1 ?r" by (simp add: r1_def inert_send_message split: option.split)
  ultimately have ok: "registry_ok r1" by (rule inert_registry_ok[rotated])
  have same: "entry_at r1 n = entry_at ?r n" "client_control_tx r1 = client_control_tx ?r" for n
    by (simp_all add: r1_def entry_at_def send_message_def split: option.split)
  have "sent_messages r1 = sent_messages ?r @ (case hm_get (client_control_tx ?r) cid of
             Some tx \<Rightarrow> if tx \<in> dead_channels ?r then [] else [(tx, new_close ''kicked by admin'')] | None \<Rightarrow> [])"
    by (simp add: r1_def send_message_def split: option.split)
  with st' show ?thesis
    by (simp add: unregister_effect[OF ok] same sent_unregister) (simp add: pop_then_append_def)
qed

theorem kick_removes_client_witness:
  "\<exists>(st :: nat web_state) st'. entry_at (service_state st) ''a'' \<noteq> None
     \<and> st' = snd (handle_request (demo_env 9) (demo_request (Kick ''c'') None) st)
     \<and> entry_at (service_state st') ''a'' = None \<and> sent_messages (service_state st') = [(1, new_close ''kicked by admin'')]"
proof -
  let ?s = "default_service\<lparr>svc_name := ''a'', svc_ty := Some ''http''\<rparr>"
  define r where "r = snd (register_services 0 ''c'' 1 [?s] demo)"
  define st where "st = new_web_state r default_config (new_collector 0)"
  obtain as where "register_services 0 ''c'' 1 [?s] demo = (as, r)" by (metis r_def prod.collapse)
  then have "registry_reachable (\<lambda>_. True) demo r" by (intro reach_next[OF reach_init] step_register) auto
  then have reach: "registry_reachable (\<lambda>_. True) (new_with_network_policy 7712 7720 7713 [] False {22} {7710}) (service_state st)"
    by (simp add: st_def new_web_state_def demo_def)
  have at: "map_option entry_client_id (entry_at r ''a'') = Some ''c''" "hm_get (client_control_tx r) ''c'' = Some 1"
    "sent_messages r = []" "\<not> 1 \<in> dead_channels r"
    unfolding r_def by code_simp+
  have auth: "auth_passes (env_now (demo_env 9)) (demo_request (Kick ''c'') None) st"
    by (simp add: auth_passes_def st_def new_web_state_def default_config_def)
  obtain resp st' where h: "handle_request (demo_env 9) (demo_request (Kick ''c'') None) st = (resp, st')" by fastforce
  from kick_removes_client[OF reach _ auth h] at
  have "entry_at (service_state st') ''a'' = None \<and> sent_messages (service_state st') = [(1, new_close ''kicked by admin'')]"
    by (auto simp: demo_request_def st_def new_web_state_def split: option.splits)
  with at h show ?thesis by (intro exI[of _ st] exI[of _ st']) (auto simp: st_def new_web_state_def)
qed

section \<open>The log and the stream of events\<close>

interpretation weblog: bounded_log MAX_LOGS "pop_then_append MAX_LOGS"
  by (rule pop_then_append_log) (simp add: MAX_LOGS_def)

definition log_events :: "server_event list \<Rightarrow> log_entry list" where
  "log_events evs = concat (map (\<lambda>ev. case ev of LogEvent e \<Rightarrow> [e] | _ \<Rightarrow> []) evs)"

lemma log_events_simps [simp]:
  "log_events [] = []" "log_events (a @ b) = log_events a @ log_events b" "log_events (LogEvent e # xs) = e # log_events xs"
  "log_events (ServiceUpdate is # xs) = log_events xs" "log_events (Stats s # xs) = log_events xs"
  by (simp_all add: log_events_def)

lemma logs_route:
  assumes "logs st = last_n MAX_LOGS (log_events (event_tx st))"
  shows "logs (snd (handle_route env rt st)) = last_n MAX_LOGS (log_events (event_tx (snd (handle_route env rt st))))"
  using assms by (cases rt) (auto simp: web_handlers web_events Let_def weblog.push_abstract split: prod.split)

text \<open>The log page and the event stream agree. Whatever requests are served, the page shows the last 500 of the
  log entries that were sent to the subscribers of the event stream, in the same order.\<close>

theorem logs_match_events:
  fixes r :: "'s registry"
  assumes "web_trace (new_web_state r cfg m) tr st"
  shows "logs st = last_n 500 (log_events (event_tx st))"
proof -
  from assms have "logs st = last_n MAX_LOGS (log_events (event_tx st))"
  proof (induction rule: web_trace.induct)
    case (trace_request tr st env req)
    then show ?case by (simp add: handle_request_def logs_route)
  qed (simp_all add: new_web_state_def web_events)
  then show ?thesis by (simp add: MAX_LOGS_def)
qed

text \<open>A subscriber gets a beginning of the events.\<close>

fun ws_events :: "ws_in list \<Rightarrow> server_event list" where
  "ws_events [] = []"
| "ws_events (WsEvent ev # xs) = ev # ws_events xs"
| "ws_events (_ # xs) = ws_events xs"

lemma handle_ws_prefix:
  "\<exists>k. concat (map (\<lambda>x. case x of WsText ev \<Rightarrow> [ev] | WsPong _ \<Rightarrow> []) (handle_ws io xs)) = take k (ws_events xs)"
proof (induction io xs rule: handle_ws.induct)
  case (2 io ev xs)
  then show ?case by (metis (no_types, lifting) handle_ws.simps(2) list.simps(8,9) concat.simps append_Cons append_Nil
        take0 take_Suc_Cons ws_events.simps(2) ws_out.simps(5))
qed (auto intro: exI[of _ 0])

theorem logs_match_events_witness:
  "logs (snd (handle_request (demo_env 9) (demo_request (Kick ''c'') None)
      (new_web_state demo default_config (new_collector 0))))
   = [\<lparr>log_ts = 0, log_level = ''warn'', log_message = ''client c kicked by admin''\<rparr>]"
proof -
  let ?st = "new_web_state demo default_config (new_collector 0)"
  let ?st' = "snd (handle_request (demo_env 9) (demo_request (Kick ''c'') None) ?st)"
  have "web_trace ?st [(demo_env 9, demo_request (Kick ''c'') None)] ?st'"
    using trace_request[OF trace_start] by simp
  from logs_match_events[OF this] have "logs ?st' = last_n 500 (log_events (event_tx ?st'))" .
  moreover have "log_events (event_tx ?st') = [\<lparr>log_ts = 0, log_level = ''warn'', log_message = ''client c kicked by admin''\<rparr>]"
    by (simp add: handle_request_def demo_request_def demo_env_def auth_passes_def new_web_state_def default_config_def
        kick_client_def web_events Let_def)
  ultimately show ?thesis by simp
qed

end
