(* ===== verification/Client_Config.thy ===== *)
theory Client_Config
  imports Client_Tasks
begin

text \<open>
  The client's configuration (\<^verbatim>\<open>cross233-client/src/config.rs\<close>, \<^verbatim>\<open>config_reload.rs\<close> and the options of \<^verbatim>\<open>main.rs\<close>): reading a
  file with its key and its includes, the services of the command line, and the watch for changes. The libraries for TOML,
  YAML and JSON, the matching of file patterns and the hash function are arguments, as are the contents of the
  file system. Paths are those of Unix; their strings are UTF-8.
\<close>

section \<open>Data\<close>

record client_config =
  cc_server :: string
  cc_server_name :: string
  cc_auth_key :: string
  cc_auth_key_file :: string
  cc_key_file :: string
  cc_ca_file :: string
  cc_insecure :: bool
  cc_client_id :: string
  cc_max_tunnels :: u32
  cc_qcp_port :: u16
  cc_qcp_tunnel_port :: u16
  cc_transport :: string
  cc_transport_cache_file :: string
  cc_transport_cache_ttl_secs :: u64
  cc_transport_probe_timeout_ms :: u64
  cc_web_addr :: string
  cc_reload_interval :: u32
  cc_includes :: "string list"
  cc_services :: "service list"
  cc_visitors :: "visitor_config list"

definition default_transport_cache_file :: string where
  "default_transport_cache_file = ''.cross233/transport-cache.json''"

text \<open>The name of the computer, from one of two variables of the environment, or random.\<close>

definition default_client_id :: "string option \<Rightarrow> string option \<Rightarrow> string \<Rightarrow> string" where
  "default_client_id computername hostname random_id =
     (case computername of
        Some n \<Rightarrow> n
      | None \<Rightarrow> (case hostname of Some n \<Rightarrow> n | None \<Rightarrow> ''client-'' @ take 8 random_id))"

definition default_client_config :: "string \<Rightarrow> client_config" where
  "default_client_config client_id = \<lparr>cc_server = ''x.x.x.x:7710'', cc_server_name = ''cross233'', cc_auth_key = [],
     cc_auth_key_file = [], cc_key_file = [], cc_ca_file = [], cc_insecure = False, cc_client_id = client_id,
     cc_max_tunnels = 64, cc_qcp_port = 7713, cc_qcp_tunnel_port = 7714, cc_transport = ''tcp'',
     cc_transport_cache_file = default_transport_cache_file, cc_transport_cache_ttl_secs = 86400,
     cc_transport_probe_timeout_ms = 6000, cc_web_addr = ''127.0.0.1:7721'', cc_reload_interval = 0,
     cc_includes = [], cc_services = [], cc_visitors = []\<rparr>"

section \<open>Paths and files\<close>

definition is_absolute :: "string \<Rightarrow> bool" where
  "is_absolute p = starts_with p ''/''"

definition path_join :: "string \<Rightarrow> string \<Rightarrow> string" where
  "path_join base p =
     (if is_absolute p then p
      else if base = [] \<or> last base = CHR ''/'' then base @ p
      else base @ ''/'' @ p)"

text \<open>The parsers yield the configuration or fail. An include may also have no list of services (\<open>Some None\<close>); JSON includes are
  a list, or else an object with one.\<close>

record formats =
  toml_config :: "string \<Rightarrow> client_config option"
  yaml_config :: "string \<Rightarrow> client_config option"
  json_config :: "string \<Rightarrow> client_config option"
  toml_services :: "string \<Rightarrow> service list option option"
  yaml_services :: "string \<Rightarrow> service list option option"
  json_list :: "string \<Rightarrow> service list option"
  json_services :: "string \<Rightarrow> service list option"

text \<open>A pattern yields the paths that match it, some of which cannot be read as such, or is no pattern.\<close>

record files =
  read_to_string :: "string \<Rightarrow> string option"
  path_is_file :: "string \<Rightarrow> bool"
  extension :: "string \<Rightarrow> string option"
  parent :: "string \<Rightarrow> string option"
  glob :: "string \<Rightarrow> string option list option"
  current_dir :: "string option"

datatype load_error =
  ReadFailed string | ParseFailed | KeyUnreadable string | KeyEmpty string | BadPattern string | BadEntry
  | IncludeUnreadable string | IncludeInvalid string | NoCurrentDir

definition try_option :: "'e \<Rightarrow> 'a option \<Rightarrow> 'e + 'a" where
  "try_option e x = (case x of None \<Rightarrow> Inl e | Some v \<Rightarrow> Inr v)"

section \<open>Reading a configuration\<close>

definition parse_config :: "formats \<Rightarrow> string option \<Rightarrow> string \<Rightarrow> client_config option" where
  "parse_config fm ext content =
     (if ext = Some ''toml'' then toml_config fm content
      else if ext = Some ''yaml'' \<or> ext = Some ''yml'' then yaml_config fm content
      else if ext = Some ''json'' then json_config fm content
      else (case toml_config fm content of
              Some c \<Rightarrow> Some c
            | None \<Rightarrow> (case yaml_config fm content of
                        Some c \<Rightarrow> Some c
                      | None \<Rightarrow> json_config fm content)))"

definition load_auth_key :: "files \<Rightarrow> string \<Rightarrow> client_config \<Rightarrow> load_error + client_config" where
  "load_auth_key fs base cfg =
     (if cc_auth_key cfg \<noteq> [] then Inr cfg
      else if cc_auth_key_file cfg = [] \<and> cc_key_file cfg = [] then Inr cfg
      else
        let legacy = (cc_auth_key_file cfg = []);
            configured = (if legacy then cc_key_file cfg else cc_auth_key_file cfg);
            path = (if is_absolute configured then configured else path_join base configured)
        in case read_to_string fs path of
             None \<Rightarrow> Inl (KeyUnreadable path)
           | Some content \<Rightarrow>
               let key = trim content
               in if legacy \<and> starts_with key ''-----BEGIN'' then Inr cfg
                  else if key = [] then Inl (KeyEmpty path)
                  else Inr (cfg\<lparr>cc_auth_key := key, cc_key_file := (if legacy then [] else cc_key_file cfg)\<rparr>))"

definition include_services :: "formats \<Rightarrow> files \<Rightarrow> string \<Rightarrow> string \<Rightarrow> load_error + service list option" where
  "include_services fm fs p content =
     (if extension fs p = Some ''toml'' then try_option (IncludeInvalid p) (toml_services fm content)
      else if extension fs p = Some ''yaml'' \<or> extension fs p = Some ''yml'' then try_option (IncludeInvalid p) (yaml_services fm content)
      else if extension fs p = Some ''json''
      then (case json_list fm content of
              Some svcs \<Rightarrow> Inr (Some svcs)
            | None \<Rightarrow> (case json_services fm content of Some svcs \<Rightarrow> Inr (Some svcs) | None \<Rightarrow> Inl (IncludeInvalid p)))
      else Inr None)"

text \<open>The first service of a name stays.\<close>

fun merge_services :: "service list \<Rightarrow> string list \<times> service list \<Rightarrow> string list \<times> service list" where
  "merge_services [] acc = acc"
| "merge_services (svc # svcs) (names, kept) =
     merge_services svcs
       (if svc_name svc \<in> set names then (names, kept) else (svc_name svc # names, kept @ [svc]))"

fun load_entries ::
  "formats \<Rightarrow> files \<Rightarrow> string option list \<Rightarrow> string list \<times> service list \<Rightarrow> load_error + string list \<times> service list" where
  "load_entries fm fs [] acc = Inr acc"
| "load_entries fm fs (None # es) acc = Inl BadEntry"
| "load_entries fm fs (Some p # es) acc =
     (if path_is_file fs p
      then (case read_to_string fs p of
              None \<Rightarrow> Inl (IncludeUnreadable p)
            | Some content \<Rightarrow>
                (case include_services fm fs p content of
                   Inl e \<Rightarrow> Inl e
                 | Inr None \<Rightarrow> load_entries fm fs es acc
                 | Inr (Some svcs) \<Rightarrow> load_entries fm fs es (merge_services svcs acc)))
      else load_entries fm fs es acc)"

fun load_patterns ::
  "formats \<Rightarrow> files \<Rightarrow> string \<Rightarrow> string list \<Rightarrow> string list \<times> service list \<Rightarrow> load_error + string list \<times> service list" where
  "load_patterns fm fs base [] acc = Inr acc"
| "load_patterns fm fs base (pat # pats) acc =
     (let p = (if is_absolute pat then pat else path_join base pat)
      in case glob fs p of
           None \<Rightarrow> Inl (BadPattern p)
         | Some es \<Rightarrow> (case load_entries fm fs es acc of
                        Inl e \<Rightarrow> Inl e
                      | Inr acc' \<Rightarrow> load_patterns fm fs base pats acc'))"

definition load_includes :: "formats \<Rightarrow> files \<Rightarrow> string \<Rightarrow> client_config \<Rightarrow> load_error + client_config" where
  "load_includes fm fs base cfg =
     (case load_patterns fm fs base (cc_includes cfg) (map svc_name (cc_services cfg), cc_services cfg) of
        Inl e \<Rightarrow> Inl e
      | Inr (_, svcs) \<Rightarrow> Inr (cfg\<lparr>cc_services := svcs\<rparr>))"

definition resolve_transport_cache_path :: "files \<Rightarrow> string \<Rightarrow> client_config \<Rightarrow> load_error + client_config" where
  "resolve_transport_cache_path fs base0 cfg =
     (case (if is_absolute base0 then Inr base0
            else case current_dir fs of None \<Rightarrow> Inl NoCurrentDir | Some cwd \<Rightarrow> Inr (path_join cwd base0)) of
        Inl e \<Rightarrow> Inl e
      | Inr base \<Rightarrow>
          let configured = cc_transport_cache_file cfg
          in Inr (cfg\<lparr>cc_transport_cache_file :=
               (if configured = [] then path_join base default_transport_cache_file
                else if is_absolute configured then configured
                else path_join base configured)\<rparr>))"

definition load_client_config :: "formats \<Rightarrow> files \<Rightarrow> string \<Rightarrow> load_error + client_config" where
  "load_client_config fm fs path =
     (case read_to_string fs path of
        None \<Rightarrow> Inl (ReadFailed path)
      | Some content \<Rightarrow>
          (case parse_config fm (extension fs path) content of
             None \<Rightarrow> Inl ParseFailed
           | Some cfg \<Rightarrow>
               let base = (case parent fs path of Some d \<Rightarrow> d | None \<Rightarrow> ''.'')
               in case load_auth_key fs base cfg of
                    Inl e \<Rightarrow> Inl e
                  | Inr cfg1 \<Rightarrow>
                      (case load_includes fm fs base cfg1 of
                         Inl e \<Rightarrow> Inl e
                       | Inr cfg2 \<Rightarrow> resolve_transport_cache_path fs base cfg2)))"

definition enabled_services :: "client_config \<Rightarrow> service list" where
  "enabled_services cfg = filter is_enabled (cc_services cfg)"

section \<open>The command line\<close>

text \<open>At most \<open>n\<close> pieces; the last one keeps its separators.\<close>

fun splitn :: "nat \<Rightarrow> char \<Rightarrow> string \<Rightarrow> string list" where
  "splitn 0 c s = []"
| "splitn (Suc 0) c s = [s]"
| "splitn (Suc (Suc n)) c s =
     (case split_once c s of Some (a, b) \<Rightarrow> a # splitn (Suc n) c b | None \<Rightarrow> [s])"

fun parse_items :: "string list \<Rightarrow> string + service list" where
  "parse_items [] = Inr []"
| "parse_items (item0 # items) =
     (let item = trim item0
      in if item = [] then parse_items items
         else let parts = splitn 5 (CHR '':'') item
              in if length parts < 4 then Inl item
                 else (case parse_items items of
                         Inl e \<Rightarrow> Inl e
                       | Inr svcs \<Rightarrow>
                           Inr (default_service\<lparr>svc_name := parts ! 0, svc_ty := Some (parts ! 1),
                                  local_addr := parts ! 2 @ '':'' @ parts ! 3,
                                  remote_port := (if length parts > 4
                                    then (case parse_uint 16 (parts ! 4) of Some n \<Rightarrow> of_nat n | None \<Rightarrow> 0) else 0)\<rparr> # svcs)))"

definition parse_services_cli :: "string \<Rightarrow> string + service list" where
  "parse_services_cli spec = parse_items (split_char (CHR '','') spec)"

record args =
  arg_config :: "string option"
  arg_server :: "string option"
  arg_auth_key :: "string option"
  arg_client_id :: "string option"
  arg_services :: "string option"
  arg_insecure :: bool
  arg_web_addr :: "string option"
  arg_ca_file :: "string option"
  arg_key_file :: "string option"
  arg_server_name :: "string option"

datatype start_error = LoadError load_error | BadServices string | NothingToDo

definition override :: "string option \<Rightarrow> string \<Rightarrow> string" where
  "override a s = (case a of Some v \<Rightarrow> v | None \<Rightarrow> s)"

definition apply_args :: "args \<Rightarrow> client_config \<Rightarrow> client_config" where
  "apply_args a cfg = cfg\<lparr>cc_server := override (arg_server a) (cc_server cfg),
     cc_auth_key := override (arg_auth_key a) (cc_auth_key cfg), cc_client_id := override (arg_client_id a) (cc_client_id cfg),
     cc_insecure := (arg_insecure a \<or> cc_insecure cfg), cc_web_addr := override (arg_web_addr a) (cc_web_addr cfg),
     cc_ca_file := override (arg_ca_file a) (cc_ca_file cfg), cc_key_file := override (arg_key_file a) (cc_key_file cfg),
     cc_server_name := override (arg_server_name a) (cc_server_name cfg)\<rparr>"

text \<open>The configuration with which the client runs.\<close>

definition client_start_config :: "formats \<Rightarrow> files \<Rightarrow> string \<Rightarrow> args \<Rightarrow> start_error + client_config" where
  "client_start_config fm fs default_id a =
     (case (case arg_config a of Some path \<Rightarrow> load_client_config fm fs path | None \<Rightarrow> Inr (default_client_config default_id)) of
        Inl e \<Rightarrow> Inl (LoadError e)
      | Inr cfg0 \<Rightarrow>
          let cfg1 = apply_args a cfg0
          in case (case arg_services a of None \<Rightarrow> Inr [] | Some spec \<Rightarrow> parse_services_cli spec) of
               Inl e \<Rightarrow> Inl (BadServices e)
             | Inr svcs \<Rightarrow>
                 let cfg2 = cfg1\<lparr>cc_services := cc_services cfg1 @ svcs\<rparr>
                 in if cc_services cfg2 = [] \<and> cc_visitors cfg2 = [] then Inl NothingToDo else Inr cfg2)"

section \<open>Watching the file\<close>

record metadata =
  meta_len :: u64
  meta_mtime :: "nat option"

text \<open>The numbers that go into the hash: size and time of the file, then the sizes of the other configuration files beside
  it.\<close>

definition fingerprint :: "(nat list \<Rightarrow> u64) \<Rightarrow> files \<Rightarrow> (string \<Rightarrow> metadata option) \<Rightarrow> string \<Rightarrow> u64 option" where
  "fingerprint hash fs meta path =
     (case meta path of
        None \<Rightarrow> None
      | Some m \<Rightarrow>
          let others = (case parent fs path of
                None \<Rightarrow> []
              | Some dir \<Rightarrow> concat (map (\<lambda>pat. case glob fs (path_join dir pat) of
                    None \<Rightarrow> []
                  | Some es \<Rightarrow> concat (map (\<lambda>e. case e of
                        None \<Rightarrow> []
                      | Some p \<Rightarrow> (case meta p of None \<Rightarrow> [] | Some mm \<Rightarrow> [unat (meta_len mm)])) es))
                  [''*.toml'', ''*.yaml'', ''*.yml'', ''*.json'']))
          in Some (hash ([unat (meta_len m), (case meta_mtime m of Some t \<Rightarrow> t | None \<Rightarrow> 0)] @ others)))"

text \<open>One tick: the fingerprint that was seen last, and what is sent.\<close>

definition watch_tick ::
  "u64 option \<Rightarrow> load_error + client_config \<Rightarrow> u64 \<Rightarrow> u64 \<times> client_config list" where
  "watch_tick fp loaded last_fp =
     (case fp of
        Some f \<Rightarrow> if f \<noteq> last_fp
                  then (case loaded of Inr cfg \<Rightarrow> (f, [cfg]) | Inl _ \<Rightarrow> (last_fp, []))
                  else (last_fp, [])
      | None \<Rightarrow> (last_fp, []))"

fun watch_loop :: "(u64 option \<times> (load_error + client_config)) list \<Rightarrow> u64 \<Rightarrow> client_config list" where
  "watch_loop [] last_fp = []"
| "watch_loop ((fp, loaded) # ts) last_fp =
     (case watch_tick fp loaded last_fp of (f, sent) \<Rightarrow> sent @ watch_loop ts f)"

definition watch_config :: "u32 \<Rightarrow> u64 option \<Rightarrow> (u64 option \<times> (load_error + client_config)) list \<Rightarrow> client_config list" where
  "watch_config interval_secs first ticks =
     (if interval_secs = 0 then [] else watch_loop ticks (case first of Some f \<Rightarrow> f | None \<Rightarrow> 0))"

section \<open>Includes\<close>

text \<open>What merging leaves: the old list, extended by services of new names.\<close>

definition extends :: "service list \<Rightarrow> service list \<Rightarrow> bool" where
  "extends old new \<longleftrightarrow> (\<exists>added. new = old @ added \<and> distinct (map svc_name added)
     \<and> svc_name ` set added \<inter> svc_name ` set old = {})"

lemma extends_refl [simp]: "extends svcs svcs"
  by (simp add: extends_def)

lemma extends_trans [trans]: "extends a b \<Longrightarrow> extends b c \<Longrightarrow> extends a c"
  unfolding extends_def by fastforce

lemma extends_snoc: "svc_name s \<notin> svc_name ` set svcs \<Longrightarrow> extends svcs (svcs @ [s])"
  unfolding extends_def by auto

lemma extends_names: "extends a b \<Longrightarrow> svc_name ` set a \<subseteq> svc_name ` set b"
  unfolding extends_def by auto

definition acc_ok :: "string list \<times> service list \<Rightarrow> bool" where
  "acc_ok acc \<longleftrightarrow> set (fst acc) = svc_name ` set (snd acc)"

lemma merge_services_extends:
  assumes "acc_ok acc"
  shows "acc_ok (merge_services svcs acc) \<and> extends (snd acc) (snd (merge_services svcs acc))
    \<and> svc_name ` set svcs \<subseteq> svc_name ` set (snd (merge_services svcs acc))"
  using assms
proof (induction svcs acc rule: merge_services.induct)
  case (2 svc svcs names kept)
  show ?case
  proof (cases "svc_name svc \<in> set names")
    case True
    with 2 have IH: "acc_ok (merge_services svcs (names, kept))" "extends kept (snd (merge_services svcs (names, kept)))"
        "svc_name ` set svcs \<subseteq> svc_name ` set (snd (merge_services svcs (names, kept)))" by simp_all
    have "svc_name svc \<in> svc_name ` set kept" using True 2(2) by (simp add: acc_ok_def)
    with extends_names[OF IH(2)] have "svc_name svc \<in> svc_name ` set (snd (merge_services svcs (names, kept)))" by (rule subsetD)
    with IH True show ?thesis by simp
  next
    case False
    let ?acc = "(svc_name svc # names, kept @ [svc])"
    have "acc_ok ?acc" using 2(2) by (auto simp: acc_ok_def)
    moreover have "extends kept (kept @ [svc])"
      by (rule extends_snoc) (use False 2(2) in \<open>simp add: acc_ok_def\<close>)
    ultimately show ?thesis
      using 2(1) False extends_trans extends_names[of "kept @ [svc]"] by auto
  qed
qed simp

text \<open>The files of a list of entries, and their services.\<close>

definition included :: "formats \<Rightarrow> files \<Rightarrow> string option list \<Rightarrow> service \<Rightarrow> bool" where
  "included fm fs es svc \<longleftrightarrow> (\<exists>p content svcs. Some p \<in> set es \<and> path_is_file fs p \<and> read_to_string fs p = Some content
     \<and> include_services fm fs p content = Inr (Some svcs) \<and> svc \<in> set svcs)"

lemma included_Cons:
  "included fm fs (Some p # es) s \<longleftrightarrow> included fm fs es s \<or> path_is_file fs p
     \<and> (\<exists>content svcs. read_to_string fs p = Some content \<and> include_services fm fs p content = Inr (Some svcs) \<and> s \<in> set svcs)"
  by (auto simp: included_def)

lemma load_entries_Cons:
  assumes "load_entries fm fs (Some p # es) acc = Inr acc'"
  obtains (skip) "load_entries fm fs es acc = Inr acc'" "\<And>s. included fm fs (Some p # es) s = included fm fs es s"
  | (merge) svcs where "load_entries fm fs es (merge_services svcs acc) = Inr acc'"
      "\<And>s. included fm fs (Some p # es) s \<longleftrightarrow> included fm fs es s \<or> s \<in> set svcs"
proof (cases "path_is_file fs p")
  case True
  with assms obtain content res where c: "read_to_string fs p = Some content" "include_services fm fs p content = Inr res"
    by (auto split: option.splits sum.splits)
  show ?thesis
  proof (cases res)
    case None
    show ?thesis by (rule skip) (use assms True c None in \<open>simp_all add: included_Cons\<close>)
  next
    case (Some svcs)
    show ?thesis by (rule merge[of svcs]) (use assms True c Some in \<open>simp_all add: included_Cons\<close>)
  qed
qed (rule skip; use assms in \<open>simp add: included_Cons\<close>)

lemma load_entries_extends:
  assumes "load_entries fm fs es acc = Inr acc'" "acc_ok acc"
  shows "acc_ok acc' \<and> extends (snd acc) (snd acc') \<and> (\<forall>s. included fm fs es s \<longrightarrow> svc_name s \<in> svc_name ` set (snd acc'))"
  using assms
proof (induction es arbitrary: acc)
  case (Cons e es)
  then obtain p where e: "e = Some p" by (cases e) auto
  from Cons.prems(1)[unfolded e] show ?case
  proof (cases rule: load_entries_Cons)
    case skip
    with Cons.IH[OF skip(1) Cons.prems(2)] show ?thesis by (simp add: e)
  next
    case (merge svcs)
    note m = merge_services_extends[OF Cons.prems(2), of svcs]
    note IH = Cons.IH[OF merge(1) conjunct1[OF m]]
    have "svc_name ` set svcs \<subseteq> svc_name ` set (snd acc')"
      using m extends_names[OF conjunct1[OF conjunct2[OF IH]]] by (meson subset_trans)
    then have "svc_name s \<in> svc_name ` set (snd acc')" if "s \<in> set svcs" for s using that by blast
    with IH merge(2) m extends_trans show ?thesis unfolding e by blast
  qed
qed (simp add: included_def)

lemma load_patterns_extends:
  assumes "load_patterns fm fs base pats acc = Inr acc'" "acc_ok acc"
  shows "acc_ok acc' \<and> extends (snd acc) (snd acc')
    \<and> (\<forall>pat \<in> set pats. \<forall>es s. glob fs (path_join base pat) = Some es \<longrightarrow> included fm fs es s
        \<longrightarrow> svc_name s \<in> svc_name ` set (snd acc'))"
  using assms
proof (induction pats arbitrary: acc)
  case (Cons pat pats)
  have path: "(if is_absolute pat then pat else path_join base pat) = path_join base pat" by (simp add: path_join_def)
  from Cons.prems(1) obtain es acc1 where es: "glob fs (path_join base pat) = Some es" "load_entries fm fs es acc = Inr acc1"
      "load_patterns fm fs base pats acc1 = Inr acc'"
    unfolding load_patterns.simps path by (auto simp: Let_def split: option.splits sum.splits)
  note e = load_entries_extends[OF es(2) Cons.prems(2)]
  note IH = Cons.IH[OF es(3) conjunct1[OF e]]
  have "svc_name s \<in> svc_name ` set (snd acc')" if "included fm fs es s" for s
    using e that extends_names[OF conjunct1[OF conjunct2[OF IH]]] by blast
  moreover have "extends (snd acc) (snd acc')" using e IH extends_trans by blast
  ultimately show ?case using IH es(1) by simp
qed simp

text \<open>Includes only add. When a configuration is read with its includes, its own services stay as they are and
  first, every service of every included file is there by name, and no name is added twice: where a name is
  defined more than once, the first definition counts.\<close>

theorem includes_only_add:
  assumes "load_includes fm fs base cfg = Inr cfg'"
  shows "\<exists>added. cc_services cfg' = cc_services cfg @ added \<and> distinct (map svc_name added)
      \<and> svc_name ` set added \<inter> svc_name ` set (cc_services cfg) = {}
    \<and> (\<forall>pat \<in> set (cc_includes cfg). \<forall>es s. glob fs (path_join base pat) = Some es \<longrightarrow> included fm fs es s
        \<longrightarrow> svc_name s \<in> svc_name ` set (cc_services cfg'))
    \<and> cfg'\<lparr>cc_services := cc_services cfg\<rparr> = cfg"
proof -
  from assms obtain ns svcs where l: "cfg' = cfg\<lparr>cc_services := svcs\<rparr>"
      "load_patterns fm fs base (cc_includes cfg) (map svc_name (cc_services cfg), cc_services cfg) = Inr (ns, svcs)"
    by (auto simp: load_includes_def split: sum.splits)
  have "acc_ok (map svc_name (cc_services cfg), cc_services cfg)" by (simp add: acc_ok_def)
  from load_patterns_extends[OF l(2) this] l(1) show ?thesis by (simp add: extends_def)
qed

text \<open>A file that defines one service again and adds another.\<close>

definition demo_files :: files where
  "demo_files = \<lparr>read_to_string = (\<lambda>p. if p = ''d/x.json'' then Some ''X'' else None), path_is_file = (\<lambda>_. True),
     extension = (\<lambda>_. Some ''json''), parent = (\<lambda>_. Some ''d''), glob = (\<lambda>_. Some [Some ''d/x.json'']), current_dir = Some ''/''\<rparr>"

definition named :: "string \<Rightarrow> service" where
  "named n = default_service\<lparr>svc_name := n\<rparr>"

definition demo_formats :: formats where
  "demo_formats = \<lparr>toml_config = (\<lambda>_. None), yaml_config = (\<lambda>_. None), json_config = (\<lambda>_. None),
     toml_services = (\<lambda>_. None), yaml_services = (\<lambda>_. None), json_list = (\<lambda>_. Some [named ''a'', named ''b'']), json_services = (\<lambda>_. None)\<rparr>"

theorem includes_only_add_witness:
  "\<exists>cfg'. load_includes demo_formats demo_files ''d''
       ((default_client_config ''c'')\<lparr>cc_includes := [''*''], cc_services := [named ''a'']\<rparr>) = Inr cfg'
     \<and> map svc_name (cc_services cfg') = [''a'', ''b'']
     \<and> (\<exists>added. cc_services cfg' = named ''a'' # added \<and> distinct (map svc_name added))"
proof -
  let ?cfg = "(default_client_config ''c'')\<lparr>cc_includes := [''*''], cc_services := [named ''a'']\<rparr>"
  let ?cfg' = "?cfg\<lparr>cc_services := [named ''a'', named ''b'']\<rparr>"
  have l: "load_includes demo_formats demo_files ''d'' ?cfg = Inr ?cfg'"
    by (simp add: load_includes_def demo_formats_def demo_files_def include_services_def named_def Let_def)
  from includes_only_add[OF l] have "\<exists>added. cc_services ?cfg' = cc_services ?cfg @ added \<and> distinct (map svc_name added)"
    by blast
  with l show ?thesis by (intro exI[of _ ?cfg']) (simp add: named_def)
qed

section \<open>The services of the command line\<close>

record cli_service =
  cli_name :: string
  cli_ty :: string
  cli_host :: string
  cli_port :: string
  cli_remote :: u16

definition show_cli :: "cli_service \<Rightarrow> string" where
  "show_cli c = cli_name c @ '':'' @ cli_ty c @ '':'' @ cli_host c @ '':'' @ cli_port c @ '':'' @ show_nat (unat (cli_remote c))"

definition cli_ok :: "cli_service \<Rightarrow> bool" where
  "cli_ok c \<longleftrightarrow> cli_name c \<noteq> [] \<and> list_all (\<lambda>x. word_char x \<and> x \<noteq> CHR '','' \<and> x \<noteq> CHR '':'')
     (cli_name c @ cli_ty c @ cli_host c @ cli_port c)"

definition cli_to_service :: "cli_service \<Rightarrow> service" where
  "cli_to_service c = default_service\<lparr>svc_name := cli_name c, svc_ty := Some (cli_ty c),
     local_addr := cli_host c @ '':'' @ cli_port c, remote_port := cli_remote c\<rparr>"

fun join_comma :: "string list \<Rightarrow> string" where
  "join_comma [] = []"
| "join_comma [s] = s"
| "join_comma (s # ss) = s @ '','' @ join_comma ss"

lemma digit_plain: "is_digit c \<Longrightarrow> word_char c \<and> c \<noteq> CHR '','' \<and> c \<noteq> CHR '':''"
proof -
  assume d: "is_digit c"
  have "byte (CHR '','') = 44" "byte (CHR '':'') = 58" by (simp_all add: byte_def)
  with d show ?thesis by (auto simp: is_digit_def word_char_def ws_ascii_def)
qed

lemma show_nat_plain:
  "show_nat n \<noteq> []" "c \<in> set (show_nat n) \<Longrightarrow> word_char c \<and> c \<noteq> CHR '','' \<and> c \<noteq> CHR '':''"
  using digit_plain show_nat_digits by (simp add: show_nat.simps[of n], blast)

lemma parse_show_uint: "n < 2 ^ w \<Longrightarrow> parse_uint w (show_nat n) = Some n"
proof -
  assume n: "n < 2 ^ w"
  obtain c cs where s: "show_nat n = c # cs" using show_nat_plain(1) by (cases "show_nat n") auto
  then have "is_digit c" using show_nat_digits[of c n] by simp
  then have "c \<noteq> CHR ''+''" by (auto simp: is_digit_def byte_def)
  with s n parse_show_nat[of n] show ?thesis by (simp add: parse_uint_def Let_def)
qed

lemma parse_item:
  assumes "cli_ok c"
  shows "trim (show_cli c) = show_cli c" "show_cli c \<noteq> []" "CHR '','' \<notin> set (show_cli c)"
    "splitn 5 (CHR '':'') (show_cli c) = [cli_name c, cli_ty c, cli_host c, cli_port c, show_nat (unat (cli_remote c))]"
proof -
  have f: "CHR '':'' \<notin> set (cli_name c)" "CHR '':'' \<notin> set (cli_ty c)" "CHR '':'' \<notin> set (cli_host c)" "CHR '':'' \<notin> set (cli_port c)"
    "cli_name c \<noteq> []" "word_char (hd (cli_name c))"
    using assms by (auto simp: cli_ok_def list_all_iff)
  show "trim (show_cli c) = show_cli c"
    using f show_nat_plain(1) show_nat_plain(2)[OF last_in_set[OF show_nat_plain(1)]]
    by (intro trim_word) (auto simp: show_cli_def)
  show "show_cli c \<noteq> []" using f by (simp add: show_cli_def)
  show "CHR '','' \<notin> set (show_cli c)" using assms show_nat_plain(2) by (auto simp: show_cli_def cli_ok_def list_all_iff)
  show "splitn 5 (CHR '':'') (show_cli c) = [cli_name c, cli_ty c, cli_host c, cli_port c, show_nat (unat (cli_remote c))]"
    using f by (simp add: show_cli_def eval_nat_numeral split_once_append)
qed

lemma split_join_comma: "ss \<noteq> [] \<Longrightarrow> \<forall>s \<in> set ss. CHR '','' \<notin> set s \<Longrightarrow> split_char (CHR '','') (join_comma ss) = ss"
  by (induction ss rule: join_comma.induct) (simp_all add: split_char_word split_char_append)

text \<open>Services written on the command line are understood. For every list of services whose fields contain no white
  space, comma or colon, parsing the list that is written in the documented form yields these services, with
  their addresses and remote ports.\<close>

theorem cli_services_roundtrip:
  assumes "\<forall>c \<in> set cs. cli_ok c"
  shows "parse_services_cli (join_comma (map show_cli cs)) = Inr (map cli_to_service cs)"
proof (cases "cs = []")
  case False
  have "parse_items (map show_cli cs) = Inr (map cli_to_service cs)"
    using assms
  proof (induction cs)
    case (Cons c cs)
    then have c: "cli_ok c" by simp
    have "parse_uint 16 (show_nat (unat (cli_remote c))) = Some (unat (cli_remote c))"
      by (rule parse_show_uint) (rule unat_u16_less)
    with Cons parse_item[OF c] show ?case by (simp add: Let_def cli_to_service_def)
  qed simp
  moreover have "split_char (CHR '','') (join_comma (map show_cli cs)) = map show_cli cs"
    using assms False parse_item(3) by (intro split_join_comma) auto
  ultimately show ?thesis by (simp add: parse_services_cli_def)
qed (simp add: parse_services_cli_def)

theorem cli_services_roundtrip_witness:
  "parse_services_cli ''web:tcp:127.0.0.1:80:9000,x:udp:h:5:0'' =
     Inr [default_service\<lparr>svc_name := ''web'', svc_ty := Some ''tcp'', local_addr := ''127.0.0.1:80'', remote_port := 9000\<rparr>,
          default_service\<lparr>svc_name := ''x'', svc_ty := Some ''udp'', local_addr := ''h:5'', remote_port := 0\<rparr>]"
proof -
  let ?a = "\<lparr>cli_name = ''web'', cli_ty = ''tcp'', cli_host = ''127.0.0.1'', cli_port = ''80'', cli_remote = 9000\<rparr>"
  let ?b = "\<lparr>cli_name = ''x'', cli_ty = ''udp'', cli_host = ''h'', cli_port = ''5'', cli_remote = 0\<rparr>"
  have "cli_ok ?a" "cli_ok ?b" by code_simp+
  then have "parse_services_cli (join_comma (map show_cli [?a, ?b])) = Inr (map cli_to_service [?a, ?b])"
    by (intro cli_services_roundtrip) simp
  moreover have "char_of (57 :: nat) = CHR ''9''" "char_of (48 :: nat) = CHR ''0''" by code_simp+
  then have "join_comma (map show_cli [?a, ?b]) = ''web:tcp:127.0.0.1:80:9000,x:udp:h:5:0''"
    by (simp add: show_cli_def show_nat.simps digit_char_def)
  ultimately show ?thesis by (simp add: cli_to_service_def)
qed

end
