(* ===== verification/Transport.thy ===== *)
theory Transport
  imports Rust_Strings
begin

text \<open>
  The client's choice of transport (\<^verbatim>\<open>cross233-client/src/transport.rs\<close>) and the opening of tunnels with it
  (\<^verbatim>\<open>connect_tunnel_auto\<close> and \<^verbatim>\<open>connect_tcp_tunnel_with_retries\<close> of \<^verbatim>\<open>cross233-client/src/client.rs\<close>). The
  cache file is the value it holds; its JSON form belongs to the serialisation library. Times are seconds
  since the epoch. What the network and the file system answer are arguments.
\<close>

section \<open>Kinds, modes, choices\<close>

datatype transport_kind = Tcp | Qcp

definition kind_str :: "transport_kind \<Rightarrow> string" where
  "kind_str k = (case k of Tcp \<Rightarrow> ''tcp'' | Qcp \<Rightarrow> ''qcp'')"

definition alternate :: "transport_kind \<Rightarrow> transport_kind" where
  "alternate k = (case k of Tcp \<Rightarrow> Qcp | Qcp \<Rightarrow> Tcp)"

datatype transport_mode = AutoMode | TcpMode | QcpMode

definition parse_mode :: "string \<Rightarrow> string + transport_mode" where
  "parse_mode value =
     (let v = to_ascii_lowercase (trim value)
      in if v = ''auto'' then Inr AutoMode
         else if v = ''tcp'' \<or> v = [] then Inr TcpMode
         else if v = ''qcp'' then Inr QcpMode
         else Inl (''invalid transport '' @ [CHR 0x27] @ v @ [CHR 0x27] @ '': expected auto, tcp, or qcp''))"

datatype choice_source = Forced | FromCache | Probe | Fallback

record transport_choice =
  kind :: transport_kind
  choice_source :: choice_source

section \<open>The cache\<close>

record cache_entry =
  selected :: string
  updated_at_unix :: nat
  last_success_at_unix :: nat
  qcp_error :: "string option"
  tcp_error :: "string option"

record cache_file =
  version :: nat
  entries :: "(string, cache_entry) hmap"

definition default_entry :: cache_entry where
  "default_entry = \<lparr>selected = [], updated_at_unix = 0, last_success_at_unix = 0, qcp_error = None, tcp_error = None\<rparr>"

definition default_cache :: cache_file where
  "default_cache = \<lparr>version = 0, entries = []\<rparr>"

definition CACHE_VERSION :: nat where "CACHE_VERSION = 1"
definition MAX_ERROR_CHARS :: nat where "MAX_ERROR_CHARS = 240"

text \<open>The file: absent, unreadable, not a cache, or a cache.\<close>

datatype disk = Missing | Unreadable | Garbage | Holds cache_file

definition read_cache :: "disk \<Rightarrow> cache_file option" where
  "read_cache d = (case d of Missing \<Rightarrow> Some default_cache | Holds c \<Rightarrow> Some c | _ \<Rightarrow> None)"

definition read_or_default :: "disk \<Rightarrow> cache_file" where
  "read_or_default d = (case read_cache d of Some c \<Rightarrow> c | None \<Rightarrow> default_cache)"

text \<open>The outcomes of the file operations of one write.\<close>

record write_io =
  dir_ok :: bool
  temp_ok :: bool
  rename_ok :: bool
  target_exists :: bool
  remove_ok :: bool
  rename_again_ok :: bool

text \<open>The write goes to a temporary file that then replaces the target; where the platform cannot
  replace, the target is removed first.\<close>

definition write_cache :: "write_io \<Rightarrow> cache_file \<Rightarrow> disk \<Rightarrow> bool \<times> disk" where
  "write_cache io c d =
     (if \<not> dir_ok io \<or> \<not> temp_ok io then (False, d)
      else if rename_ok io then (True, Holds c)
      else if \<not> target_exists io then (False, d)
      else if \<not> remove_ok io then (False, d)
      else if rename_again_ok io then (True, Holds c)
      else (False, Missing))"

definition parse_kind :: "string \<Rightarrow> transport_kind option" where
  "parse_kind v = (if v = ''tcp'' then Some Tcp else if v = ''qcp'' then Some Qcp else None)"

definition preferred :: "nat \<Rightarrow> nat \<Rightarrow> disk \<Rightarrow> string \<Rightarrow> transport_kind option" where
  "preferred ttl now d key =
     (if ttl = 0 then None
      else (case read_cache d of
              None \<Rightarrow> None
            | Some c \<Rightarrow>
                if version c \<noteq> CACHE_VERSION then None
                else (case hm_get (entries c) key of
                        None \<Rightarrow> None
                      | Some e \<Rightarrow> if now - updated_at_unix e > ttl then None else parse_kind (selected e))))"

definition choices :: "nat \<Rightarrow> nat \<Rightarrow> disk \<Rightarrow> transport_mode \<Rightarrow> string \<Rightarrow> transport_choice list" where
  "choices ttl now d mode key =
     (case mode of
        TcpMode \<Rightarrow> [\<lparr>kind = Tcp, choice_source = Forced\<rparr>]
      | QcpMode \<Rightarrow> [\<lparr>kind = Qcp, choice_source = Forced\<rparr>]
      | AutoMode \<Rightarrow>
          (case preferred ttl now d key of
             Some k \<Rightarrow> [\<lparr>kind = k, choice_source = FromCache\<rparr>, \<lparr>kind = alternate k, choice_source = Fallback\<rparr>]
           | None \<Rightarrow> [\<lparr>kind = Qcp, choice_source = Probe\<rparr>, \<lparr>kind = Tcp, choice_source = Fallback\<rparr>]))"

definition entry_or_default :: "cache_file \<Rightarrow> string \<Rightarrow> cache_entry" where
  "entry_or_default c key = (case hm_get (entries c) key of Some e \<Rightarrow> e | None \<Rightarrow> default_entry)"

definition note_success :: "write_io \<Rightarrow> nat \<Rightarrow> string \<Rightarrow> transport_kind \<Rightarrow> disk \<Rightarrow> bool \<times> disk" where
  "note_success io now key k d =
     (let c = read_or_default d;
          e = (entry_or_default c key)\<lparr>selected := kind_str k, updated_at_unix := now, last_success_at_unix := now\<rparr>;
          e' = (case k of Qcp \<Rightarrow> e\<lparr>qcp_error := None\<rparr> | Tcp \<Rightarrow> e\<lparr>tcp_error := None\<rparr>)
      in write_cache io (c\<lparr>version := CACHE_VERSION, entries := hm_insert key e' (entries c)\<rparr>) d)"

text \<open>The first \<open>n\<close> characters of a string in UTF-8: a character goes on while continuation bytes
  follow.\<close>

fun take_chars :: "nat \<Rightarrow> string \<Rightarrow> string" where
  "take_chars n [] = []"
| "take_chars n (c # s) =
     (if cont c then c # take_chars n s else if n = 0 then [] else c # take_chars (n - 1) s)"

definition compact_error :: "string \<Rightarrow> string" where
  "compact_error err = take_chars MAX_ERROR_CHARS err"

definition note_failure :: "write_io \<Rightarrow> string \<Rightarrow> transport_kind \<Rightarrow> string \<Rightarrow> disk \<Rightarrow> bool \<times> disk" where
  "note_failure io key k err d =
     (let c = read_or_default d; e = entry_or_default c key; text = compact_error err;
          e' = (case k of Qcp \<Rightarrow> e\<lparr>qcp_error := Some text\<rparr> | Tcp \<Rightarrow> e\<lparr>tcp_error := Some text\<rparr>)
      in write_cache io (c\<lparr>version := CACHE_VERSION, entries := hm_insert key e' (entries c)\<rparr>) d)"

definition cache_key :: "string \<Rightarrow> string \<Rightarrow> nat \<Rightarrow> string" where
  "cache_key server server_name qcp_tunnel_port =
     ''v1|server='' @ server @ ''|server_name='' @ server_name @ ''|qcp_tunnel_port='' @ show_nat qcp_tunnel_port"

section \<open>Opening a tunnel\<close>

definition TCP_TUNNEL_ATTEMPTS :: nat where "TCP_TUNNEL_ATTEMPTS = 3"

fun join_errors :: "string list \<Rightarrow> string" where
  "join_errors [] = []"
| "join_errors [e] = e"
| "join_errors (e # f # es) = e @ ''; '' @ join_errors (f # es)"

text \<open>The outcome of an attempt: a tunnel, an error, or nothing before the time-out.\<close>

type_synonym 't attempt = "(string + 't) option"

fun retry_loop :: "(nat \<Rightarrow> 't attempt) \<Rightarrow> nat \<Rightarrow> nat \<Rightarrow> string list \<Rightarrow> string + 't" where
  "retry_loop attempt i 0 errors =
     Inl (''TCP tunnel setup failed after '' @ show_nat TCP_TUNNEL_ATTEMPTS @ '' attempts ('' @ join_errors errors @ '')'')"
| "retry_loop attempt i (Suc n) errors =
     (case attempt i of
        Some (Inr t) \<Rightarrow> Inr t
      | Some (Inl e) \<Rightarrow> retry_loop attempt (i + 1) n (errors @ [''attempt '' @ show_nat i @ '': '' @ e])
      | None \<Rightarrow> retry_loop attempt (i + 1) n (errors @ [''attempt '' @ show_nat i @ '': setup exceeded 2000 ms'']))"

definition connect_tcp_tunnel_with_retries :: "(nat \<Rightarrow> 't attempt) \<Rightarrow> string + 't" where
  "connect_tcp_tunnel_with_retries attempt = retry_loop attempt 1 TCP_TUNNEL_ATTEMPTS []"

record 't network =
  qcp_attempt :: "'t attempt"
  tcp_attempts :: "nat \<Rightarrow> 't attempt"
  probe_timeout_ms :: nat

definition try_kind :: "'t network \<Rightarrow> transport_kind \<Rightarrow> string + 't" where
  "try_kind net k =
     (case k of
        Qcp \<Rightarrow> (case qcp_attempt net of
                  Some r \<Rightarrow> r
                | None \<Rightarrow> Inl (''QCP tunnel setup exceeded '' @ show_nat (probe_timeout_ms net) @ '' ms''))
      | Tcp \<Rightarrow> connect_tcp_tunnel_with_retries (tcp_attempts net))"

text \<open>The loop over the choices: the result, the cache file, and the transport shown in the status.\<close>

fun try_choices ::
  "'t network \<Rightarrow> write_io \<Rightarrow> nat \<Rightarrow> bool \<Rightarrow> string \<Rightarrow> transport_choice list \<Rightarrow> string list \<Rightarrow> disk \<Rightarrow> string
    \<Rightarrow> (string + 't) \<times> disk \<times> string" where
  "try_choices net io now is_auto key [] errors d active =
     (Inl (''all tunnel transports failed ('' @ join_errors errors @ '')''), d, active)"
| "try_choices net io now is_auto key (c # cs) errors d active =
     (case try_kind net (kind c) of
        Inr t \<Rightarrow> (Inr t, if is_auto then snd (note_success io now key (kind c) d) else d, kind_str (kind c))
      | Inl e \<Rightarrow> try_choices net io now is_auto key cs (errors @ [kind_str (kind c) @ '': '' @ e])
                  (if is_auto then snd (note_failure io key (kind c) e d) else d) active)"

definition connect_tunnel_auto ::
  "'t network \<Rightarrow> write_io \<Rightarrow> nat \<Rightarrow> nat \<Rightarrow> transport_mode \<Rightarrow> string \<Rightarrow> disk \<Rightarrow> string \<Rightarrow> (string + 't) \<times> disk \<times> string" where
  "connect_tunnel_auto net io ttl now mode key d active =
     try_choices net io now (mode = AutoMode) key (choices ttl now d mode key) [] d active"

section \<open>Lemmas\<close>

lemma parse_kind_str [simp]: "parse_kind (kind_str k) = Some k"
  by (cases k) (simp_all add: parse_kind_def kind_str_def)

text \<open>A file of the current version, or none of use.\<close>

definition current_version :: "disk \<Rightarrow> bool" where
  "current_version d \<longleftrightarrow> (case d of Holds c \<Rightarrow> version c = CACHE_VERSION | _ \<Rightarrow> True)"

lemma preferred_default: "hm_get (entries c) key = None \<Longrightarrow> preferred ttl now (Holds c) key = None"
  by (simp add: preferred_def read_cache_def)

lemma note_failure_preferred:
  assumes "current_version d" "rename_ok io"
  shows "preferred ttl now (snd (note_failure io key k err d)) key' = preferred ttl now d key'"
proof -
  define c where "c = read_or_default d"
  define e where "e = (case k of Qcp \<Rightarrow> (entry_or_default c key)\<lparr>qcp_error := Some (compact_error err)\<rparr>
     | Tcp \<Rightarrow> (entry_or_default c key)\<lparr>tcp_error := Some (compact_error err)\<rparr>)"
  let ?c' = "c\<lparr>version := CACHE_VERSION, entries := hm_insert key e (entries c)\<rparr>"
  have e: "selected e = selected (entry_or_default c key)" "updated_at_unix e = updated_at_unix (entry_or_default c key)"
    by (simp_all add: e_def split: transport_kind.split)
  have "preferred ttl now (Holds ?c') key' = preferred ttl now d key'"
    using assms(1) e
    by (cases d) (auto simp: preferred_def read_cache_def c_def read_or_default_def entry_or_default_def
        default_cache_def default_entry_def current_version_def parse_kind_def CACHE_VERSION_def split: option.split)
  moreover have "snd (note_failure io key k err d) = snd (write_cache io ?c' d)"
    unfolding note_failure_def Let_def e_def c_def ..
  ultimately show ?thesis using assms(2) by (simp add: write_cache_def)
qed

lemma note_failure_current: "current_version d \<Longrightarrow> current_version (snd (note_failure io key k err d))"
  by (auto simp: note_failure_def Let_def write_cache_def current_version_def)

lemma note_success_preferred:
  assumes "fst (note_success io now key k d)" "0 < ttl" "later - now \<le> ttl"
  shows "preferred ttl later (snd (note_success io now key k d)) key = Some k"
  using assms
  by (auto simp: note_success_def Let_def write_cache_def preferred_def read_cache_def split: if_splits transport_kind.splits)

lemma retry_errors: "retry_loop attempt i n es = Inr t \<longleftrightarrow> retry_loop attempt i n es' = Inr t"
proof (induction n arbitrary: i es es')
  case (Suc n)
  show ?case
  proof (cases "attempt i")
    case None
    then show ?thesis by (simp only: retry_loop.simps option.case) (rule Suc)
  next
    case (Some a)
    then show ?thesis by (cases a) (simp_all only: retry_loop.simps option.case sum.case Suc[of "i + 1" "es @ _" "es' @ _"])
  qed
qed simp

lemma retry_step:
  "retry_loop attempt i (Suc n) es = Inr t \<longleftrightarrow>
     attempt i = Some (Inr t) \<or> (\<forall>u. attempt i \<noteq> Some (Inr u)) \<and> retry_loop attempt (i + 1) n [] = Inr t"
proof (cases "attempt i")
  case None
  with retry_errors[of attempt "i + 1" n "es @ [''attempt '' @ show_nat i @ '': setup exceeded 2000 ms'']" t "[]"]
  show ?thesis by (simp only: retry_loop.simps option.case) simp
next
  case (Some a)
  show ?thesis
  proof (cases a)
    case (Inl e)
    with Some retry_errors[of attempt "i + 1" n "es @ [''attempt '' @ show_nat i @ '': '' @ e]" t "[]"]
    show ?thesis by (simp only: retry_loop.simps option.case sum.case) simp
  qed (use Some in simp)
qed

lemma three_attempts:
  "connect_tcp_tunnel_with_retries attempt = Inr t \<longleftrightarrow>
     (\<exists>j \<in> {1, 2, 3}. attempt j = Some (Inr t) \<and> (\<forall>j' \<in> {1..<j}. \<forall>u. attempt j' \<noteq> Some (Inr u)))"
proof -
  have r: "{1..<1::nat} = {}" "{1..<2::nat} = {1}" "{1..<3::nat} = {1, 2}" by auto
  have n: "TCP_TUNNEL_ATTEMPTS = Suc (Suc (Suc 0))" "(1::nat) + 1 = 2" "(2::nat) + 1 = 3"
    by (simp_all add: TCP_TUNNEL_ATTEMPTS_def)
  have "connect_tcp_tunnel_with_retries attempt = Inr t \<longleftrightarrow>
     attempt 1 = Some (Inr t)
     \<or> (\<forall>u. attempt 1 \<noteq> Some (Inr u)) \<and> (attempt 2 = Some (Inr t)
        \<or> (\<forall>u. attempt 2 \<noteq> Some (Inr u)) \<and> (attempt 3 = Some (Inr t)
           \<or> (\<forall>u. attempt 3 \<noteq> Some (Inr u)) \<and> retry_loop attempt (3 + 1) 0 [] = Inr t))"
    unfolding connect_tcp_tunnel_with_retries_def n(1) retry_step n(2,3) ..
  then show ?thesis by (simp only: bex_simps ball_simps r retry_loop.simps) auto
qed

text \<open>What the automatic choice comes to: at most two attempts, and what each leaves in the cache.\<close>

lemma connect_tunnel_auto_run:
  assumes "first = (case preferred ttl now d key of Some k \<Rightarrow> k | None \<Rightarrow> Qcp)"
  shows "connect_tunnel_auto net io ttl now AutoMode key d active = (case try_kind net first of
        Inr t \<Rightarrow> (Inr t, snd (note_success io now key first d), kind_str first)
      | Inl e \<Rightarrow> (case try_kind net (alternate first) of
          Inr t \<Rightarrow> (Inr t, snd (note_success io now key (alternate first) (snd (note_failure io key first e d))), kind_str (alternate first))
        | Inl e' \<Rightarrow> (Inl (''all tunnel transports failed ('' @ join_errors [kind_str first @ '': '' @ e, kind_str (alternate first) @ '': '' @ e'] @ '')''),
            snd (note_failure io key (alternate first) e' (snd (note_failure io key first e d))), active)))"
proof -
  have "map kind (choices ttl now d AutoMode key) = [first, alternate first]"
    using assms by (auto simp: choices_def alternate_def split: option.split)
  then obtain c1 c2 where c: "choices ttl now d AutoMode key = [c1, c2]" "kind c1 = first" "kind c2 = alternate first"
    by (auto simp: map_eq_Cons_conv)
  then show ?thesis
    by (cases "try_kind net first"; cases "try_kind net (alternate first)") (simp_all add: connect_tunnel_auto_def)
qed

text \<open>\<^bold>\<open>C34\<close>: automatic mode opens a tunnel if either transport can. It tries the remembered
  transport first, or QCP when none is remembered, and then the other; it fails only when both do,
  TCP after three attempts. After a success that could be written, the transport that worked is the
  one remembered for that server, and it is tried first until the time to live has passed.\<close>

theorem auto_transport:
  assumes "current_version d" "rename_ok io" "dir_ok io" "temp_ok io" "0 < ttl"
    and "connect_tunnel_auto net io ttl now AutoMode key d active = (res, d', active')"
    and "first = (case preferred ttl now d key of Some k \<Rightarrow> k | None \<Rightarrow> Qcp)"
  shows "(\<forall>t. try_kind net first = Inr t \<longrightarrow> res = Inr t \<and> active' = kind_str first
        \<and> (\<forall>later. later - now \<le> ttl \<longrightarrow> preferred ttl later d' key = Some first))
    \<and> (\<forall>e t. try_kind net first = Inl e \<and> try_kind net (alternate first) = Inr t \<longrightarrow>
          res = Inr t \<and> active' = kind_str (alternate first)
        \<and> (\<forall>later. later - now \<le> ttl \<longrightarrow> preferred ttl later d' key = Some (alternate first)))
    \<and> (\<forall>e e'. try_kind net first = Inl e \<and> try_kind net (alternate first) = Inl e' \<longrightarrow>
          (\<exists>msg. res = Inl msg) \<and> active' = active
        \<and> (\<forall>now' key'. preferred ttl now' d' key' = preferred ttl now' d key'))
    \<and> (\<forall>t. try_kind net Tcp = Inr t \<longleftrightarrow>
         (\<exists>j \<in> {1, 2, 3}. tcp_attempts net j = Some (Inr t) \<and> (\<forall>j' \<in> {1..<j}. \<forall>u. tcp_attempts net j' \<noteq> Some (Inr u))))"
proof -
  have ok: "fst (note_success io n ky k dd)" for n ky k dd
    using assms(2-4) by (simp add: note_success_def Let_def write_cache_def)
  note pref = note_success_preferred[OF ok assms(5)]
  have fl: "preferred ttl n (snd (note_failure io ky k err dd)) ky' = preferred ttl n dd ky'" if "current_version dd" for n ky k err dd ky'
    by (rule note_failure_preferred[OF that assms(2)])
  note run = connect_tunnel_auto_run[OF assms(7), of net io active, unfolded assms(6)]
  have tcp: "try_kind net Tcp = Inr t \<longleftrightarrow>
         (\<exists>j \<in> {1, 2, 3}. tcp_attempts net j = Some (Inr t) \<and> (\<forall>j' \<in> {1..<j}. \<forall>u. tcp_attempts net j' \<noteq> Some (Inr u)))" for t
    using three_attempts[of "tcp_attempts net" t] by (simp add: try_kind_def)
  show ?thesis
  proof (intro conjI allI impI)
    fix t later assume "try_kind net first = Inr t"
    with run have r: "res = Inr t" "active' = kind_str first" "d' = snd (note_success io now key first d)" by simp_all
    then show "res = Inr t" "active' = kind_str first" by simp_all
    show "preferred ttl later d' key = Some first" if "later - now \<le> ttl" using r(3) pref that by simp
  next
    fix e t later assume "try_kind net first = Inl e \<and> try_kind net (alternate first) = Inr t"
    with run have r: "res = Inr t" "active' = kind_str (alternate first)"
      "d' = snd (note_success io now key (alternate first) (snd (note_failure io key first e d)))" by simp_all
    then show "res = Inr t" "active' = kind_str (alternate first)" by simp_all
    show "preferred ttl later d' key = Some (alternate first)" if "later - now \<le> ttl" using r(3) pref that by simp
  next
    fix e e' now' key' assume "try_kind net first = Inl e \<and> try_kind net (alternate first) = Inl e'"
    with run have r: "\<exists>msg. res = Inl msg" "active' = active"
      "d' = snd (note_failure io key (alternate first) e' (snd (note_failure io key first e d)))" by simp_all
    then show "\<exists>msg. res = Inl msg" "active' = active" by simp_all
    show "preferred ttl now' d' key' = preferred ttl now' d key'"
      using r(3) by (simp add: fl[OF note_failure_current[OF assms(1)]] fl[OF assms(1)])
  next
    fix t show "try_kind net Tcp = Inr t \<longleftrightarrow>
         (\<exists>j \<in> {1, 2, 3}. tcp_attempts net j = Some (Inr t) \<and> (\<forall>j' \<in> {1..<j}. \<forall>u. tcp_attempts net j' \<noteq> Some (Inr u)))"
      by (rule tcp)
  qed
qed

definition demo_io :: write_io where
  "demo_io = \<lparr>dir_ok = True, temp_ok = True, rename_ok = True, target_exists = True, remove_ok = True, rename_again_ok = True\<rparr>"

definition demo_net :: "nat network" where
  "demo_net = \<lparr>qcp_attempt = None, tcp_attempts = (\<lambda>j. if j = 2 then Some (Inr 7) else Some (Inl ''eof'')), probe_timeout_ms = 2000\<rparr>"

theorem auto_transport_witness:
  "\<exists>d'. connect_tunnel_auto demo_net demo_io 60 100 AutoMode ''k'' Missing [] = (Inr 7, d', ''tcp'')
     \<and> preferred 60 130 d' ''k'' = Some Tcp"
proof -
  obtain res d' a where h: "connect_tunnel_auto demo_net demo_io 60 100 AutoMode ''k'' Missing [] = (res, d', a)"
    by (metis prod.exhaust)
  have "preferred 60 100 Missing ''k'' = None"
    by (simp add: preferred_def read_cache_def default_cache_def)
  then have f: "Qcp = (case preferred 60 100 Missing ''k'' of Some k \<Rightarrow> k | None \<Rightarrow> Qcp)" by simp
  have k: "\<exists>e. try_kind demo_net Qcp = Inl e" "try_kind demo_net Tcp = Inr 7" "alternate Qcp = Tcp" "kind_str Tcp = ''tcp''"
    by (simp_all add: try_kind_def demo_net_def connect_tcp_tunnel_with_retries_def TCP_TUNNEL_ATTEMPTS_def
        numeral_3_eq_3 alternate_def kind_str_def)
  have c: "current_version Missing" "rename_ok demo_io" "dir_ok demo_io" "temp_ok demo_io" "(0::nat) < 60" "(130::nat) - 100 \<le> 60"
    by (simp_all add: current_version_def demo_io_def)
  show ?thesis
    using auto_transport[OF c(1-5) h f] k c(6) h by auto
qed

text \<open>Recording a failure can bring back preferences of another version. A cache file whose
  version is not the current one is ignored when a transport is chosen; but recording a failure, for
  whatever server, keeps its entries and stamps the file with the current version, and from then on
  they count.\<close>

theorem stale_version_revived:
  assumes "rename_ok io" "dir_ok io" "temp_ok io" "version c \<noteq> CACHE_VERSION" "0 < ttl"
    and "hm_get (entries c) key' = Some e" "now - updated_at_unix e \<le> ttl" "key' \<noteq> key"
  shows "preferred ttl now (Holds c) key' = None
    \<and> preferred ttl now (snd (note_failure io key k err (Holds c))) key' = parse_kind (selected e)"
  using assms by (simp add: preferred_def read_cache_def note_failure_def read_or_default_def write_cache_def Let_def)

theorem stale_version_revived_witness:
  "preferred 60 100 (Holds \<lparr>version = 9, entries = [(''s'', default_entry\<lparr>selected := ''tcp'', updated_at_unix := 90\<rparr>)]\<rparr>) ''s'' = None
   \<and> preferred 60 100 (snd (note_failure demo_io ''k'' Qcp ''eof''
       (Holds \<lparr>version = 9, entries = [(''s'', default_entry\<lparr>selected := ''tcp'', updated_at_unix := 90\<rparr>)]\<rparr>))) ''s'' = Some Tcp"
  using stale_version_revived[of demo_io "\<lparr>version = 9, entries = [(''s'', default_entry\<lparr>selected := ''tcp'', updated_at_unix := 90\<rparr>)]\<rparr>"
      60 "''s''" "default_entry\<lparr>selected := ''tcp'', updated_at_unix := 90\<rparr>" 100 "''k''" Qcp "''eof''"]
  by (simp add: demo_io_def CACHE_VERSION_def hm_get_def parse_kind_def)

end
