(* ===== verification/Client_Open.thy ===== *)
theory Client_Open
  imports Client_Session Transport Ndjson
begin

text \<open>
  The client's session as a whole (\<^verbatim>\<open>session\<close> and \<^verbatim>\<open>handle_open\<close> of \<^verbatim>\<open>cross233-client/src/client.rs\<close>): the loop
  over what arrives on the control channel, down to pieces of lines; the tunnels it opens on the server's
  request; and the state that its status page shows (\<^verbatim>\<open>cross233-client/src/web.rs\<close>).
\<close>

section \<open>The loop\<close>

text \<open>What wakes the loop: the shutdown signal, the keep-alive tick, a piece of the stream that ends with a
  line feed or has none, the end of the stream.\<close>

datatype client_event = Shutdown | Tick | Piece string | PeerClosed

definition client_line :: "(string \<Rightarrow> message option) \<Rightarrow> nat \<Rightarrow> string \<Rightarrow> client_session \<Rightarrow> turn" where
  "client_line parse now line s =
     (if \<not> utf8_valid line then Return (Inl ''stream did not contain valid UTF-8'')
      else (case parse (trim line) of
              None \<Rightarrow> Return (Inl (''invalid message: '' @ trim line))
            | Some msg \<Rightarrow> client_message now msg s))"

text \<open>One turn, with the part of a line that the pending read has taken; a tick cancels that read, and
  \<open>kept\<close> is what the asynchronous runtime keeps of it.\<close>

definition client_turn ::
  "(string \<Rightarrow> message option) \<Rightarrow> (string \<Rightarrow> string) \<Rightarrow> nat \<Rightarrow> client_event \<Rightarrow> string \<Rightarrow> client_session \<Rightarrow> string \<times> turn" where
  "client_turn parse kept now ev part s =
     (case ev of
        Shutdown \<Rightarrow> (part, Return (Inr ()))
      | Tick \<Rightarrow> (kept part, client_tick now s)
      | Piece seg \<Rightarrow> if LF \<in> set seg then ([], client_line parse now (part @ seg) s) else (part @ seg, Go s)
      | PeerClosed \<Rightarrow> if part = [] then ([], Return (Inl ''connection closed'')) else ([], client_line parse now part s))"

text \<open>The loop ends with the result of the session, or is still running.\<close>

fun client_loop ::
  "(string \<Rightarrow> message option) \<Rightarrow> (string \<Rightarrow> string) \<Rightarrow> (nat \<times> client_event) list \<Rightarrow> string \<Rightarrow> client_session
    \<Rightarrow> (string + unit) + client_session" where
  "client_loop parse kept [] part s = Inr s"
| "client_loop parse kept ((now, ev) # evs) part s =
     (case client_turn parse kept now ev part s of
        (part', Go s') \<Rightarrow> client_loop parse kept evs part' s'
      | (_, Return r) \<Rightarrow> Inl r)"

section \<open>The status\<close>

record web_state_data =
  connected :: bool
  w_server_addr :: string
  w_client_id :: string
  w_services :: "service list"
  bytes_in :: u64
  bytes_out :: u64
  tunnels_active :: u32
  w_qcp_port :: u16
  w_qcp_tunnel_port :: u16
  w_transport :: string
  active_tunnel_transport :: string
  w_transport_cache_file :: string

definition new_state :: web_state_data where
  "new_state = \<lparr>connected = False, w_server_addr = [], w_client_id = [], w_services = [], bytes_in = 0, bytes_out = 0,
     tunnels_active = 0, w_qcp_port = 0, w_qcp_tunnel_port = 0, w_transport = [], active_tunnel_transport = [],
     w_transport_cache_file = []\<rparr>"

text \<open>What the ready message of the server changes; the two ports fall back to the configured ones.\<close>

definition note_ready :: "message \<Rightarrow> u16 \<Rightarrow> u16 \<Rightarrow> string \<Rightarrow> string \<Rightarrow> web_state_data \<Rightarrow> web_state_data" where
  "note_ready ready qcp_cfg qcp_tunnel_cfg transport cache_path w =
     w\<lparr>connected := True, w_services := m_services ready,
       w_qcp_port := (case m_qcp_port ready of Some p \<Rightarrow> p | None \<Rightarrow> qcp_cfg),
       w_qcp_tunnel_port := (case m_qcp_tunnel_port ready of Some p \<Rightarrow> p | None \<Rightarrow> qcp_tunnel_cfg),
       w_transport := transport, active_tunnel_transport := [], w_transport_cache_file := cache_path\<rparr>"

definition tunnel_opened :: "web_state_data \<Rightarrow> web_state_data" where
  "tunnel_opened w = w\<lparr>tunnels_active := tunnels_active w + 1\<rparr>"

definition tunnel_closed :: "web_state_data \<Rightarrow> web_state_data" where
  "tunnel_closed w = w\<lparr>tunnels_active := (if tunnels_active w = 0 then 0 else tunnels_active w - 1)\<rparr>"

section \<open>Opening a tunnel on request\<close>

text \<open>What \<^verbatim>\<open>handle_open\<close> does: the directory it serves, if it is a static service; the bytes it writes to the local
  service before it copies; its result; the cache and the status. Arguments stand for the
  local connection (its local address, or none), whether it takes the header, and what the copy of both
  directions counts, or that it fails.\<close>

record open_outcome =
  served_dir :: "string option"
  local_written :: bytes
  open_result :: "string + unit"
  open_cache :: disk
  open_web :: web_state_data

definition handle_open ::
  "'t network \<Rightarrow> write_io \<Rightarrow> nat \<Rightarrow> nat \<Rightarrow> transport_mode \<Rightarrow> string \<Rightarrow> ('t \<Rightarrow> string \<Rightarrow> string + unit)
    \<Rightarrow> socket_addr option \<Rightarrow> bool \<Rightarrow> (nat \<times> nat) option \<Rightarrow> string \<Rightarrow> service \<Rightarrow> disk \<Rightarrow> web_state_data \<Rightarrow> open_outcome" where
  "handle_open net io ttl now mode key serve_dir local_conn header_ok copied remote svc d w =
     (let (res, d', act) = connect_tunnel_auto net io ttl now mode key d (active_tunnel_transport w);
          w' = w\<lparr>active_tunnel_transport := act\<rparr>
      in if effective_type svc = ''static'' then
           (case res of
              Inl e \<Rightarrow> \<lparr>served_dir = None, local_written = [], open_result = Inl e, open_cache = d', open_web = w'\<rparr>
            | Inr t \<Rightarrow> \<lparr>served_dir = Some (local_addr svc), local_written = [], open_result = serve_dir t (local_addr svc),
                       open_cache = d', open_web = tunnel_closed (tunnel_opened w')\<rparr>)
         else (case local_conn of
             None \<Rightarrow> \<lparr>served_dir = None, local_written = [], open_result = Inl (''connect local '' @ local_addr svc),
                      open_cache = d, open_web = w\<rparr>
           | Some la \<Rightarrow>
               let header = local_preamble svc remote la
               in if proxy_protocol svc \<and> \<not> header_ok
                  then \<lparr>served_dir = None, local_written = [], open_result = Inl ''write error'', open_cache = d, open_web = w\<rparr>
                  else (case res of
                    Inl e \<Rightarrow> \<lparr>served_dir = None, local_written = header, open_result = Inl e, open_cache = d', open_web = w'\<rparr>
                  | Inr t \<Rightarrow>
                      (case copied of
                         None \<Rightarrow> \<lparr>served_dir = None, local_written = header, open_result = Inl ''copy error'',
                                  open_cache = d', open_web = tunnel_opened w'\<rparr>
                       | Some (n_in, n_out) \<Rightarrow>
                           \<lparr>served_dir = None, local_written = header, open_result = Inr (), open_cache = d',
                            open_web = (let w2 = tunnel_opened w' in
                              tunnel_closed (w2\<lparr>bytes_in := bytes_in w2 + of_nat n_in, bytes_out := bytes_out w2 + of_nat n_out\<rparr>))\<rparr>))))"

section \<open>The directory of a tunnel\<close>

text \<open>Over a tunnel the server can read any directory. A request for a static response is answered
  from the client's own configuration only, so that a server message cannot select an arbitrary local
  directory, as the source says. An \<^verbatim>\<open>open\<close> message does just that: it carries a whole service, and
  if that is of type static the client serves the directory it names, whatever the client's
  configuration. The same is true of the address that any other service is connected to.\<close>

theorem open_serves_any_directory:
  fixes net :: "'t network"
  assumes "effective_type svc = ''static''" "\<exists>t. fst (connect_tunnel_auto net io ttl now mode key d (active_tunnel_transport w)) = Inr t"
  shows "client_message now (new_open i addr laddr svc) s
      = Go (s\<lparr>last_pong := now, opened := opened s @ [(i, addr, svc)]\<rparr>)
    \<and> served_dir (handle_open net io ttl now mode key serve_dir local_conn header_ok copied addr svc d w) = Some (local_addr svc)"
proof
  show "client_message now (new_open i addr laddr svc) s
      = Go (s\<lparr>last_pong := now, opened := opened s @ [(i, addr, svc)]\<rparr>)"
    by (simp add: client_message_def new_open_def default_message_def opt_str_def Let_def)
  show "served_dir (handle_open net io ttl now mode key serve_dir local_conn header_ok copied addr svc d w) = Some (local_addr svc)"
    using assms by (auto simp: handle_open_def Let_def split: prod.split)
qed

theorem open_serves_any_directory_witness:
  "served_dir (handle_open demo_net demo_io 60 0 TcpMode ''k'' (\<lambda>_ _. Inr ()) None True None ''1.2.3.4:5''
     (default_service\<lparr>svc_ty := Some ''static'', local_addr := ''/etc''\<rparr>) Missing new_state) = Some ''/etc''"
proof -
  let ?svc = "default_service\<lparr>svc_ty := Some ''static'', local_addr := ''/etc''\<rparr>"
  have "effective_type ?svc = ''static''" by (simp add: effective_type_def)
  moreover have "\<exists>t. fst (connect_tunnel_auto demo_net demo_io 60 0 TcpMode ''k'' Missing (active_tunnel_transport new_state)) = Inr t"
    by (simp add: connect_tunnel_auto_def choices_def try_kind_def connect_tcp_tunnel_with_retries_def TCP_TUNNEL_ATTEMPTS_def
        demo_net_def eval_nat_numeral)
  ultimately show ?thesis
    using open_serves_any_directory[of ?svc demo_net demo_io 60 0 TcpMode "''k''" Missing new_state] by simp
qed

section \<open>Keep-alive and half a line\<close>

text \<open>A keep-alive tick while only a part of a server's line has arrived ends the session: the rest of the
  line is no message, and the client, unlike the server, treats that as an error.\<close>

theorem tick_ends_session:
  assumes "kept a = []" "LF \<notin> set a" "now - last_pong s \<le> secs 60" "parse (trim (b @ [LF])) = None"
  shows "\<exists>e. client_loop parse kept [(now, Piece a), (now, Tick), (now, Piece (b @ [LF]))] [] s = Inl (Inl e)"
  using assms by (simp add: client_turn_def client_tick_def client_line_def split: if_splits)

end
