(* ===== verification/Key_Files.thy ===== *)
theory Key_Files
  imports Auth
begin

text \<open>
  The files that hold the server's secrets (\<^verbatim>\<open>cross233-protocol/src/crypto.rs\<close> with its wrappers in
  \<^verbatim>\<open>cross233-server/src/crypto.rs\<close>) and the TLS configurations made from them (\<^verbatim>\<open>cross233-protocol/src/tls.rs\<close>):
  each is loaded, or made and written when it is missing. The file system, the PEM parser, the checks of
  rustls, generated certificates, random bytes and the digest of a file are arguments. A write creates the
  directory, writes the file and sets its permissions; it fails when one of these does. The content of a file is a string
  of bytes.
\<close>

section \<open>Files\<close>

record file_env =
  file_exists :: "string \<Rightarrow> bool"
  file_read :: "string \<Rightarrow> string option"
  file_write :: "string \<Rightarrow> bool"

definition file_text :: "file_env \<Rightarrow> string \<Rightarrow> string option" where
  "file_text fe p = (case file_read fe p of Some c \<Rightarrow> if utf8_valid c then Some c else None | None \<Rightarrow> None)"

text \<open>The files after a write.\<close>

definition written :: "string \<times> string \<Rightarrow> file_env \<Rightarrow> file_env" where
  "written w fe = fe\<lparr>file_exists := (file_exists fe)(fst w := True), file_read := (file_read fe)(fst w := Some (snd w))\<rparr>"

datatype key_error =
    WriteFailed string
  | KeyReadFailed string
  | GenerateFailed
  | CertReadFailed string
  | CertParseFailed
  | NoCertificates string
  | PrivateKeyParseFailed
  | NoPrivateKey string
  | PairRejected

section \<open>The authentication key\<close>

text \<open>What is written, and the key. The 32 random bytes are an argument.\<close>

definition load_or_create_auth_key ::
  "file_env \<Rightarrow> string \<Rightarrow> string \<Rightarrow> nat list \<Rightarrow> (string \<times> string) list \<times> (key_error + string)" where
  "load_or_create_auth_key fe path provided bs =
     (let create = (\<lambda>k. ([(path, k)], if file_write fe path then Inr k else Inl (WriteFailed path)))
      in if provided \<noteq> [] then (if file_exists fe path then ([], Inr provided) else create provided)
         else if file_exists fe path
         then (case file_text fe path of
                 None \<Rightarrow> ([], Inl (KeyReadFailed path))
               | Some c \<Rightarrow> if trim c \<noteq> [] then ([], Inr (trim c)) else create (hex_encode bs))
         else create (hex_encode bs))"

definition cidr_contains :: "(string \<Rightarrow> 'net option) \<Rightarrow> ('net \<Rightarrow> 'ip \<Rightarrow> bool) \<Rightarrow> string list \<Rightarrow> 'ip \<Rightarrow> bool" where
  "cidr_contains parse contains cidrs ip \<longleftrightarrow>
     list_ex (\<lambda>c. case parse c of Some net \<Rightarrow> contains net ip | None \<Rightarrow> False) cidrs"

section \<open>Certificates\<close>

text \<open>Certificates are read one by one, each of which may fail; a private key may fail or be missing. rustls may
  refuse a root, or a chain with its key.\<close>

record ('c, 'k) pem =
  pem_certs :: "string \<Rightarrow> 'c option list"
  pem_key :: "string \<Rightarrow> 'k option option"
  add_root :: "'c \<Rightarrow> bool"
  cert_matches :: "'c list \<Rightarrow> 'k \<Rightarrow> bool"

fun all_ok :: "'a option list \<Rightarrow> 'a list option" where
  "all_ok [] = Some []"
| "all_ok (None # xs) = None"
| "all_ok (Some x # xs) = map_option (Cons x) (all_ok xs)"

record ('c, 'k) tls_setup =
  server_chain :: "'c list"
  server_key :: 'k
  fingerprint :: string

text \<open>\<open>digest\<close> is the digest of a file in hexadecimal.\<close>

definition load_cert ::
  "('c, 'k) pem \<Rightarrow> (string \<Rightarrow> string) \<Rightarrow> file_env \<Rightarrow> string \<Rightarrow> string \<Rightarrow> key_error + ('c, 'k) tls_setup" where
  "load_cert pem digest fe cert_path key_path =
     (case file_read fe cert_path of
        None \<Rightarrow> Inl (CertReadFailed cert_path)
      | Some cert_pem \<Rightarrow>
          (case file_read fe key_path of
             None \<Rightarrow> Inl (CertReadFailed key_path)
           | Some key_pem \<Rightarrow>
               (case all_ok (pem_certs pem cert_pem) of
                  None \<Rightarrow> Inl CertParseFailed
                | Some certs \<Rightarrow>
                    if certs = [] then Inl (NoCertificates cert_path)
                    else (case pem_key pem key_pem of
                            None \<Rightarrow> Inl PrivateKeyParseFailed
                          | Some None \<Rightarrow> Inl (NoPrivateKey key_path)
                          | Some (Some key) \<Rightarrow>
                              if \<not> cert_matches pem certs key then Inl PairRejected
                              else Inr \<lparr>server_chain = certs, server_key = key, fingerprint = digest cert_pem\<rparr>))))"

text \<open>When one of the two files is missing both are written; \<open>fresh\<close> is the generated pair.\<close>

definition load_or_create_cert ::
  "('c, 'k) pem \<Rightarrow> (string \<Rightarrow> string) \<Rightarrow> (string \<times> string) option \<Rightarrow> file_env \<Rightarrow> string \<Rightarrow> string
    \<Rightarrow> (string \<times> string) list \<times> (key_error + ('c, 'k) tls_setup)" where
  "load_or_create_cert pem digest fresh fe cert_path key_path =
     (if file_exists fe cert_path \<and> file_exists fe key_path then ([], load_cert pem digest fe cert_path key_path)
      else (case fresh of
              None \<Rightarrow> ([], Inl GenerateFailed)
            | Some (cert_pem, key_pem) \<Rightarrow>
                if \<not> file_write fe cert_path then ([(cert_path, cert_pem)], Inl (WriteFailed cert_path))
                else if \<not> file_write fe key_path then ([(cert_path, cert_pem), (key_path, key_pem)], Inl (WriteFailed key_path))
                else ([(cert_path, cert_pem), (key_path, key_pem)],
                      load_cert pem digest (written (key_path, key_pem) (written (cert_path, cert_pem) fe)) cert_path key_path)))"

section \<open>Helpers for TLS\<close>

text \<open>The helpers of \<^verbatim>\<open>tls.rs\<close> work on certificates and keys as bytes. Where they panic the result is \<open>None\<close>.\<close>

type_synonym der_pem = "(string, string) pem"

definition tls_server_config :: "der_pem \<Rightarrow> string \<Rightarrow> string \<Rightarrow> (string list \<times> string) option" where
  "tls_server_config pem cert_der key_der = (if cert_matches pem [cert_der] key_der then Some ([cert_der], key_der) else None)"

definition tls_client_config :: "der_pem \<Rightarrow> string \<Rightarrow> string list option" where
  "tls_client_config pem trusted_cert_der = (if add_root pem trusted_cert_der then Some [trusted_cert_der] else None)"

definition server_config_pem :: "der_pem \<Rightarrow> string \<Rightarrow> string \<Rightarrow> (string list \<times> string) option" where
  "server_config_pem pem cert_pem key_pem =
     (case all_ok (pem_certs pem cert_pem) of
        None \<Rightarrow> None
      | Some certs \<Rightarrow>
          (case pem_key pem key_pem of
             Some (Some key) \<Rightarrow> if cert_matches pem certs key then Some (certs, key) else None
           | _ \<Rightarrow> None))"

definition client_config_pem :: "der_pem \<Rightarrow> string \<Rightarrow> string list option" where
  "client_config_pem pem trusted_pem =
     (case all_ok (pem_certs pem trusted_pem) of
        None \<Rightarrow> None
      | Some certs \<Rightarrow> if list_all (add_root pem) certs then Some certs else None)"

definition load_cert_key_der :: "der_pem \<Rightarrow> string \<Rightarrow> string \<Rightarrow> (string \<times> string) option" where
  "load_cert_key_der pem cert_pem key_pem =
     (case all_ok (pem_certs pem cert_pem) of
        None \<Rightarrow> None
      | Some certs \<Rightarrow>
          (case pem_key pem key_pem of
             Some (Some key) \<Rightarrow> (case certs of [] \<Rightarrow> None | cert # _ \<Rightarrow> Some (cert, key))
           | _ \<Rightarrow> None))"

definition load_trusted_cert_der :: "der_pem \<Rightarrow> string \<Rightarrow> string option" where
  "load_trusted_cert_der pem p =
     (case all_ok (pem_certs pem p) of
        None \<Rightarrow> None
      | Some certs \<Rightarrow> (case certs of [] \<Rightarrow> None | cert # _ \<Rightarrow> Some cert))"

text \<open>For a file with one certificate the two ways to a configuration agree.\<close>

lemma der_and_pem_agree:
  assumes "all_ok (pem_certs pem cert_pem) = Some [c]"
  shows "server_config_pem pem cert_pem key_pem
      = (case load_cert_key_der pem cert_pem key_pem of Some (cert, key) \<Rightarrow> tls_server_config pem cert key | None \<Rightarrow> None)"
    and "client_config_pem pem cert_pem
      = (case load_trusted_cert_der pem cert_pem of Some cert \<Rightarrow> tls_client_config pem cert | None \<Rightarrow> None)"
  using assms
  by (auto simp: server_config_pem_def load_cert_key_der_def tls_server_config_def client_config_pem_def
      load_trusted_cert_der_def tls_client_config_def split: option.split)

section \<open>What is written is what is read\<close>

definition after_writes :: "(string \<times> string) list \<Rightarrow> file_env \<Rightarrow> file_env" where
  "after_writes ws fe = fold written ws fe"

lemma after_writes_simps [simp]:
  "after_writes [] fe = fe" "after_writes (w # ws) fe = after_writes ws (written w fe)"
  by (simp_all add: after_writes_def)

lemma written_sel [simp]:
  "file_exists (written w fe) p \<longleftrightarrow> p = fst w \<or> file_exists fe p"
  "file_read (written w fe) p = (if p = fst w then Some (snd w) else file_read fe p)"
  "file_write (written w fe) = file_write fe"
  by (auto simp: written_def)

lemma load_key_not_empty:
  "load_or_create_auth_key fe path provided bs = (ws, Inr k) \<Longrightarrow> length bs = 32 \<Longrightarrow> k \<noteq> []"
  using length_hex_encode[of bs]
  by (auto simp: load_or_create_auth_key_def Let_def split: if_splits option.splits)

text \<open>A generated key consists of hexadecimal digits and is read back as it was written.\<close>

lemma hex_word: "list_all (\<lambda>b. b < 256) bs \<Longrightarrow> list_all word_char (hex_encode bs)"
proof -
  have "word_char (hex_lower d)" if "d < 16" for d
    using that by (auto simp: word_char_def ws_ascii_def byte_def hex_lower_def)
  moreover have "b div 16 < 16" if "b < 256" for b :: nat using that by arith
  ultimately show "list_all (\<lambda>b. b < 256) bs \<Longrightarrow> list_all word_char (hex_encode bs)"
    by (induction bs) (simp_all add: hex_encode_def)
qed

lemma load_key_stable:
  assumes "load_or_create_auth_key fe path provided bs = (ws, Inr k)" "length bs = 32" "list_all (\<lambda>b. b < 256) bs"
  shows "load_or_create_auth_key (after_writes ws fe) path provided bs' = ([], Inr k)"
proof -
  have n: "hex_encode bs \<noteq> []" using length_hex_encode[of bs] assms(2) by auto
  have w: "list_all word_char (hex_encode bs)" by (rule hex_word[OF assms(3)])
  have "utf8_valid (hex_encode bs)" by (rule utf8_valid_ascii) (use w in \<open>auto simp: list_all_iff word_char_def\<close>)
  moreover have "trim (hex_encode bs) = hex_encode bs" using w n by (intro trim_word) (auto simp: list_all_iff)
  ultimately show ?thesis using assms(1) n
    by (cases "provided = []") (auto simp: load_or_create_auth_key_def file_text_def Let_def split: if_splits option.splits)
qed

lemma load_cert_other:
  "file_read fe cert_path = file_read fe' cert_path \<Longrightarrow> file_read fe key_path = file_read fe' key_path
    \<Longrightarrow> load_cert pem digest fe cert_path key_path = load_cert pem digest fe' cert_path key_path"
  by (simp add: load_cert_def cong: option.case_cong)

lemma load_cert_stable:
  assumes "load_or_create_cert pem digest fresh fe cert_path key_path = (ws, Inr t)"
  shows "load_or_create_cert pem digest fresh' (after_writes ws fe) cert_path key_path = ([], Inr t)"
  using assms by (auto simp: load_or_create_cert_def split: if_splits option.splits)

lemma after_writes_append [simp]: "after_writes (ws @ ws') fe = after_writes ws' (after_writes ws fe)"
  by (simp add: after_writes_def)

lemma after_writes_other:
  assumes "p \<notin> fst ` set ws"
  shows "file_exists (after_writes ws fe) p = file_exists fe p" "file_read (after_writes ws fe) p = file_read fe p"
    "file_write (after_writes ws fe) = file_write fe"
  using assms by (induction ws arbitrary: fe) auto

lemma load_key_other:
  "p \<notin> fst ` set ws \<Longrightarrow> load_or_create_auth_key (after_writes ws fe) p provided bs = load_or_create_auth_key fe p provided bs"
  by (simp add: load_or_create_auth_key_def file_text_def after_writes_other)

lemma load_cert_writes:
  "load_or_create_cert pem digest fresh fe cert_path key_path = (ws, t) \<Longrightarrow> fst ` set ws \<subseteq> {cert_path, key_path}"
  by (auto simp: load_or_create_cert_def split: if_splits option.splits)

end
