(* ===== verification/Client_Run.thy ===== *)
theory Client_Run
  imports Client_Config Client_Open Net_Addr Key_Files
begin

text \<open>
  How a client connects and stays connected: its TLS set-up and the loop around its sessions (\<^verbatim>\<open>cross233-client/src/client.rs\<close>),
  the two ways to open a tunnel (\<^verbatim>\<open>tunnel.rs\<close>, \<^verbatim>\<open>qcp.rs\<close>) and the local status page (\<^verbatim>\<open>web.rs\<close>). The network, TLS and the PEM
  parser are arguments.
\<close>

section \<open>TLS\<close>

datatype tls_error =
  CaRequired | CaUnreadable string | CaParse | CaAdd | KeyFileUnreadable string | CertParse | KeyParse | NoKey | NoCert | BadPair

text \<open>The certificates a server may be verified by, or that it is not verified.\<close>

datatype 'c verifier = NoVerifier | Roots "'c list"

record ('c, 'k) tls_config =
  tls_verifier :: "'c verifier"
  client_auth :: "('c list \<times> 'k) option"

fun load_roots :: "('c \<Rightarrow> bool) \<Rightarrow> 'c option list \<Rightarrow> 'c list \<Rightarrow> tls_error + 'c list" where
  "load_roots add [] roots = Inr roots"
| "load_roots add (None # cs) roots = Inl CaParse"
| "load_roots add (Some c # cs) roots = (if add c then load_roots add cs (roots @ [c]) else Inl CaAdd)"

definition build_verifier :: "('c, 'k) pem \<Rightarrow> (string \<Rightarrow> string option) \<Rightarrow> client_config \<Rightarrow> tls_error + 'c verifier" where
  "build_verifier pem read cfg =
     (if cc_insecure cfg then Inr NoVerifier
      else if cc_ca_file cfg = [] then Inl CaRequired
      else (case read (cc_ca_file cfg) of
              None \<Rightarrow> Inl (CaUnreadable (cc_ca_file cfg))
            | Some data \<Rightarrow>
                (case load_roots (add_root pem) (pem_certs pem data) [] of
                   Inl e \<Rightarrow> Inl e
                 | Inr roots \<Rightarrow> Inr (Roots roots))))"

definition build_client_auth :: "('c, 'k) pem \<Rightarrow> (string \<Rightarrow> string option) \<Rightarrow> client_config \<Rightarrow> tls_error + ('c list \<times> 'k) option" where
  "build_client_auth pem read cfg =
     (if cc_key_file cfg = [] then Inr None
      else (case read (cc_key_file cfg) of
              None \<Rightarrow> Inl (KeyFileUnreadable (cc_key_file cfg))
            | Some data \<Rightarrow>
                (case all_ok (pem_certs pem data) of
                   None \<Rightarrow> Inl CertParse
                 | Some certs \<Rightarrow>
                     (case pem_key pem data of
                        None \<Rightarrow> Inl KeyParse
                      | Some None \<Rightarrow> Inl NoKey
                      | Some (Some key) \<Rightarrow>
                          if certs = [] then Inl NoCert
                          else if cert_matches pem certs key then Inr (Some (certs, key))
                          else Inl BadPair))))"

definition build_tls_config :: "('c, 'k) pem \<Rightarrow> (string \<Rightarrow> string option) \<Rightarrow> client_config \<Rightarrow> tls_error + ('c, 'k) tls_config" where
  "build_tls_config pem read cfg =
     (case build_verifier pem read cfg of
        Inl e \<Rightarrow> Inl e
      | Inr v \<Rightarrow> (case build_client_auth pem read cfg of
                   Inl e \<Rightarrow> Inl e
                 | Inr a \<Rightarrow> Inr \<lparr>tls_verifier = v, client_auth = a\<rparr>))"

section \<open>Reconnecting\<close>

text \<open>One turn of the loop: the end of a session with what it did to the status page, or of what it had done when the shutdown signal came; then a wait,
  which the signal may end as well.\<close>

datatype session_end = SessionOver "web_state_data \<Rightarrow> web_state_data" "string + unit" | SessionShutdown "web_state_data \<Rightarrow> web_state_data"

fun client_run :: "u64 \<Rightarrow> (session_end \<times> bool) list \<Rightarrow> web_state_data \<Rightarrow> u64 list \<times> bool \<times> web_state_data" where
  "client_run backoff [] w = ([], False, w)"
| "client_run backoff ((SessionShutdown f, _) # ts) w = ([], True, f w)"
| "client_run backoff ((SessionOver f res, stop) # ts) w =
     (let w1 = (f w)\<lparr>connected := False\<rparr>;
          b = (case res of Inr _ \<Rightarrow> 3 | Inl _ \<Rightarrow> backoff)
      in if stop then ([b], True, w1)
         else (case client_run (min (b * 2) 6) ts w1 of (waits, over, w2) \<Rightarrow> (b # waits, over, w2)))"

section \<open>Tunnels\<close>

definition rsplit_once :: "char \<Rightarrow> string \<Rightarrow> (string \<times> string) option" where
  "rsplit_once d s = (case split_once d (rev s) of Some (b, a) \<Rightarrow> Some (rev a, rev b) | None \<Rightarrow> None)"

definition server_host :: "string \<Rightarrow> string + string" where
  "server_host addr =
     (case strip_prefix ''['' addr of
        Some rest \<Rightarrow>
          (case split_once (CHR '']'') rest of
             None \<Rightarrow> Inl ''invalid bracketed server address''
           | Some (h, after) \<Rightarrow> if starts_with after '':'' then Inr h else Inl ''server address must include a port'')
      | None \<Rightarrow>
          (case rsplit_once (CHR '':'') addr of
             None \<Rightarrow> Inl ''server address must include a port''
           | Some (h, p) \<Rightarrow> if h = [] \<or> p = [] then Inl ''invalid server address'' else Inr h))"

text \<open>What the network does with one attempt, and the two messages of the server.\<close>

record dial_env =
  tcp_connects :: "string \<Rightarrow> bool"
  nodelay_ok :: bool
  lookup_host :: "string \<Rightarrow> u16 \<Rightarrow> string list option"
  qcp_dials :: "string \<Rightarrow> bool"
  name_ok :: "string \<Rightarrow> bool"
  tls_ok :: bool
  got_challenge :: "message option"
  got_reply :: "message option"

definition resolve_endpoint :: "dial_env \<Rightarrow> string \<Rightarrow> u16 \<Rightarrow> string + string" where
  "resolve_endpoint net addr qport =
     (case server_host addr of
        Inl e \<Rightarrow> Inl e
      | Inr h \<Rightarrow> (case lookup_host net h qport of
                   None \<Rightarrow> Inl ''resolve QCP server''
                 | Some [] \<Rightarrow> Inl ''no addresses found''
                 | Some (a # _) \<Rightarrow> Inr a))"

definition connect_tunnel_stream :: "dial_env \<Rightarrow> string \<Rightarrow> u16 \<Rightarrow> string + string" where
  "connect_tunnel_stream net addr qport =
     (if qport = 0 then Inl ''QCP tunnel transport is disabled by the server''
      else (case resolve_endpoint net addr qport of
              Inl e \<Rightarrow> Inl e
            | Inr endpoint \<Rightarrow> if qcp_dials net endpoint then Inr endpoint else Inl ''dial QCP tunnel''))"

definition connect_transport :: "dial_env \<Rightarrow> transport_kind \<Rightarrow> string \<Rightarrow> u16 \<Rightarrow> string + string" where
  "connect_transport net tk addr qport =
     (case tk of
        Tcp \<Rightarrow> if \<not> tcp_connects net addr then Inl ''tunnel TCP connect''
               else if \<not> nodelay_ok net then Inl ''set nodelay'' else Inr addr
      | Qcp \<Rightarrow> connect_tunnel_stream net addr qport)"

text \<open>The messages sent, and the endpoint of the tunnel.\<close>

definition connect_tunnel ::
  "(string \<Rightarrow> string \<Rightarrow> string) \<Rightarrow> dial_env \<Rightarrow> transport_kind \<Rightarrow> string \<Rightarrow> u16 \<Rightarrow> string \<Rightarrow> string \<Rightarrow> string
    \<Rightarrow> message list \<times> ((string + handshake_error) + string)" where
  "connect_tunnel mac net tk addr qport server_name key tunnel_id =
     (case connect_transport net tk addr qport of
        Inl e \<Rightarrow> ([], Inl (Inl e))
      | Inr endpoint \<Rightarrow>
          if \<not> name_ok net server_name then ([], Inl (Inl ''invalid server name''))
          else if \<not> tls_ok net then ([], Inl (Inl ''TLS handshake''))
          else (case authenticate_tunnel mac key tunnel_id (got_challenge net) (got_reply net) of
                  (out, Inl e) \<Rightarrow> (out, Inl (Inr e))
                | (out, Inr _) \<Rightarrow> (out, Inr endpoint)))"

section \<open>The status page\<close>

record config_response =
  cr_server_addr :: string
  cr_server_name :: string
  cr_client_id :: string
  cr_insecure :: bool
  cr_max_tunnels :: u32
  cr_web_addr :: string
  cr_qcp_port :: u16
  cr_qcp_tunnel_port :: u16
  cr_transport :: string
  cr_transport_cache_file :: string
  cr_services :: "service list"

text \<open>The status is the whole state.\<close>

definition get_status :: "web_state_data \<Rightarrow> web_state_data" where
  "get_status s = s"

definition client_get_config :: "web_state_data \<Rightarrow> config_response" where
  "client_get_config s = \<lparr>cr_server_addr = w_server_addr s, cr_server_name = ''cross233'', cr_client_id = w_client_id s,
     cr_insecure = False, cr_max_tunnels = 64, cr_web_addr = ''127.0.0.1:7721'', cr_qcp_port = w_qcp_port s,
     cr_qcp_tunnel_port = w_qcp_tunnel_port s, cr_transport = w_transport s,
     cr_transport_cache_file = w_transport_cache_file s, cr_services = w_services s\<rparr>"

text \<open>The state with which the client starts.\<close>

definition initial_web_state :: "client_config \<Rightarrow> web_state_data" where
  "initial_web_state cfg = new_state\<lparr>w_server_addr := cc_server cfg, w_client_id := cc_client_id cfg, w_services := enabled_services cfg\<rparr>"

section \<open>What holds\<close>

text \<open>A server that is not verified is used only on request. Whatever files there are, a client that is not configured as
  insecure gets a TLS set-up only with the certificates of its CA file, all of which were accepted; without a readable
  CA file it does not start.\<close>

theorem tls_verified_unless_insecure:
  assumes "\<not> cc_insecure cfg"
  shows "(\<forall>t. build_tls_config pem read cfg = Inr t \<longrightarrow>
      (\<exists>data roots. read (cc_ca_file cfg) = Some data \<and> pem_certs pem data = map Some roots \<and> list_all (add_root pem) roots
        \<and> tls_verifier t = Roots roots))
    \<and> (cc_ca_file cfg = [] \<or> read (cc_ca_file cfg) = None \<longrightarrow> (\<exists>e. build_tls_config pem read cfg = Inl e))"
proof -
  have roots: "load_roots add cs acc = Inr rs \<Longrightarrow> \<exists>new. rs = acc @ new \<and> cs = map Some new \<and> list_all add new"
    for add and cs :: "'a option list" and acc rs
  proof (induction add cs acc rule: load_roots.induct)
    case (3 add c cs acc)
    then show ?case by (auto split: if_splits intro: exI[of _ "c # _"])
  qed simp_all
  have "\<exists>data roots. read (cc_ca_file cfg) = Some data \<and> pem_certs pem data = map Some roots \<and> list_all (add_root pem) roots
      \<and> v = Roots roots" if "build_verifier pem read cfg = Inr v" for v
    using that assms by (auto simp: build_verifier_def split: if_splits option.splits sum.splits dest!: roots)
  then show ?thesis using assms
    by (auto simp: build_tls_config_def build_verifier_def split: sum.splits)
qed

theorem tls_verified_unless_insecure_witness:
  "\<exists>e. build_tls_config \<lparr>pem_certs = (\<lambda>_. []), pem_key = (\<lambda>_. Some (None :: nat option)), add_root = (\<lambda>_ :: nat. True), cert_matches = (\<lambda>_ _. True)\<rparr>
     (\<lambda>_. None) (default_client_config ''c'') = Inl e"
proof -
  have "\<not> cc_insecure (default_client_config ''c'')" "cc_ca_file (default_client_config ''c'') = []"
    by (simp_all add: default_client_config_def)
  with tls_verified_unless_insecure show ?thesis by blast
qed

text \<open>The wait after each session: 3 seconds after the first and after every session that ended well, else 6.\<close>

definition clean :: "session_end \<times> bool \<Rightarrow> bool" where
  "clean t = (case fst t of SessionOver _ (Inr _) \<Rightarrow> True | _ \<Rightarrow> False)"

lemma client_run_waits:
  assumes "b = 3 \<or> b = 6" "i < length (fst (client_run b ts w))"
  shows "fst (client_run b ts w) ! i = (if clean (ts ! i) then 3 else if i = 0 then b else 6)"
  using assms
proof (induction b ts w arbitrary: i rule: client_run.induct)
  case (3 b f res stop ts w)
  let ?w1 = "(f w)\<lparr>connected := False\<rparr>" and ?b = "case res of Inr _ \<Rightarrow> 3 | Inl _ \<Rightarrow> b"
  have b: "?b = 3 \<or> ?b = 6" using 3(2) by (cases res) simp_all
  then have six: "min (?b * 2) 6 = 6" by (auto simp: min_def)
  show ?case
  proof (cases i)
    case 0
    then show ?thesis by (cases res) (auto simp: clean_def Let_def split: prod.split)
  next
    case (Suc j)
    with 3(3) have ns: "\<not> stop" by (auto simp: Let_def split: if_splits)
    obtain ws ov w2 where c: "client_run 6 ts ?w1 = (ws, ov, w2)" by (metis prod_cases3)
    have w: "fst (client_run b ((SessionOver f res, stop) # ts) w) = ?b # ws"
      using ns c unfolding client_run.simps Let_def six by simp
    with 3(3) Suc have "j < length ws" by simp
    with 3(1)[OF refl refl ns, of j] have "ws ! j = (if clean (ts ! j) then 3 else 6)" by (simp add: six c split: if_splits)
    with w Suc show ?thesis by simp
  qed
qed simp_all

definition shutdown :: "session_end \<times> bool \<Rightarrow> bool" where
  "shutdown t = (snd t \<or> (case fst t of SessionShutdown _ \<Rightarrow> True | _ \<Rightarrow> False))"

lemma client_run_over:
  "fst (snd (client_run b ts w)) \<longleftrightarrow> (\<exists>t \<in> set ts. shutdown t)"
  "\<not> fst (snd (client_run b ts w)) \<Longrightarrow> connected (snd (snd (client_run b ts w))) \<longleftrightarrow> ts = [] \<and> connected w"
proof -
  have "(fst (snd (client_run b ts w)) \<longleftrightarrow> (\<exists>t \<in> set ts. shutdown t))
      \<and> (\<not> fst (snd (client_run b ts w)) \<longrightarrow> (connected (snd (snd (client_run b ts w))) \<longleftrightarrow> ts = [] \<and> connected w))"
  proof (induction ts arbitrary: b w)
    case (Cons t ts)
    obtain e stop where t: "t = (e, stop)" by (cases t)
    show ?case
    proof (cases e)
      case (SessionOver f res)
      let ?b = "min ((case res of Inr _ \<Rightarrow> 3 | Inl _ \<Rightarrow> b) * 2) 6" and ?w = "(f w)\<lparr>connected := False\<rparr>"
      obtain ws ov w2 where c: "client_run ?b ts ?w = (ws, ov, w2)" by (metis prod_cases3)
      have sh: "shutdown t \<longleftrightarrow> stop" by (simp add: shutdown_def t SessionOver)
      have "client_run b (t # ts) w = (if stop then ([case res of Inr _ \<Rightarrow> 3 | Inl _ \<Rightarrow> b], True, ?w)
          else ((case res of Inr _ \<Rightarrow> 3 | Inl _ \<Rightarrow> b) # ws, ov, w2))"
        unfolding t SessionOver client_run.simps Let_def c by simp
      with Cons[of ?b ?w] sh show ?thesis unfolding c by (cases stop) auto
    qed (simp add: t shutdown_def)
  qed simp
  then show "fst (snd (client_run b ts w)) \<longleftrightarrow> (\<exists>t \<in> set ts. shutdown t)"
    "\<not> fst (snd (client_run b ts w)) \<Longrightarrow> connected (snd (snd (client_run b ts w))) \<longleftrightarrow> ts = [] \<and> connected w"
    by blast+
qed

text \<open>\<^bold>\<open>C39\<close>: a client that has lost its server tries again within six seconds. Whatever happened in its sessions, the wait before
  the next one is 3 seconds after the first session and after every one that ended without an error, and 6 seconds after
  the others; the shutdown signal and nothing else ends the loop, and as long as it goes on the status page does not
  claim a connection between two sessions.\<close>

theorem reconnects_within_six_seconds:
  assumes "client_run 3 ts w = (waits, over, w')"
  shows "(\<forall>i < length waits. waits ! i = (if i = 0 \<or> clean (ts ! i) then 3 else 6) \<and> waits ! i \<le> 6)
    \<and> (over \<longleftrightarrow> (\<exists>t \<in> set ts. shutdown t)) \<and> (\<not> over \<and> ts \<noteq> [] \<longrightarrow> \<not> connected w')"
proof -
  have "waits ! i = (if i = 0 \<or> clean (ts ! i) then 3 else 6)" if "i < length waits" for i
    using client_run_waits[of 3 i ts w] that by (simp add: assms)
  with client_run_over[of 3 ts w] assms show ?thesis by auto
qed

text \<open>Three sessions that fail, the second of which had been connected.\<close>

theorem reconnects_within_six_seconds_witness:
  "let ts = [(SessionOver id (Inl ''tls''), False), (SessionOver (\<lambda>w. w\<lparr>connected := True\<rparr>) (Inl ''lost''), False), (SessionOver id (Inl ''tls''), False)]
   in fst (client_run 3 ts new_state) = [3, 6, 6] \<and> \<not> connected (snd (snd (client_run 3 ts new_state)))"
proof -
  let ?ts = "[(SessionOver id (Inl ''tls''), False), (SessionOver (\<lambda>w. w\<lparr>connected := True\<rparr>) (Inl ''lost''), False), (SessionOver id (Inl ''tls''), False)]"
  obtain ws ov w' where c: "client_run 3 ?ts new_state = (ws, ov, w')" by (metis prod_cases3)
  have "length ws = 3" using c by (auto simp: Let_def split: prod.splits)
  with reconnects_within_six_seconds[OF c] have "ws = [3, 6, 6]" "\<not> connected w'"
    by (auto simp: clean_def shutdown_def nth_Cons' intro!: nth_equalityI)
  with c show ?thesis by simp
qed

section \<open>Addresses\<close>

lemma show_hex_chars: "CHR '']'' \<notin> set (show_hex n)"
proof (induction n rule: show_hex.induct)
  case (1 n)
  have "hex_char d \<noteq> CHR '']''" if "d < 16" for d
  proof -
    have "byte (hex_char d) \<noteq> byte (CHR '']'')" using that by (auto simp: hex_char_def byte_def)
    then show ?thesis by metis
  qed
  from this[of n] this[of "n mod 16"] 1 show ?case by (subst show_hex.simps) auto
qed

lemma digit_not_punct: "is_digit c \<Longrightarrow> c \<noteq> CHR '']'' \<and> c \<noteq> CHR ''['' \<and> c \<noteq> CHR '':''"
  by (auto simp: is_digit_def byte_def)

lemma show_ipv4_chars: "c \<in> set (show_ipv4 a b d e) \<Longrightarrow> c \<noteq> CHR '']'' \<and> c \<noteq> CHR ''['' \<and> c \<noteq> CHR '':''"
  using digit_not_punct show_nat_digits by (auto simp: show_ipv4_def)

lemma join_colon_chars: "c \<in> set (join_colon ws) \<Longrightarrow> c = CHR '':'' \<or> (\<exists>w \<in> set ws. c \<in> set w)"
  by (induction ws rule: join_colon.induct) auto

lemma show_groups_chars: "c \<in> set (show_groups gs) \<Longrightarrow> c \<noteq> CHR '']''"
  by (auto simp: show_groups_def show_hex_chars dest!: join_colon_chars)

lemma show_ip_chars: "CHR '']'' \<notin> set (show_ip a)"
  by (cases a) (auto simp: Let_def dest: show_ipv4_chars show_groups_chars split: prod.splits if_splits simp del: longest_run.simps)

lemma rsplit_once_append: "d \<notin> set b \<Longrightarrow> rsplit_once d (a @ d # b) = Some (a, b)"
  using split_once_append[of d "rev b" "rev a"] by (simp add: rsplit_once_def)

text \<open>The host is found in every textual address, of both families.\<close>

theorem server_host_of_address: "server_host (show_socket_addr a) = Inr (show_ip (ip a))"
proof (cases "is_ipv4 (ip a)")
  case True
  then obtain b c d e where v4: "ip a = V4 b c d e" by (cases "ip a") (simp_all add: is_ipv4_def)
  define p where "p = show_nat (unat (port a))"
  have p: "CHR '':'' \<notin> set p" "p \<noteq> []" using show_nat_plain unfolding p_def by auto
  have h: "show_ip (ip a) \<noteq> []" by (simp add: v4 show_ipv4_def)
  then have "hd (show_ip (ip a)) \<noteq> CHR ''[''"
    using show_ipv4_chars[of "hd (show_ip (ip a))" b c d e] hd_in_set[OF h] by (simp add: v4)
  with h have "strip_prefix ''['' (show_ip (ip a) @ '':'' @ p) = None"
    by (cases "show_ip (ip a)") (simp_all add: strip_prefix_def starts_with_def)
  with True p h rsplit_once_append[OF p(1), of "show_ip (ip a)"] show ?thesis
    by (simp add: server_host_def show_socket_addr_def p_def)
next
  case False
  define p where "p = show_nat (unat (port a))"
  have "strip_prefix ''['' (''['' @ show_ip (ip a) @ '']:'' @ p) = Some (show_ip (ip a) @ '']:'' @ p)"
    by (simp add: strip_prefix_Some)
  with False split_once_append[OF show_ip_chars, of "ip a" "'':'' @ p"] show ?thesis
    by (simp add: server_host_def show_socket_addr_def p_def starts_with_def)
qed

end
