(* ===== verification/Client_Main.thy ===== *)
theory Client_Main
  imports Client_Run
begin

text \<open>
  The client as a whole (\<^verbatim>\<open>cross233-client/src/main.rs\<close>, the frame of \<^verbatim>\<open>session\<close> in \<^verbatim>\<open>client.rs\<close>, and the loops of
  \<^verbatim>\<open>visitor.rs\<close> and \<^verbatim>\<open>udp.rs\<close>): what it starts, a session from the first connection to its end, the task that writes,
  visitors that accept local connections, and forwarders of datagrams. The network is an argument, and so is the
  sequence of events that each loop waits for.
\<close>

section \<open>A session\<close>

datatype session_failure =
  SBadTransport string | SConnect string | SNodelay | SBadName string | STls | SHandshake handshake_error

text \<open>What a session has when its loop starts: how it opens tunnels, the tasks it has started, and the state of the loop.\<close>

record session_setup =
  ss_mode :: transport_mode
  ss_cache_key :: string
  ss_cache_path :: string
  ss_cache_ttl :: u64
  ss_probe_timeout_ms :: u64
  ss_qcp_tunnel_port :: u16
  ss_tasks :: "task list"
  ss_session :: client_session

text \<open>The forwarders: one per public port of the UDP services the server has assigned, where the socket can be bound.\<close>

definition forwarders_for :: "(string \<Rightarrow> bool) \<Rightarrow> service list \<Rightarrow> udp_forwarders" where
  "forwarders_for bind_ok assigned =
     \<lparr>forwarder_ports = remdups (map remote_port
        (filter (\<lambda>s. is_udp s \<and> \<not> is_private s \<and> remote_port s > 0 \<and> bind_ok (local_addr s)) assigned)),
      local_sent = []\<rparr>"

text \<open>Up to the loop: what is sent, and the failure or the set-up with the new status.\<close>

definition session_begin ::
  "(string \<Rightarrow> string \<Rightarrow> string) \<Rightarrow> dial_env \<Rightarrow> (string \<Rightarrow> bool) \<Rightarrow> nat \<Rightarrow> client_config \<Rightarrow> web_state_data
    \<Rightarrow> message list \<times> (session_failure + session_setup \<times> web_state_data)" where
  "session_begin mac net bind_ok now cfg w =
     (case parse_mode (cc_transport cfg) of
        Inl e \<Rightarrow> ([], Inl (SBadTransport e))
      | Inr mode \<Rightarrow>
          let services = enabled_services cfg; server_addr = cc_server cfg; server_name = cc_server_name cfg
          in if \<not> tcp_connects net server_addr then ([], Inl (SConnect server_addr))
             else if \<not> nodelay_ok net then ([], Inl SNodelay)
             else if \<not> name_ok net server_name then ([], Inl (SBadName server_name))
             else if \<not> tls_ok net then ([], Inl STls)
             else (case session_handshake mac (cc_auth_key cfg) (cc_client_id cfg) services (got_challenge net) (got_reply net) of
                     (out, Inl e) \<Rightarrow> (out, Inl (SHandshake e))
                   | (out, Inr ready) \<Rightarrow>
                       let qtp = (case m_qcp_tunnel_port ready of Some p \<Rightarrow> p | None \<Rightarrow> cc_qcp_tunnel_port cfg)
                       in (out, Inr
                            (\<lparr>ss_mode = mode, ss_cache_key = cache_key server_addr server_name (unat qtp),
                              ss_cache_path = cc_transport_cache_file cfg, ss_cache_ttl = cc_transport_cache_ttl_secs cfg,
                              ss_probe_timeout_ms = max (cc_transport_probe_timeout_ms cfg) 250, ss_qcp_tunnel_port = qtp,
                              ss_tasks = session_tasks bind_ok (m_services ready) (cc_visitors cfg),
                              ss_session = \<lparr>static_roots = static_service_roots services, free_slots = CLIENT_STATIC_IN_FLIGHT,
                                out_msgs = [], opened = [], static_tasks = [],
                                udp = forwarders_for bind_ok (m_services ready), last_pong = now\<rparr>\<rparr>,
                             note_ready ready (cc_qcp_port cfg) (cc_qcp_tunnel_port cfg) (cc_transport cfg)
                               (cc_transport_cache_file cfg) w))))"

text \<open>The session: how it ended or the state it is in.\<close>

definition session ::
  "(string \<Rightarrow> string \<Rightarrow> string) \<Rightarrow> (string \<Rightarrow> message option) \<Rightarrow> (string \<Rightarrow> string) \<Rightarrow> dial_env \<Rightarrow> (string \<Rightarrow> bool) \<Rightarrow> nat
    \<Rightarrow> (nat \<times> client_event) list \<Rightarrow> client_config \<Rightarrow> web_state_data
    \<Rightarrow> (session_failure + ((string + unit) + client_session)) \<times> web_state_data" where
  "session mac parse kept net bind_ok now evs cfg w =
     (case session_begin mac net bind_ok now cfg w of
        (_, Inl e) \<Rightarrow> (Inl e, w)
      | (_, Inr (su, w')) \<Rightarrow> (Inr (client_loop parse kept evs [] (ss_session su)), w'))"

text \<open>The task that writes: messages of both queues in the order in which it takes them, up to the first that cannot be
  written, which also ends the other tasks.\<close>

fun session_writer :: "(message \<Rightarrow> bool) \<Rightarrow> message list \<Rightarrow> message list \<times> bool" where
  "session_writer io [] = ([], False)"
| "session_writer io (m # ms) =
     (if io m then (case session_writer io ms of (out, stopped) \<Rightarrow> (m # out, stopped)) else ([], True))"

section \<open>Visitors\<close>

text \<open>A local connection: the connection to the server with TLS, for the name in the visitor's configuration, then the handshake.\<close>

definition stcp_connection ::
  "(string \<Rightarrow> string \<Rightarrow> string) \<Rightarrow> dial_env \<Rightarrow> string \<Rightarrow> string \<Rightarrow> string \<Rightarrow> string \<Rightarrow> visitor_config
    \<Rightarrow> message list \<times> ((string + visitor_error) + unit)" where
  "stcp_connection mac net visitor_id server_addr client_id key cfg =
     (if \<not> tcp_connects net server_addr then ([], Inl (Inl ''visitor connect''))
      else if \<not> nodelay_ok net then ([], Inl (Inl ''set nodelay''))
      else if \<not> name_ok net (v_server_name cfg) then ([], Inl (Inl ''invalid server name''))
      else if \<not> tls_ok net then ([], Inl (Inl ''TLS handshake''))
      else (case handle_stcp_conn mac key client_id (v_name cfg) visitor_id (got_challenge net) (got_reply net) of
              (out, Inl e) \<Rightarrow> (out, Inl (Inr e))
            | (out, Inr _) \<Rightarrow> (out, Inr ())))"

text \<open>What the loop of a visitor waits for: the shutdown signal, or a local connection, with the network it will meet, or the failure
  to accept one.\<close>

datatype visitor_event = VStop | VAccept string dial_env | VAcceptError

fun stcp_loop ::
  "(string \<Rightarrow> string \<Rightarrow> string) \<Rightarrow> string \<Rightarrow> string \<Rightarrow> string \<Rightarrow> visitor_config \<Rightarrow> visitor_event list
    \<Rightarrow> (message list \<times> ((string + visitor_error) + unit)) list \<times> bool" where
  "stcp_loop mac server_addr client_id key cfg [] = ([], False)"
| "stcp_loop mac server_addr client_id key cfg (VStop # evs) = ([], True)"
| "stcp_loop mac server_addr client_id key cfg (VAcceptError # evs) = stcp_loop mac server_addr client_id key cfg evs"
| "stcp_loop mac server_addr client_id key cfg (VAccept vid net # evs) =
     (case stcp_loop mac server_addr client_id key cfg evs of
        (conns, over) \<Rightarrow> (stcp_connection mac net vid server_addr client_id key cfg # conns, over))"

definition run_stcp_visitor ::
  "(string \<Rightarrow> bool) \<Rightarrow> (string \<Rightarrow> string \<Rightarrow> string) \<Rightarrow> string \<Rightarrow> string \<Rightarrow> string \<Rightarrow> visitor_config \<Rightarrow> visitor_event list
    \<Rightarrow> visitor_error + (message list \<times> ((string + visitor_error) + unit)) list \<times> bool" where
  "run_stcp_visitor bind_ok mac server_addr client_id key cfg evs =
     (case run_visitor (bind_ok (v_bind_addr cfg @ '':'' @ show_port (v_bind_port cfg))) cfg of
        Inl e \<Rightarrow> Inl e
      | Inr _ \<Rightarrow> Inr (stcp_loop mac server_addr client_id key cfg evs))"

section \<open>Datagrams\<close>

datatype forwarder_event = FStop | FDatagram socket_addr bytes | FError

text \<open>The messages of a forwarder, its peers, and whether it has ended.\<close>

fun forwarder_run ::
  "service \<Rightarrow> u16 \<Rightarrow> forwarder_event list \<Rightarrow> (socket_addr, unit) hmap \<Rightarrow> message list \<times> (socket_addr, unit) hmap \<times> bool" where
  "forwarder_run svc rp [] peers = ([], peers, False)"
| "forwarder_run svc rp (FStop # evs) peers = ([], peers, True)"
| "forwarder_run svc rp (FError # evs) peers = ([], peers, True)"
| "forwarder_run svc rp (FDatagram from data # evs) peers =
     (case forwarder_run svc rp evs (hm_insert from () peers) of
        (ms, peers', over) \<Rightarrow> (forwarder_datagram svc rp from data # ms, peers', over))"

section \<open>What the client starts\<close>

datatype client_task = StatusPageTask string | ReloadTask string u32 | SessionsTask

datatype main_error = StartFailed start_error | TlsFailure tls_error

record ('c, 'k) client =
  cl_config :: client_config
  cl_tls :: "('c, 'k) tls_config"
  cl_web_state :: web_state_data

definition client_new ::
  "('c, 'k) pem \<Rightarrow> (string \<Rightarrow> string option) \<Rightarrow> client_config \<Rightarrow> web_state_data \<Rightarrow> tls_error + ('c, 'k) client" where
  "client_new pem read cfg w =
     (case build_tls_config pem read cfg of
        Inl e \<Rightarrow> Inl e
      | Inr tls \<Rightarrow> Inr \<lparr>cl_config = cfg, cl_tls = tls, cl_web_state = w\<rparr>)"

definition client_main ::
  "formats \<Rightarrow> files \<Rightarrow> ('c, 'k) pem \<Rightarrow> (string \<Rightarrow> string option) \<Rightarrow> string \<Rightarrow> args
    \<Rightarrow> main_error + ('c, 'k) client \<times> client_task list" where
  "client_main fm fs pem read default_id a =
     (case client_start_config fm fs default_id a of
        Inl e \<Rightarrow> Inl (StartFailed e)
      | Inr cfg \<Rightarrow>
          (case client_new pem read cfg (initial_web_state cfg) of
             Inl e \<Rightarrow> Inl (TlsFailure e)
           | Inr c \<Rightarrow>
               Inr (c, [StatusPageTask (cc_web_addr cfg)]
                 @ (if cc_reload_interval cfg > 0
                    then (case arg_config a of Some path \<Rightarrow> [ReloadTask path (cc_reload_interval cfg)] | None \<Rightarrow> []) else [])
                 @ [SessionsTask])))"

section \<open>What holds of them\<close>

text \<open>The status page claims a connection only after the server has accepted the proof, and a session that does not get
  that far leaves it as it was.\<close>

lemma session_status:
  assumes "session mac parse kept net bind_ok now evs cfg w = (res, w')"
  shows "case res of
      Inl e \<Rightarrow> w' = w
    | Inr _ \<Rightarrow> \<exists>ready. got_reply net = Some ready \<and> m_ty ready = ''ready'' \<and> connected w' \<and> w_services w' = m_services ready
        \<and> fst (session_begin mac net bind_ok now cfg w) =
          [new_client_hello (cc_client_id cfg) (enabled_services cfg),
           new_auth (compute_proof mac (cc_auth_key cfg) ''client'' (cc_client_id cfg) (cc_client_id cfg)
             (opt_str (m_nonce (the (got_challenge net))) []))]"
  using assms
  by (auto simp: session_def session_begin_def session_handshake_def answer_challenge_def note_ready_def Let_def
      split: sum.splits prod.splits if_splits option.splits)

text \<open>The writer writes messages in order and skips none.\<close>

lemma writer_prefix: "\<exists>rest. ms = fst (session_writer io ms) @ rest \<and> (snd (session_writer io ms) \<longleftrightarrow> rest \<noteq> [])
    \<and> list_all io (fst (session_writer io ms))"
  by (induction ms) (auto split: prod.split)

text \<open>A visitor asks for the service that has the visitor's own name, and takes the name under \<^verbatim>\<open>server_name\<close> for that of the
  server's certificate. In the examples \<^verbatim>\<open>server_name\<close> is the service, so a visitor that is configured as they show asks
  for a service that does not exist, and a server that is verified under its real name is refused.\<close>

theorem visitor_asks_for_its_own_name:
  assumes "stcp_connection mac net vid addr cid key cfg = (out, res)" "out \<noteq> []"
  shows "hd out = new_visitor_hello cid (v_name cfg) (Some vid) \<and> name_ok net (v_server_name cfg)"
  using assms
  by (auto simp: stcp_connection_def handle_stcp_conn_def Let_def split: if_splits sum.splits)

theorem visitor_asks_for_its_own_name_witness:
  "let cfg = \<lparr>v_name = ''visit-secret-ssh'', v_ty = ''stcp'', v_server_name = ''secret-ssh'', v_secret_key = ''my-secret-key'',
      v_bind_addr = ''127.0.0.1'', v_bind_port = 6000\<rparr>;
     net = \<lparr>tcp_connects = \<lambda>_. True, nodelay_ok = True, lookup_host = \<lambda>_ _. None, qcp_dials = \<lambda>_. False, name_ok = \<lambda>_. True,
      tls_ok = True, got_challenge = None, got_reply = None\<rparr>
   in hd (fst (stcp_connection (\<lambda>_ _. []) net ''v'' ''s:1'' ''c'' ''k'' cfg)) = new_visitor_hello ''c'' ''visit-secret-ssh'' (Some ''v'')"
proof -
  let ?cfg = "\<lparr>v_name = ''visit-secret-ssh'', v_ty = ''stcp'', v_server_name = ''secret-ssh'', v_secret_key = ''my-secret-key'',
      v_bind_addr = ''127.0.0.1'', v_bind_port = 6000\<rparr>"
  let ?net = "\<lparr>tcp_connects = \<lambda>_. True, nodelay_ok = True, lookup_host = \<lambda>_ _. None, qcp_dials = \<lambda>_. False, name_ok = \<lambda>_. True,
      tls_ok = True, got_challenge = None, got_reply = None\<rparr> :: dial_env"
  have "fst (stcp_connection (\<lambda>_ _. []) ?net ''v'' ''s:1'' ''c'' ''k'' ?cfg) \<noteq> []"
    by (simp add: stcp_connection_def handle_stcp_conn_def answer_challenge_def Let_def)
  with visitor_asks_for_its_own_name[OF prod.collapse[symmetric], of "\<lambda>_ _. []" ?net "''v''" "''s:1''" "''c''" "''k''" ?cfg]
  show ?thesis by simp
qed

text \<open>Every datagram of a local peer becomes one message, in order, until the forwarder ends.\<close>

lemma forwarder_messages:
  "fst (forwarder_run svc rp (map (\<lambda>(a, d). FDatagram a d) ds @ evs) peers)
    = map (\<lambda>(a, d). forwarder_datagram svc rp a d) ds @ fst (forwarder_run svc rp evs (fold (\<lambda>(a, _). hm_insert a ()) ds peers))"
  by (induction ds arbitrary: peers) (simp_all add: case_prod_beta)

end
