(* ===== verification/Server_Start.thy ===== *)
theory Server_Start
  imports Server_Config Key_Files
begin

text \<open>
  How the server starts and stops (\<^verbatim>\<open>cross233-server/src/main.rs\<close>, \<^verbatim>\<open>server.rs\<close>, \<^verbatim>\<open>ServerConfig::load\<close>): the configuration
  is read, changed by the options and validated, the keys are loaded or made, every port is tried, and then the tasks are
  started. Parsers, files, the generation of keys and what can be bound are arguments. What the start does to the
  outside is a list of effects; a write that fails is one of them.
\<close>

datatype effect = WriteFile string string | TryTcp string | TryUdp string | BindTcp string

datatype start_failure =
    ConfigUnreadable string
  | ConfigParse string
  | UnsupportedFormat string
  | Invalid config_error
  | AuthKeyFailed key_error
  | TlsFailed key_error
  | CannotBind string string

section \<open>Configuration\<close>

text \<open>A path that does not exist is ignored.\<close>

definition load_server_config ::
  "(string \<Rightarrow> bool) \<Rightarrow> (string \<Rightarrow> string option) \<Rightarrow> (string \<Rightarrow> string option) \<Rightarrow> (string \<Rightarrow> string \<Rightarrow> server_config option)
    \<Rightarrow> string option \<Rightarrow> start_failure + server_config" where
  "load_server_config exists_file read ext parse path =
     (case path of
        None \<Rightarrow> Inr default_config
      | Some p \<Rightarrow>
          if \<not> exists_file p then Inr default_config
          else (case read p of
                  None \<Rightarrow> Inl (ConfigUnreadable p)
                | Some content \<Rightarrow>
                    (case ext p of
                       Some e \<Rightarrow>
                         if e \<in> {''toml'', ''json'', ''yaml'', ''yml''}
                         then (case parse e content of Some c \<Rightarrow> Inr c | None \<Rightarrow> Inl (ConfigParse p))
                         else Inl (UnsupportedFormat p)
                     | None \<Rightarrow> Inl (UnsupportedFormat p))))"

record server_args =
  sa_config :: "string option"
  sa_bind :: "string option"
  sa_port :: "u16 option"
  sa_web_port :: "u16 option"
  sa_auth_key :: "string option"
  sa_cert_file :: "string option"
  sa_key_file :: "string option"
  sa_check_config :: bool

definition or_else :: "'a option \<Rightarrow> 'a \<Rightarrow> 'a" where
  "or_else a x = (case a of Some v \<Rightarrow> v | None \<Rightarrow> x)"

definition apply_server_args :: "server_args \<Rightarrow> server_config \<Rightarrow> server_config" where
  "apply_server_args a c = c\<lparr>bind := or_else (sa_bind a) (bind c), control_port := or_else (sa_port a) (control_port c),
     web_port := or_else (sa_web_port a) (web_port c), auth_key := or_else (sa_auth_key a) (auth_key c),
     cert_file := or_else (sa_cert_file a) (cert_file c), key_file := or_else (sa_key_file a) (key_file c)\<rparr>"

section \<open>Keys\<close>

record ('c, 'k) server =
  srv_config :: server_config
  srv_tls :: "('c, 'k) tls_setup"
  srv_auth_key :: string

text \<open>The environment of the start.\<close>

record ('c, 'k) start_env =
  env_files :: file_env
  env_random :: "nat list"
  env_fresh :: "(string \<times> string) option"
  env_pem :: "('c, 'k) pem"
  env_digest :: "string \<Rightarrow> string"
  env_tcp :: "string \<Rightarrow> bool"
  env_udp :: "string \<Rightarrow> bool"

text \<open>What was written, and the server or why there is none. The certificate is looked for after the key was written.\<close>

definition server_new ::
  "('c, 'k) start_env \<Rightarrow> server_config \<Rightarrow> (string \<times> string) list \<times> (start_failure + ('c, 'k) server)" where
  "server_new env cfg =
     (case validate cfg of
        Inl e \<Rightarrow> ([], Inl (Invalid e))
      | Inr _ \<Rightarrow>
          (case load_or_create_auth_key (env_files env) (auth_key_file cfg) (auth_key cfg) (env_random env) of
             (ws, Inl e) \<Rightarrow> (ws, Inl (AuthKeyFailed e))
           | (ws, Inr key) \<Rightarrow>
               (case load_or_create_cert (env_pem env) (env_digest env) (env_fresh env) (after_writes ws (env_files env))
                       (cert_file cfg) (key_file cfg) of
                  (ws', Inl e) \<Rightarrow> (ws @ ws', Inl (TlsFailed e))
                | (ws', Inr tls) \<Rightarrow> (ws @ ws', Inr \<lparr>srv_config = cfg\<lparr>auth_key := key\<rparr>, srv_tls = tls, srv_auth_key = key\<rparr>))))"

section \<open>Ports\<close>

fun try_ports :: "(string \<Rightarrow> effect) \<Rightarrow> (string \<Rightarrow> bool) \<Rightarrow> string \<Rightarrow> (string \<times> u16) list \<Rightarrow> effect list \<times> (start_failure + unit)" where
  "try_ports mk ok b [] = ([], Inr ())"
| "try_ports mk ok b ((name, p) # ps) =
     (if p = 0 then try_ports mk ok b ps
      else let addr = b @ '':'' @ show_port p
           in if ok addr then (case try_ports mk ok b ps of (eff, res) \<Rightarrow> (mk addr # eff, res))
              else ([mk addr], Inl (CannotBind name addr)))"

definition preflight_listener_ports :: "('c, 'k) start_env \<Rightarrow> server_config \<Rightarrow> effect list \<times> (start_failure + unit)" where
  "preflight_listener_ports env c =
     (case try_ports TryTcp (env_tcp env) (bind c)
             [(''control'', control_port c), (''web'', web_port c), (''HTTP vhost'', http_vhost_port c),
              (''HTTPS vhost'', https_vhost_port c), (''TCPMUX'', tcpmux_port c)] of
        (eff, Inl e) \<Rightarrow> (eff, Inl e)
      | (eff, Inr _) \<Rightarrow>
          (case try_ports TryUdp (env_udp env) (bind c) [(''QCP'', cfg_qcp_port c), (''QCP tunnel'', qcp_tunnel_port c)] of
             (eff', res) \<Rightarrow> (eff @ eff', res)))"

section \<open>Tasks\<close>

datatype server_task =
    MetricsTask
  | HttpVhostTask string
  | HttpsVhostTask string
  | TcpmuxTask string
  | QcpTask string
  | QcpTunnelTask string
  | WebTask string
  | HealthMonitorTask
  | ControlTask string

definition when_port :: "u16 \<Rightarrow> server_task \<Rightarrow> server_task list" where
  "when_port p t = (if p \<noteq> 0 then [t] else [])"

definition server_run :: "('c, 'k) start_env \<Rightarrow> ('c, 'k) server \<Rightarrow> effect list \<times> (start_failure + server_task list)" where
  "server_run env s =
     (let c = srv_config s
      in case preflight_listener_ports env c of
           (eff, Inl e) \<Rightarrow> (eff, Inl e)
         | (eff, Inr _) \<Rightarrow>
             if \<not> env_tcp env (control_addr c) then (eff @ [BindTcp (control_addr c)], Inl (CannotBind ''control'' (control_addr c)))
             else (eff @ [BindTcp (control_addr c)],
                   Inr ([MetricsTask]
                     @ when_port (http_vhost_port c) (HttpVhostTask (http_vhost_addr c))
                     @ when_port (https_vhost_port c) (HttpsVhostTask (https_vhost_addr c))
                     @ when_port (tcpmux_port c) (TcpmuxTask (bind c @ '':'' @ show_port (tcpmux_port c)))
                     @ when_port (cfg_qcp_port c) (QcpTask (qcp_addr c))
                     @ when_port (qcp_tunnel_port c) (QcpTunnelTask (bind c @ '':'' @ show_port (qcp_tunnel_port c)))
                     @ when_port (web_port c) (WebTask (web_addr c))
                     @ [HealthMonitorTask, ControlTask (control_addr c)])))"

text \<open>When the signal comes, or the control listener ends, all tasks are aborted but the one that collects metrics and the
  control listener, which end with the process.\<close>

fun aborted :: "server_task \<Rightarrow> bool" where
  "aborted MetricsTask = False"
| "aborted (ControlTask _) = False"
| "aborted _ = True"

definition server_stop :: "server_task list \<Rightarrow> server_task list" where
  "server_stop ts = filter (\<lambda>t. \<not> aborted t) ts"

datatype started = ConfigIsValid | Running "server_task list"

definition server_main ::
  "('c, 'k) start_env \<Rightarrow> (string \<Rightarrow> string option) \<Rightarrow> (string \<Rightarrow> string \<Rightarrow> server_config option) \<Rightarrow> server_args
    \<Rightarrow> effect list \<times> (start_failure + started)" where
  "server_main env ext parse a =
     (case load_server_config (file_exists (env_files env)) (file_text (env_files env)) ext parse (sa_config a) of
        Inl e \<Rightarrow> ([], Inl e)
      | Inr c0 \<Rightarrow>
          let c = apply_server_args a c0
          in case validate c of
               Inl e \<Rightarrow> ([], Inl (Invalid e))
             | Inr _ \<Rightarrow>
                 if sa_check_config a then ([], Inr ConfigIsValid)
                 else (case server_new env c of
                         (ws, Inl e) \<Rightarrow> (map (\<lambda>(p, t). WriteFile p t) ws, Inl e)
                       | (ws, Inr s) \<Rightarrow>
                           let eff = map (\<lambda>(p, t). WriteFile p t) ws
                           in (case server_run env s of
                                 (eff', Inl e) \<Rightarrow> (eff @ eff', Inl e)
                               | (eff', Inr ts) \<Rightarrow> (eff @ eff', Inr (Running ts)))))"

section \<open>A start is safe\<close>

fun task_addrs :: "server_task \<Rightarrow> string list" where
  "task_addrs (HttpVhostTask a) = [a]" | "task_addrs (HttpsVhostTask a) = [a]" | "task_addrs (TcpmuxTask a) = [a]"
| "task_addrs (QcpTask a) = [a]" | "task_addrs (QcpTunnelTask a) = [a]" | "task_addrs (WebTask a) = [a]"
| "task_addrs (ControlTask a) = [a]" | "task_addrs MetricsTask = []" | "task_addrs HealthMonitorTask = []"

lemma try_ports_ok:
  "try_ports mk ok b ps = (eff, Inr u) \<Longrightarrow> \<forall>(name, p) \<in> set ps. p \<noteq> 0 \<longrightarrow> ok (b @ '':'' @ show_port p)"
  by (induction mk ok b ps arbitrary: eff rule: try_ports.induct) (auto simp: Let_def split: if_splits prod.splits)

lemmas server_addrs = control_addr_def http_vhost_addr_def https_vhost_addr_def qcp_addr_def web_addr_def

lemma run_bindable:
  assumes "server_run env s = (eff, Inr ts)" "t \<in> set ts" "addr \<in> set (task_addrs t)"
  shows "env_tcp env addr \<or> env_udp env addr"
proof -
  let ?c = "srv_config s"
  obtain e1 e2 where p: "try_ports TryTcp (env_tcp env) (bind ?c)
             [(''control'', control_port ?c), (''web'', web_port ?c), (''HTTP vhost'', http_vhost_port ?c),
              (''HTTPS vhost'', https_vhost_port ?c), (''TCPMUX'', tcpmux_port ?c)] = (e1, Inr ())"
      "try_ports TryUdp (env_udp env) (bind ?c) [(''QCP'', cfg_qcp_port ?c), (''QCP tunnel'', qcp_tunnel_port ?c)] = (e2, Inr ())"
    using assms(1)
    by (auto simp: server_run_def preflight_listener_ports_def Let_def split: prod.splits sum.splits simp del: try_ports.simps)
  have "env_tcp env (control_addr ?c)"
    using assms(1) by (auto simp: server_run_def Let_def split: prod.splits sum.splits if_splits)
  with try_ports_ok[OF p(1)] try_ports_ok[OF p(2)] assms show ?thesis
    by (auto simp: server_run_def Let_def when_port_def server_addrs split: prod.splits sum.splits if_splits)
qed


text \<open>With the default configuration and all ports free, the server runs.\<close>

definition demo_pem :: "(string, string) pem" where
  "demo_pem = \<lparr>pem_certs = (\<lambda>s. [Some s]), pem_key = (\<lambda>s. Some (Some s)), add_root = (\<lambda>_. True), cert_matches = (\<lambda>_ _. True)\<rparr>"

definition demo_start :: "(string, string) start_env" where
  "demo_start = \<lparr>env_files = \<lparr>file_exists = (\<lambda>_. False), file_read = (\<lambda>_. None), file_write = (\<lambda>_. True)\<rparr>, env_random = replicate 32 0,
     env_fresh = Some (''cert'', ''key''), env_pem = demo_pem, env_digest = id,
     env_tcp = (\<lambda>a. a \<in> {''0.0.0.0:7710'', ''0.0.0.0:7711'', ''0.0.0.0:80'', ''0.0.0.0:443''}), env_udp = (\<lambda>a. a = ''0.0.0.0:7713'')\<rparr>"

definition demo_args :: server_args where
  "demo_args = \<lparr>sa_config = None, sa_bind = None, sa_port = None, sa_web_port = None, sa_auth_key = None,
     sa_cert_file = None, sa_key_file = None, sa_check_config = False\<rparr>"


section \<open>A restart keeps the keys\<close>

text \<open>A server that starts again is the same server. Once the server has been set up, a second set-up from the files as
  they then are, with the same configuration, whatever keys could be generated now, writes nothing and gives the same
  authentication key, certificate and fingerprint: clients that trust the first certificate or know the first key go on to
  be accepted. The file of the authentication key must not be one of those of the certificate.\<close>

theorem restart_keeps_keys:
  assumes "server_new env cfg = (ws, Inr s)" "length (env_random env) = 32" "list_all (\<lambda>b. b < 256) (env_random env)"
    and "auth_key_file cfg \<notin> {cert_file cfg, key_file cfg}"
  shows "server_new (env\<lparr>env_files := after_writes ws (env_files env), env_random := bs, env_fresh := fresh\<rparr>) cfg = ([], Inr s)"
proof -
  let ?fe = "env_files env"
  obtain ws1 ws2 key tls where v: "validate cfg = Inr ()" and ws: "ws = ws1 @ ws2"
    and k: "load_or_create_auth_key ?fe (auth_key_file cfg) (auth_key cfg) (env_random env) = (ws1, Inr key)"
    and c: "load_or_create_cert (env_pem env) (env_digest env) (env_fresh env) (after_writes ws1 ?fe) (cert_file cfg) (key_file cfg) = (ws2, Inr tls)"
    and s: "s = \<lparr>srv_config = cfg\<lparr>auth_key := key\<rparr>, srv_tls = tls, srv_auth_key = key\<rparr>"
    using assms(1) by (auto simp: server_new_def split: sum.splits prod.splits)
  have "auth_key_file cfg \<notin> fst ` set ws2" using load_cert_writes[OF c] assms(4) by auto
  with load_key_stable[OF k assms(2,3)]
  have "load_or_create_auth_key (after_writes ws ?fe) (auth_key_file cfg) (auth_key cfg) bs = ([], Inr key)"
    by (simp add: ws load_key_other)
  moreover have "load_or_create_cert (env_pem env) (env_digest env) fresh (after_writes ws ?fe) (cert_file cfg) (key_file cfg) = ([], Inr tls)"
    using load_cert_stable[OF c] by (simp add: ws)
  ultimately show ?thesis by (simp add: server_new_def v s)
qed

theorem restart_keeps_keys_witness:
  "\<exists>ws s. server_new demo_start default_config = (ws, Inr s) \<and> length ws = 3
     \<and> server_new (demo_start\<lparr>env_files := after_writes ws (env_files demo_start), env_random := [], env_fresh := None\<rparr>) default_config = ([], Inr s)"
proof -
  obtain ws s where n: "server_new demo_start default_config = (ws, Inr s)" "length ws = 3"
    using default_config_valid
    by (simp add: server_new_def load_or_create_cert_def load_or_create_auth_key_def load_cert_def demo_start_def demo_pem_def
        default_config_def Let_def)
  have "auth_key_file default_config \<notin> {cert_file default_config, key_file default_config}"
    "length (env_random demo_start) = 32" "list_all (\<lambda>b. b < 256) (env_random demo_start)"
    by (simp_all add: default_config_def demo_start_def list_all_iff)
  with restart_keeps_keys[OF n(1)] n show ?thesis by blast
qed

end
