(* ===== verification/Listeners.thy ===== *)
theory Listeners
  imports Inbound Ndjson
begin

text \<open>
  The server's accept loops: the control port (\<^verbatim>\<open>run_control_listener\<close> and the first steps of \<^verbatim>\<open>handle_connection\<close> in
  \<^verbatim>\<open>cross233-server/src/control.rs\<close>), the public port of a service (the task of \<^verbatim>\<open>start_tcp_listener_for_service\<close>), virtual hosts
  (\<^verbatim>\<open>http_vhost.rs\<close>, \<^verbatim>\<open>https_vhost.rs\<close>, \<^verbatim>\<open>tcpmux.rs\<close>) and QCP (\<^verbatim>\<open>qcp.rs\<close>). Each hands the connections it accepts to tasks; they
  differ in what a failure to accept does. A loop yields the connections that were handed over, and whether it still listens.
\<close>

section \<open>Accept loops\<close>

datatype 'c accept_event = Conn 'c | AcceptFailed

text \<open>The control port waits and goes on.\<close>

fun run_control_listener :: "'c accept_event list \<Rightarrow> 'c list \<times> bool" where
  "run_control_listener [] = ([], True)"
| "run_control_listener (Conn c # evs) = (case run_control_listener evs of (cs, on) \<Rightarrow> (c # cs, on))"
| "run_control_listener (AcceptFailed # evs) = run_control_listener evs"

text \<open>The virtual hosts return the error; the listeners of HTTPS and QCP leave their loop.\<close>

fun run_http_vhost :: "'c accept_event list \<Rightarrow> 'c list \<times> bool" where
  "run_http_vhost [] = ([], True)"
| "run_http_vhost (Conn c # evs) = (case run_http_vhost evs of (cs, on) \<Rightarrow> (c # cs, on))"
| "run_http_vhost (AcceptFailed # evs) = ([], False)"

fun run_https_vhost :: "'c accept_event list \<Rightarrow> 'c list \<times> bool" where
  "run_https_vhost [] = ([], True)"
| "run_https_vhost (Conn c # evs) = (case run_https_vhost evs of (cs, on) \<Rightarrow> (c # cs, on))"
| "run_https_vhost (AcceptFailed # evs) = ([], False)"

fun run_tcpmux :: "'c accept_event list \<Rightarrow> 'c list \<times> bool" where
  "run_tcpmux [] = ([], True)"
| "run_tcpmux (Conn c # evs) = (case run_tcpmux evs of (cs, on) \<Rightarrow> (c # cs, on))"
| "run_tcpmux (AcceptFailed # evs) = ([], False)"

text \<open>Here the failure is that the QCP listener has ended.\<close>

fun run_qcp_listener :: "'c accept_event list \<Rightarrow> 'c list \<times> bool" where
  "run_qcp_listener [] = ([], True)"
| "run_qcp_listener (Conn c # evs) = (case run_qcp_listener evs of (cs, on) \<Rightarrow> (c # cs, on))"
| "run_qcp_listener (AcceptFailed # evs) = ([], False)"

text \<open>Each connection of a client's tunnel gets the time limit for its handshake with it, at least a second.\<close>

definition run_qcp_tunnel_listener :: "u32 \<Rightarrow> 'c accept_event list \<Rightarrow> ('c \<times> u32) list \<times> bool" where
  "run_qcp_tunnel_listener handshake_timeout_secs evs =
     (case run_qcp_listener evs of (cs, on) \<Rightarrow> (map (\<lambda>c. (c, max handshake_timeout_secs 1)) cs, on))"

text \<open>The listener of a service. A connection comes with what has happened to the registry before it; when the
  loop ends the listener is taken out of the registry, and the service stays in it.\<close>

fun tcp_listener_loop ::
  "u16 \<Rightarrow> string \<Rightarrow> ('s registry \<Rightarrow> 's registry) accept_event list \<Rightarrow> 's registry \<Rightarrow> (string + nat \<times> route) list \<times> 's registry" where
  "tcp_listener_loop p name [] r = ([], r)"
| "tcp_listener_loop p name (Conn before # evs) r =
     (case handle_inbound_tcp p (before r) of
        (res, r1) \<Rightarrow> (case tcp_listener_loop p name evs r1 of (rs, r2) \<Rightarrow> (res # rs, r2)))"
| "tcp_listener_loop p name (AcceptFailed # evs) r = ([], remove_listener_handle p name r)"

section \<open>A connection to the control port\<close>

datatype accept_error = TlsAccept | FirstRead read_error | Handler session_error

text \<open>\<open>tls\<close> is what the peer sends inside of TLS within the time limit, if the handshake succeeds.\<close>

definition handle_tls_connection ::
  "(string \<Rightarrow> string \<Rightarrow> string) \<Rightarrow> (string \<Rightarrow> message option) \<Rightarrow> (string \<Rightarrow> string) \<Rightarrow> os \<Rightarrow> (message \<Rightarrow> bool) \<Rightarrow> entropy
    \<Rightarrow> nat \<Rightarrow> chan \<Rightarrow> nat \<Rightarrow> u16 \<Rightarrow> u16 \<Rightarrow> 's \<Rightarrow> string option \<Rightarrow> message option \<Rightarrow> (nat \<times> session_event) list \<Rightarrow> 's control
    \<Rightarrow> message list \<times> (accept_error + unit) \<times> 's control" where
  "handle_tls_connection mac parse kept sys io en now tx h qport qtport stream tls reply evs st =
     (case tls of
        None \<Rightarrow> ([], Inl TlsAccept, st)
      | Some s \<Rightarrow>
          (case read_first_msg parse s of
             Inl e \<Rightarrow> ([], Inl (FirstRead e), st)
           | Inr (first_msg, _) \<Rightarrow>
               (case handle_connection mac parse kept sys io en now tx h qport qtport stream first_msg reply evs st of
                  (out, Inl e, st') \<Rightarrow> (out, Inl (Handler e), st')
                | (out, Inr _, st') \<Rightarrow> (out, Inr (), st'))))"

section \<open>What a loop promises\<close>

text \<open>Every accept loop hands over each connection it accepts, in order, as long as nothing fails.\<close>

locale listener =
  fixes run :: "'c accept_event list \<Rightarrow> 'c list \<times> bool"
  assumes listens: "run [] = ([], True)"
    and hands_over: "run (Conn c # evs) = (c # fst (run evs), snd (run evs))"
begin

lemma all_connections: "run (map Conn cs @ evs) = (cs @ fst (run evs), snd (run evs))"
  by (induction cs) (simp_all add: hands_over)

lemma undisturbed: "run (map Conn cs) = (cs, True)"
  using all_connections[of cs "[]"] by (simp add: listens)

end

text \<open>Two ways to take a failure.\<close>

locale steadfast_listener = listener +
  assumes goes_on: "run (AcceptFailed # evs) = run evs"
begin

lemma survives: "run evs = (concat (map (\<lambda>e. case e of Conn c \<Rightarrow> [c] | AcceptFailed \<Rightarrow> []) evs), True)"
proof (induction evs)
  case (Cons e evs)
  then show ?case by (cases e) (simp_all add: hands_over goes_on)
qed (simp add: listens)

end

locale fragile_listener = listener +
  assumes ends: "run (AcceptFailed # evs) = ([], False)"
begin

lemma ends_at_failure: "run (map Conn cs @ AcceptFailed # evs) = (cs, False)"
  by (simp add: all_connections ends)

end

interpretation control_port: steadfast_listener run_control_listener
  by unfold_locales (simp_all add: case_prod_beta)

interpretation http: fragile_listener run_http_vhost
  by unfold_locales (simp_all add: case_prod_beta)

interpretation https: fragile_listener run_https_vhost
  by unfold_locales (simp_all add: case_prod_beta)

interpretation tcpmux: fragile_listener run_tcpmux
  by unfold_locales (simp_all add: case_prod_beta)

interpretation qcp: fragile_listener run_qcp_listener
  by unfold_locales (simp_all add: case_prod_beta)

text \<open>One failure to accept ends the virtual hosts. Such a failure is often transient: a peer that is gone before its
  connection is accepted, or no free file descriptor for a moment. The control port survives it; the listeners for
  HTTP, HTTPS and tcpmux do not, and nothing starts them again, so that all virtual hosts are unreachable until the
  server is restarted.\<close>

theorem accept_failure_ends_vhosts:
  "run_control_listener (map Conn cs @ AcceptFailed # map Conn ds) = (cs @ ds, True)
    \<and> run_http_vhost (map Conn cs @ AcceptFailed # map Conn ds) = (cs, False)
    \<and> run_https_vhost (map Conn cs @ AcceptFailed # map Conn ds) = (cs, False)
    \<and> run_tcpmux (map Conn cs @ AcceptFailed # map Conn ds) = (cs, False)"
  using control_port.undisturbed[of ds]
  by (simp add: control_port.all_connections control_port.goes_on http.ends_at_failure https.ends_at_failure tcpmux.ends_at_failure)

text \<open>A service whose listener has ended is still registered.\<close>

lemma service_without_listener:
  assumes "hm_wf (active_listeners r)" "hm_get (active_listeners r) p = Some (name, h)"
  shows "tcp_listener_loop p name (AcceptFailed # evs) r = ([], r\<lparr>active_listeners := hm_remove p (active_listeners r)\<rparr>)
    \<and> \<not> is_listener_active p (snd (tcp_listener_loop p name (AcceptFailed # evs) r))
    \<and> get_service_by_name n (snd (tcp_listener_loop p name (AcceptFailed # evs) r)) = get_service_by_name n r"
  using assms by (simp add: remove_listener_handle_def is_listener_active_def hm_contains_def get_service_by_name_def)

text \<open>A peer that does not complete TLS, or does not send one line of at most 16 KiB that is a message, has no effect.\<close>

lemma bad_first_message_no_effect:
  assumes "\<forall>s. tls = Some s \<longrightarrow> (\<exists>e. read_first_msg parse s = Inl e)"
  shows "\<exists>e. handle_tls_connection mac parse kept sys io en now tx h qport qtport stream tls reply evs st = ([], Inl e, st)"
  using assms by (cases tls) (auto simp: handle_tls_connection_def)

end
