(* ===== verification/Rendezvous.thy ===== *)
theory Rendezvous
  imports Prelude
begin

text \<open>
  What the registry promises about tunnels, without tables or channels: somebody asks for a stream under a name and
  holds a ticket, somebody else answers the name, and the answer is put under the ticket for good. The laws of tickets are
  proved here once; \<open>Tunnel_Flow\<close> shows that the registry is an implementation. The locale \<open>simulation\<close> is
  what an implementation has to show for each of its steps.
\<close>

section \<open>The specification\<close>

text \<open>Who waits under which name and with which ticket, what was answered, and the tickets given out.\<close>

record 's rendezvous =
  waiting :: "string \<rightharpoonup> nat"
  answers :: "nat \<rightharpoonup> string + 's"
  tickets :: "nat set"

definition rv_empty :: "'s rendezvous" where
  "rv_empty = \<lparr>waiting = Map.empty, answers = Map.empty, tickets = {}\<rparr>"

definition rv_ask :: "string \<Rightarrow> nat \<Rightarrow> 's rendezvous \<Rightarrow> 's rendezvous" where
  "rv_ask i t a = a\<lparr>waiting := (waiting a)(i \<mapsto> t), tickets := insert t (tickets a)\<rparr>"

definition rv_answer :: "string \<Rightarrow> string + 's \<Rightarrow> 's rendezvous \<Rightarrow> 's rendezvous" where
  "rv_answer i v a =
     (case waiting a i of
        None \<Rightarrow> a
      | Some t \<Rightarrow> a\<lparr>waiting := (waiting a)(i := None), answers := (answers a)(t \<mapsto> v)\<rparr>)"

definition rv_cancel :: "string \<Rightarrow> 's rendezvous \<Rightarrow> 's rendezvous" where
  "rv_cancel i a = a\<lparr>waiting := (waiting a)(i := None)\<rparr>"

text \<open>A ticket is new when it is given out; everything else may happen at any time.\<close>

inductive rv_step :: "'s rendezvous \<Rightarrow> 's rendezvous \<Rightarrow> bool" where
  ask: "t \<notin> tickets a \<Longrightarrow> rv_step a (rv_ask i t a)"
| answer: "rv_step a (rv_answer i v a)"
| cancel: "rv_step a (rv_cancel i a)"

lemmas rv_defs = rv_ask_def rv_answer_def rv_cancel_def

section \<open>Its laws\<close>

text \<open>Tickets in use were given out, nobody shares one, and nobody waits with one that was answered.\<close>

definition rv_ok :: "'s rendezvous \<Rightarrow> bool" where
  "rv_ok a \<longleftrightarrow> (\<forall>i t. waiting a i = Some t \<longrightarrow> t \<in> tickets a \<and> answers a t = None)
     \<and> (\<forall>i j t. waiting a i = Some t \<and> waiting a j = Some t \<longrightarrow> i = j)
     \<and> (\<forall>t v. answers a t = Some v \<longrightarrow> t \<in> tickets a)"

lemma rv_ok_empty [simp]: "rv_ok rv_empty"
  by (simp add: rv_ok_def rv_empty_def)

lemma rv_ok_step: "rv_step a b \<Longrightarrow> rv_ok a \<Longrightarrow> rv_ok b"
proof (induction rule: rv_step.induct)
  case (ask t a i)
  have new: "waiting a j \<noteq> Some t" "answers a t = None" for j
    using ask unfolding rv_ok_def by auto
  show ?case using ask(2) new unfolding rv_ok_def rv_ask_def by auto
next
  case (answer a i v)
  show ?case
  proof (cases "waiting a i")
    case (Some t)
    have "t \<in> tickets a" "\<And>j. waiting a j = Some t \<Longrightarrow> j = i"
      using answer Some unfolding rv_ok_def by blast+
    with answer Some show ?thesis unfolding rv_ok_def rv_answer_def by auto
  qed (simp add: answer rv_answer_def)
next
  case (cancel a i)
  then show ?case unfolding rv_ok_def rv_cancel_def by auto
qed

text \<open>An answer is final.\<close>

lemma rv_answer_final: "rv_step a b \<Longrightarrow> rv_ok a \<Longrightarrow> answers a t = Some v \<Longrightarrow> answers b t = Some v"
  by (induction rule: rv_step.induct) (auto simp: rv_defs rv_ok_def split: option.splits)

text \<open>A ticket that was given out stays with its name: nobody else ever waits with it.\<close>

definition holds :: "'s rendezvous \<Rightarrow> string \<Rightarrow> nat \<Rightarrow> bool" where
  "holds a i t \<longleftrightarrow> t \<in> tickets a \<and> (\<forall>j. waiting a j = Some t \<longrightarrow> j = i)"

lemma holds_step: "rv_step a b \<Longrightarrow> holds a i t \<Longrightarrow> holds b i t"
  by (induction rule: rv_step.induct) (auto simp: rv_defs holds_def split: option.splits)

lemma rv_steps:
  assumes "rv_step\<^sup>*\<^sup>* a b"
  shows "rv_ok a \<Longrightarrow> rv_ok b" "holds a i t \<Longrightarrow> holds b i t"
    "rv_ok a \<Longrightarrow> answers a t = Some v \<Longrightarrow> answers b t = Some v"
proof -
  show ok: "rv_ok a \<Longrightarrow> rv_ok b"
    using assms by (induction rule: rtranclp_induct) (auto intro: rv_ok_step)
  show "holds a i t \<Longrightarrow> holds b i t"
    using assms by (induction rule: rtranclp_induct) (auto intro: holds_step)
  show "rv_ok a \<Longrightarrow> answers a t = Some v \<Longrightarrow> answers b t = Some v"
    using assms
  proof (induction rule: rtranclp_induct)
    case (step b c)
    have "rv_ok b" using step(1,4) by (induction rule: rtranclp_induct) (auto intro: rv_ok_step)
    with step show ?case using rv_answer_final by blast
  qed
qed

section \<open>Implementations\<close>

text \<open>An implementation has an invariant under which each of its steps is a number of steps of
  the specification.\<close>

locale simulation =
  fixes cstep :: "'c \<Rightarrow> 'c \<Rightarrow> bool" and astep :: "'a \<Rightarrow> 'a \<Rightarrow> bool" and abs :: "'c \<Rightarrow> 'a" and inv :: "'c \<Rightarrow> bool"
  assumes keeps: "inv s \<Longrightarrow> cstep s s' \<Longrightarrow> inv s'"
    and simulates: "inv s \<Longrightarrow> cstep s s' \<Longrightarrow> astep\<^sup>*\<^sup>* (abs s) (abs s')"
begin

lemma run: "cstep\<^sup>*\<^sup>* s s' \<Longrightarrow> inv s \<Longrightarrow> inv s' \<and> astep\<^sup>*\<^sup>* (abs s) (abs s')"
proof (induction rule: rtranclp_induct)
  case (step s1 s2)
  with keeps simulates show ?case by (meson rtranclp_trans)
qed simp

end

end
