(* ===== verification/Addr_Roundtrip.thy ===== *)
theory Addr_Roundtrip
  imports Client_Session
begin

text \<open>
  Socket addresses as text and back, in both families and with every way in which IPv6 addresses are shortened. The server puts the address
  of a public peer into its request for a tunnel as text; the client parses it for the PROXY header it writes to
  the local service, which so learns who is connected.
\<close>

section \<open>Numbers\<close>

lemma to_digit_hex [simp]: "d < 16 \<Longrightarrow> to_digit 16 (hex_char d) = Some d"
  by (auto simp: to_digit_def hex_digit_def hex_char_def byte_def Let_def)

lemma to_digit_dec [simp]: "d < 10 \<Longrightarrow> to_digit 10 (digit_char d) = Some d"
  by (auto simp: to_digit_def hex_digit_def digit_char_def byte_def Let_def)

lemma digits_value_snoc:
  "digits_value radix acc (s @ [c]) = digits_value radix acc s * radix + (case to_digit radix c of None \<Rightarrow> 0 | Some d \<Rightarrow> d)"
  by (induction s arbitrary: acc) simp_all

text \<open>A way to write numbers that the parser's way of reading them undoes: the decimal and the hexadecimal one.\<close>

locale positional =
  fixes radix :: nat and digit :: "nat \<Rightarrow> char" and written :: "nat \<Rightarrow> string"
  assumes radix: "1 < radix"
    and digit: "d < radix \<Longrightarrow> to_digit radix (digit d) = Some d"
    and written: "written n = (if n < radix then [digit n] else written (n div radix) @ [digit (n mod radix)])"
begin

lemma one: "n < radix \<Longrightarrow> written n = [digit n]"
  by (subst written) simp

lemma more: "\<not> n < radix \<Longrightarrow> written n = written (n div radix) @ [digit (n mod radix)]"
  by (subst written) simp

lemma number_induct [case_names digit step]:
  assumes "\<And>n. n < radix \<Longrightarrow> P n" "\<And>n. \<not> n < radix \<Longrightarrow> P (n div radix) \<Longrightarrow> P n"
  shows "P n"
proof (induction n rule: less_induct)
  case (less n)
  show ?case
  proof (cases "n < radix")
    case False
    then have "n div radix < n" using radix by (intro div_less_dividend) auto
    with less False assms(2) show ?thesis by blast
  qed (rule assms(1))
qed

lemma reads_back: "digits_value radix 0 (written n) = n"
  by (induction n rule: number_induct) (use radix in \<open>simp_all add: one more digit digits_value_snoc\<close>)

lemma digits: "c \<in> set (written n) \<Longrightarrow> to_digit radix c \<noteq> None"
  by (induction n rule: number_induct) (use radix in \<open>auto simp: one more digit\<close>)

lemma nonempty: "written n \<noteq> []"
  by (subst written) simp

lemma short: "n < radix ^ Suc k \<Longrightarrow> length (written n) \<le> Suc k"
proof (induction k arbitrary: n)
  case 0
  then show ?case by (subst written) simp
next
  case (Suc k)
  have "n div radix < radix ^ Suc k" using Suc.prems by (simp add: less_mult_imp_div_less mult.commute)
  with Suc.IH[of "n div radix"] show ?case by (subst written) auto
qed

text \<open>Only zero starts with a zero.\<close>

lemma leading: "length (written n) > 1 \<Longrightarrow> to_digit radix (hd (written n)) \<noteq> Some 0"
proof (induction n rule: number_induct)
  case (step n)
  have n0: "n div radix \<noteq> 0" using step(1) radix by (simp add: div_eq_0_iff)
  have w: "written n = written (n div radix) @ [digit (n mod radix)]" by (rule more[OF step(1)])
  show ?case
  proof (cases "n div radix < radix")
    case True
    then have "written (n div radix) = [digit (n div radix)]" by (rule one)
    with n0 True w show ?thesis by (simp add: digit)
  next
    case False
    then have "written (n div radix) = written (n div radix div radix) @ [digit (n div radix mod radix)]" by (rule more)
    then have "length (written (n div radix)) > 1" using nonempty[of "n div radix div radix"] by (cases "written (n div radix div radix)") auto
    with step(2) w nonempty show ?thesis by simp
  qed
qed (simp add: one)

text \<open>The parser reads a number that is followed by something else.\<close>

lemma read:
  assumes "n < limit" "length (written n) \<le> most" "rest = [] \<or> to_digit radix (hd rest) = None"
    and "to_digit radix (CHR ''0'') = Some 0"
  shows "read_number radix most zeros limit (written n @ rest) = Some (n, rest)"
proof -
  have t: "takeWhile (\<lambda>c. to_digit radix c \<noteq> None) (written n @ rest) = written n"
    using assms(3) digits by (subst takeWhile_append2) (auto simp: takeWhile_eq_Nil_iff)
  have "\<not> (hd (written n) = CHR ''0'' \<and> length (written n) > 1)" using leading[of n] assms(4) by auto
  with assms(1,2) nonempty[of n] show ?thesis unfolding read_number_def t Let_def by (simp add: reads_back)
qed

end

interpretation dec: positional 10 digit_char show_nat
  by unfold_locales (simp, simp, rule show_nat.simps)

interpretation hex: positional 16 hex_char show_hex
  by unfold_locales (simp, simp, rule show_hex.simps)

lemma to_digit_zero [simp]: "to_digit 10 (CHR ''0'') = Some 0" "to_digit 16 (CHR ''0'') = Some 0"
  by (simp_all add: to_digit_def hex_digit_def byte_def)

lemma to_digit_none [simp]:
  "to_digit r (CHR ''.'') = None" "to_digit r (CHR '':'') = None" "to_digit r (CHR '']'') = None" "to_digit r (CHR ''['') = None"
  by (simp_all add: to_digit_def hex_digit_def byte_def)

section \<open>IPv4\<close>

abbreviation no_digit :: "nat \<Rightarrow> string \<Rightarrow> bool" where
  "no_digit radix rest \<equiv> rest = [] \<or> to_digit radix (hd rest) = None"

lemma read_octet_show:
  "no_digit 10 rest \<Longrightarrow> read_octet 0 (show_nat (unat a) @ rest) = Some (a, rest)"
  "no_digit 10 rest \<Longrightarrow> read_octet (Suc i) (CHR ''.'' # show_nat (unat a) @ rest) = Some (a, rest)"
proof -
  have "length (show_nat (unat a)) \<le> 3" using dec.short[of "unat a" 2] unat_u8_less[of a] by (simp add: numeral_3_eq_3)
  then have "read_number 10 3 False 256 (show_nat (unat a) @ rest) = Some (unat a, rest)" if "no_digit 10 rest"
    by (intro dec.read) (use that unat_u8_less[of a] in auto)
  then show "no_digit 10 rest \<Longrightarrow> read_octet 0 (show_nat (unat a) @ rest) = Some (a, rest)"
    "no_digit 10 rest \<Longrightarrow> read_octet (Suc i) (CHR ''.'' # show_nat (unat a) @ rest) = Some (a, rest)"
    by (simp_all add: read_octet_def read_given_char_def)
qed

lemma read_ipv4_show: "no_digit 10 rest \<Longrightarrow> read_ipv4 (show_ipv4 a b c d @ rest) = Some ((a, b, c, d), rest)"
  by (simp add: read_ipv4_def show_ipv4_def read_octet_show eval_nat_numeral)

text \<open>Without a dot, or without a digit to start with, there is no such address.\<close>

lemma read_number_rest: "read_number radix m z l s = Some (v, u) \<Longrightarrow> set u \<subseteq> set s"
  by (auto simp: read_number_def Let_def split: if_splits dest: in_set_dropD)

lemma read_ipv4_dotless: "CHR ''.'' \<notin> set s \<Longrightarrow> read_ipv4 s = None"
  by (auto simp: read_ipv4_def read_octet_def read_given_char_def split: option.splits list.splits dest!: read_number_rest)

lemma read_number_none: "no_digit radix s \<Longrightarrow> read_number radix m z l s = None"
  by (cases s) (auto simp: read_number_def Let_def)

lemma read_ipv4_none: "no_digit 10 s \<Longrightarrow> read_ipv4 s = None"
  by (simp add: read_ipv4_def read_octet_def read_number_none)

section \<open>IPv6\<close>

definition hextet :: "u16 \<Rightarrow> string" where
  "hextet g = show_hex (unat g)"

lemma read_group: "no_digit 16 rest \<Longrightarrow> read_number 16 4 True 65536 (hextet g @ rest) = Some (unat g, rest)"
proof -
  assume "no_digit 16 rest"
  moreover have "length (show_hex (unat g)) \<le> 4" using hex.short[of "unat g" 3] unat_u16_less[of g] by simp
  ultimately show ?thesis unfolding hextet_def using unat_u16_less[of g] by (intro hex.read) simp_all
qed

lemma group_digit: "CHR ''.'' \<notin> set (hextet g)"
  unfolding hextet_def using hex.digits[of "CHR ''.''" "unat g"] by auto

text \<open>The groups after the first.\<close>

definition more_groups :: "u16 list \<Rightarrow> string" where
  "more_groups gs = concat (map (\<lambda>g. CHR '':'' # hextet g) gs)"

lemma show_groups_Cons: "show_groups (g # gs) = hextet g @ more_groups gs"
proof -
  have "join_colon (w # ws) = w @ concat (map (\<lambda>v. CHR '':'' # v) ws)" for w ws
    by (induction ws arbitrary: w) simp_all
  then show ?thesis by (simp add: show_groups_def more_groups_def hextet_def o_def)
qed

lemma more_groups_dotless: "CHR ''.'' \<notin> set (more_groups gs)"
  by (auto simp: more_groups_def group_digit)

lemma show_groups_dotless: "CHR ''.'' \<notin> set (show_groups gs)"
  by (cases gs) (simp_all add: show_groups_Cons more_groups_dotless group_digit, simp add: show_groups_def)

text \<open>What ends a list of groups: nothing that could be another one.\<close>

definition ends_groups :: "string \<Rightarrow> bool" where
  "ends_groups rest \<longleftrightarrow> CHR ''.'' \<notin> set rest \<and> no_digit 16 rest
     \<and> (case rest of [] \<Rightarrow> True | c # t \<Rightarrow> c \<noteq> CHR '':'' \<or> no_digit 16 t)"

lemma ends_groups_none: "ends_groups rest \<Longrightarrow> read_groups room i rest = ([], False, rest)"
  by (cases room) (auto simp: ends_groups_def read_ipv4_dotless read_number_none read_given_char_def Let_def split: list.splits)

lemma read_groups_next:
  assumes "s = (if i = 0 then hextet g @ u else CHR '':'' # hextet g @ u)" "CHR ''.'' \<notin> set u" "no_digit 16 u"
  shows "read_groups (Suc m) i s = (case read_groups m (Suc i) u of (gs, q, r) \<Rightarrow> (g # gs, q, r))"
proof -
  have "read_ipv4 (hextet g @ u) = None" using assms(2) by (intro read_ipv4_dotless) (simp add: group_digit)
  with read_group[OF assms(3), of g] show ?thesis by (simp add: assms(1) read_given_char_def Let_def split: prod.split)
qed

lemma more_groups_end:
  assumes "ends_groups rest"
  shows "CHR ''.'' \<notin> set (more_groups gs @ rest)" "no_digit 16 (more_groups gs @ rest)"
proof -
  show "CHR ''.'' \<notin> set (more_groups gs @ rest)" using assms by (simp add: more_groups_dotless ends_groups_def)
  show "no_digit 16 (more_groups gs @ rest)" using assms by (cases gs) (auto simp: more_groups_def ends_groups_def)
qed

lemma read_more_groups:
  assumes "ends_groups rest"
  shows "length gs \<le> room \<Longrightarrow> read_groups room (Suc i) (more_groups gs @ rest) = (gs, False, rest)"
proof (induction gs arbitrary: room i)
  case Nil
  then show ?case using assms by (simp add: more_groups_def ends_groups_none)
next
  case (Cons g gs)
  then obtain m where m: "room = Suc m" "length gs \<le> m" by (cases room) auto
  have "more_groups (g # gs) @ rest = (if Suc i = 0 then hextet g @ more_groups gs @ rest else CHR '':'' # hextet g @ more_groups gs @ rest)"
    by (simp add: more_groups_def)
  from read_groups_next[OF this more_groups_end[OF assms]] Cons.IH[OF m(2), of "Suc i"] show ?case by (simp add: m(1))
qed

lemma read_show_groups:
  assumes "ends_groups rest" "length gs \<le> room"
  shows "read_groups room 0 (show_groups gs @ rest) = (gs, False, rest)"
proof (cases gs)
  case Nil
  with assms show ?thesis by (simp add: show_groups_def ends_groups_none)
next
  case (Cons g hs)
  then obtain m where m: "room = Suc m" "length hs \<le> m" using assms(2) by (cases room) auto
  have "show_groups gs @ rest = (if (0 :: nat) = 0 then hextet g @ more_groups hs @ rest else CHR '':'' # hextet g @ more_groups hs @ rest)"
    by (simp add: Cons show_groups_Cons)
  from read_groups_next[OF this more_groups_end[OF assms(1)]] read_more_groups[OF assms(1) m(2), of 0] show ?thesis
    by (simp add: m(1) Cons)
qed

text \<open>The run that is left out is one of zeros.\<close>

lemma zero_run_zeros: "zero_run xs \<le> length xs \<and> take (zero_run xs) xs = replicate (zero_run xs) 0"
  by (induction xs) auto

lemma longest_run_zeros:
  assumes "longest_run k ys (i, n) = (j, m)" "drop k xs = ys" "i + n \<le> length xs" "take n (drop i xs) = replicate n 0"
  shows "j + m \<le> length xs \<and> take m (drop j xs) = replicate m 0"
  using assms
proof (induction ys arbitrary: k i n)
  case (Cons y ys)
  have next_ys: "drop (Suc k) xs = ys" using Cons.prems(2) by (metis drop_Suc list.sel(3) tl_drop)
  have k: "k \<le> length xs" using Cons.prems(2) by (metis drop_all list.distinct(1) nat_le_linear)
  have z: "zero_run (y # ys) \<le> length xs - k" "take (zero_run (y # ys)) (drop k xs) = replicate (zero_run (y # ys)) 0"
    using zero_run_zeros[of "drop k xs"] Cons.prems(2) by (metis length_drop)+
  show ?case
  proof (cases "zero_run (y # ys) > n")
    case True
    with Cons.prems(1) have "longest_run (Suc k) ys (k, zero_run (y # ys)) = (j, m)" by (simp del: zero_run.simps)
    from Cons.IH[OF this next_ys] z k show ?thesis by linarith
  next
    case False
    with Cons.prems(1) have "longest_run (Suc k) ys (i, n) = (j, m)" by (simp del: zero_run.simps)
    from Cons.IH[OF this next_ys Cons.prems(3,4)] show ?thesis .
  qed
qed simp

definition groups_of :: "ip_addr \<Rightarrow> u16 list" where
  "groups_of x = (case x of V6 a b c d e f g h \<Rightarrow> [a, b, c, d, e, f, g, h] | V4 _ _ _ _ \<Rightarrow> [])"

lemma read_full: "length gs = 8 \<Longrightarrow> ends_groups rest \<Longrightarrow> read_ipv6 (show_groups gs @ rest) = Some (mk_v6 gs, rest)"
  by (simp add: read_ipv6_def read_show_groups)

lemma read_shortened:
  assumes "length gs = 8" "longest_run 0 gs (0, 0) = (i, n)" "1 < n" "ends_groups rest" "\<not> (rest \<noteq> [] \<and> hd rest = CHR '':'')"
  shows "read_ipv6 (show_groups (take i gs) @ ''::'' @ show_groups (drop (i + n) gs) @ rest) = Some (mk_v6 gs, rest)"
proof -
  have run: "i + n \<le> 8" "take n (drop i gs) = replicate n 0"
    using longest_run_zeros[OF assms(2), of gs] assms(1) by simp_all
  let ?tail = "show_groups (drop (i + n) gs) @ rest"
  have "ends_groups (''::'' @ ?tail)"
    using assms(4) show_groups_dotless by (simp add: ends_groups_def)
  then have hd: "read_groups 8 0 (show_groups (take i gs) @ ''::'' @ ?tail) = (take i gs, False, ''::'' @ ?tail)"
    using assms(1) run by (intro read_show_groups) simp_all
  have tl: "read_groups (8 - (i + 1)) 0 ?tail = (drop (i + n) gs, False, rest)"
    using assms(1,3) run by (intro read_show_groups assms(4)) simp
  have "take i gs @ replicate n 0 @ drop (i + n) gs = gs"
    using run(2) by (metis append_take_drop_id drop_drop add.commute)
  moreover have "length (take i gs) = i" "8 - i - length (drop (i + n) gs) = n" using assms(1) run by simp_all
  ultimately show ?thesis
    using hd tl run assms(3) by (simp add: read_ipv6_def read_given_char_def)
qed

text \<open>An IPv4 address in an IPv6 address is written as one.\<close>

lemma read_mapped:
  assumes "no_digit 10 rest"
  shows "read_ipv6 (''::ffff:'' @ show_ipv4 (ucast (drop_bit 8 g)) (ucast g) (ucast (drop_bit 8 h)) (ucast h) @ rest)
    = Some (V6 0 0 0 0 0 0xFFFF g h, rest)"
proof -
  define four where "four = show_ipv4 (ucast (drop_bit 8 g)) (ucast g) (ucast (drop_bit 8 h)) (ucast h)"
  have four: "read_ipv4 (four @ rest) = Some ((ucast (drop_bit 8 g), ucast g, ucast (drop_bit 8 h), ucast h), rest)"
    unfolding four_def by (rule read_ipv4_show[OF assms])
  have hex: "read_number 16 4 True 65536 (''ffff:'' @ four @ rest) = Some (65535, '':'' @ four @ rest)"
    by (simp add: read_number_def to_digit_def hex_digit_def byte_def Let_def)
  have start: "read_groups (Suc 7) 0 (''::ffff:'' @ four @ rest) = ([], False, ''::ffff:'' @ four @ rest)"
    by (subst read_groups.simps(2)) (simp add: read_ipv4_none read_number_none)
  have "read_groups (Suc 5) (Suc 0) ('':'' @ four @ rest) = ([g, h], True, rest)"
    using four by (subst read_groups.simps(2)) (simp add: read_given_char_def Let_def)
  moreover have "read_ipv4 (''ffff:'' @ four @ rest) = None" by (rule read_ipv4_none) (simp add: to_digit_def hex_digit_def byte_def)
  ultimately have "read_groups (Suc (Suc 5)) 0 (''ffff:'' @ four @ rest) = ([0xFFFF, g, h], True, rest)"
    using hex by (subst read_groups.simps(2)) (simp add: Let_def)
  moreover have "8 = Suc 7" "8 - (length ([] :: u16 list) + 1) = Suc (Suc 5)" by simp_all
  moreover have "mk_v6 (replicate 5 0 @ [0xFFFF, g, h]) = V6 0 0 0 0 0 0xFFFF g h" by (simp add: mk_v6_def numeral_eq_Suc)
  ultimately show ?thesis using start unfolding four_def[symmetric] read_ipv6_def
    by (simp add: read_given_char_def del: read_groups.simps)
qed

section \<open>Addresses with ports\<close>

lemma read_port_show: "read_port (CHR '':'' # show_nat (unat p)) = Some (p, [])"
proof -
  have "read_number 10 (length (show_nat (unat p))) True 65536 (show_nat (unat p) @ []) = Some (unat p, [])"
    by (rule dec.read) (use unat_u16_less[of p] in simp_all)
  then show ?thesis by (simp add: read_port_def read_given_char_def)
qed

lemma ends_groups_port: "ends_groups (CHR '']'' # CHR '':'' # show_nat n)"
proof -
  have "CHR ''.'' \<notin> set (show_nat n)" using dec.digits[of "CHR ''.''" n] by auto
  then show ?thesis by (simp add: ends_groups_def)
qed

lemma read_ipv6_show:
  "read_ipv6 (show_ip (V6 a b c d e f g h) @ CHR '']'' # CHR '':'' # show_nat n) = Some (V6 a b c d e f g h, CHR '']'' # CHR '':'' # show_nat n)"
proof (cases "[a, b, c, d, e] = [0, 0, 0, 0, 0] \<and> f = 0xFFFF")
  case True
  with read_mapped[of "CHR '']'' # CHR '':'' # show_nat n" g h] show ?thesis by simp
next
  case False
  define gs where "gs = [a, b, c, d, e, f, g, h]"
  have gs: "length gs = 8" "mk_v6 gs = V6 a b c d e f g h" by (simp_all add: gs_def mk_v6_def)
  obtain i k where run: "longest_run 0 gs (0, 0) = (i, k)" by (cases "longest_run 0 gs (0, 0)")
  have shown: "show_ip (V6 a b c d e f g h) = (if k > 1 then show_groups (take i gs) @ ''::'' @ show_groups (drop (i + k) gs) else show_groups gs)"
    unfolding show_ip.simps if_not_P[OF False] Let_def gs_def[symmetric] run prod.case ..
  show ?thesis
  proof (cases "k > 1")
    case True
    with read_shortened[OF gs(1) run True ends_groups_port, of n] show ?thesis by (simp add: shown gs(2) del: show_ip.simps)
  next
    case False
    with read_full[OF gs(1) ends_groups_port, of n] show ?thesis by (simp add: shown gs(2) del: show_ip.simps)
  qed
qed

text \<open>Every address, of either family, with the longest run of zeros left out or an embedded
  IPv4 address, is read back from its text as it was.\<close>

theorem socket_addr_roundtrip: "parse_socket_addr (show_socket_addr a) = Some a"
proof (cases "ip a")
  case (V4 w x y z)
  then obtain p where a: "a = \<lparr>ip = V4 w x y z, port = p\<rparr>" by (cases a) simp
  have "read_ipv4 (show_ipv4 w x y z @ CHR '':'' # show_nat (unat p)) = Some ((w, x, y, z), CHR '':'' # show_nat (unat p))"
    by (rule read_ipv4_show) simp
  then show ?thesis by (simp add: a parse_socket_addr_def parse_v4_socket_def show_socket_addr_def is_ipv4_def read_port_show)
next
  case (V6 b c d e f g h i)
  then obtain p where a: "a = \<lparr>ip = V6 b c d e f g h i, port = p\<rparr>" by (cases a) simp
  have s: "show_socket_addr a = CHR ''['' # show_ip (V6 b c d e f g h i) @ CHR '']'' # CHR '':'' # show_nat (unat p)"
    by (simp add: a show_socket_addr_def is_ipv4_def del: show_ip.simps)
  have "parse_v4_socket (show_socket_addr a) = None" unfolding s by (simp add: parse_v4_socket_def read_ipv4_none del: show_ip.simps)
  moreover have "parse_v6_socket (show_socket_addr a) = Some a"
    unfolding s using read_ipv6_show[of b c d e f g h i "unat p"]
    by (simp add: a parse_v6_socket_def read_given_char_def skip_scope_def read_port_show del: show_ip.simps)
  ultimately show ?thesis by (simp add: parse_socket_addr_def)
qed

end
