(* ===== verification/Tunnel_Flow.thy ===== *)
theory Tunnel_Flow
  imports Rendezvous Control_Theorems Inbound Client_Main Addr_Roundtrip "HOL-Library.Sublist"
begin

text \<open>
  Tunnels from the request to the copy. The registry implements the rendezvous of \<open>Rendezvous\<close>, whatever its other
  operations do in between; so a stream reaches the connection it was asked for and no other, and a public connection is
  connected through server, client and back when both ends follow the protocol.
\<close>

section \<open>The operations that are about tunnels\<close>

definition tunnels :: "'s registry \<Rightarrow> 's rendezvous" where
  "tunnels r = \<lparr>waiting = hm_get (pending_work r), answers = map_of (work_results r), tickets = {..<next_work r}\<rparr>"

text \<open>All others leave the tables of the tunnels alone, and messages that were sent stay sent.\<close>

definition apart :: "'s registry \<Rightarrow> 's registry \<Rightarrow> bool" where
  "apart r' r \<longleftrightarrow> pending_work r' = pending_work r \<and> work_results r' = work_results r \<and> next_work r' = next_work r
     \<and> prefix (sent_messages r) (sent_messages r')"

lemma apart_refl [simp]: "apart r r"
  by (simp add: apart_def)

lemma apart_trans: "apart r3 r2 \<Longrightarrow> apart r2 r1 \<Longrightarrow> apart r3 r1"
  unfolding apart_def by (auto intro: prefix_order.trans)

lemma apart_ports_only: "ports_only r' r \<Longrightarrow> apart r' r"
proof -
  assume "ports_only r' r"
  then obtain k ap where "r' = r\<lparr>next_port := k, allocated_ports := ap\<rparr>" unfolding ports_only_def by blast
  then show ?thesis by (simp add: apart_def)
qed

lemma apart_stop_listener [simp]: "apart (stop_listener p n r) r"
  by (simp add: apart_def stop_listener_def split: option.split)

lemma apart_leave_group [simp]: "apart (leave_group g n r) r"
  by (simp add: apart_def leave_group_def Let_def split: option.split)

lemma apart_register_one:
  assumes "register_one now cid tx svc r = (a, r')"
  shows "apart r' r"
  using assms
proof (cases rule: register_one_cases)
  case same
  then show ?thesis by (simp add: apart_ports_only)
next
  case (reg svc' r1)
  have p: "apart (publish now cid tx svc' q) q" for q :: "'a registry"
    by (simp add: apart_def publish_def Let_def split: option.split)
  have q: "apart (retire_previous n e svc' q) q" for n e and q :: "'a registry"
    unfolding retire_previous_def Let_def
    by (rule apart_trans[OF apart_leave_group]) (auto simp: apart_def stop_listener_def split: option.split)
  have "apart r1 r" by (rule apart_ports_only[OF assign_port_frame(1)[OF reg(4)]])
  with q have "apart (case entry_at r (svc_name svc) of None \<Rightarrow> r1 | Some e \<Rightarrow> retire_previous (svc_name svc) e svc' r1) r"
    by (auto split: option.split intro: apart_trans)
  with p show ?thesis unfolding reg(5) by (rule apart_trans)
qed

lemma apart_register_all: "register_all now cid tx svcs r = (as, r') \<Longrightarrow> apart r' r"
proof (induction svcs arbitrary: r as)
  case (Cons svc svcs)
  obtain a r1 where one: "register_one now cid tx svc r = (a, r1)" by (cases "register_one now cid tx svc r")
  then obtain bs where "register_all now cid tx svcs r1 = (bs, r')" using Cons.prems by (auto split: prod.splits)
  with Cons.IH apart_register_one[OF one] show ?case by (blast intro: apart_trans)
qed simp

lemma apart_register_services: "register_services now cid tx svcs r = (as, r') \<Longrightarrow> apart r' r"
proof -
  assume "register_services now cid tx svcs r = (as, r')"
  then have "apart r' (enter_session cid tx r)" unfolding register_services_def by (rule apart_register_all)
  moreover have "apart (enter_session cid tx r) r" by (simp add: apart_def enter_session_def Let_def)
  ultimately show ?thesis by (rule apart_trans)
qed

lemma apart_remove_names: "apart (snd (remove_names ns r)) r"
proof (induction ns arbitrary: r)
  case (Cons n ns)
  have "apart (snd (remove_service n r)) r"
    unfolding remove_service_def Let_def
    by (auto split: option.split simp: apart_def leave_group_def Let_def)
  with Cons show ?case by (auto simp: case_prod_beta intro: apart_trans)
qed simp

lemma apart_remove_client_services: "apart (remove_client_services cid r) r"
proof -
  have stop: "apart (fold (\<lambda>l. stop_listener (fst l) (snd l)) ls q) q" for ls and q :: "'a registry"
    by (induction ls arbitrary: q) (auto intro: apart_trans[OF _ apart_stop_listener])
  have "apart (snd (remove_names ns (r\<lparr>client_services := m\<rparr>))) r" for ns m
    by (rule apart_trans[OF apart_remove_names]) (simp add: apart_def)
  then show ?thesis
    unfolding remove_client_services_def Let_def case_prod_beta by (rule apart_trans[OF stop])
qed

lemma apart_unregister: "apart (unregister_client cid r) r"
  unfolding unregister_client_def by (rule apart_trans[OF apart_remove_client_services]) (simp add: apart_def)

lemma apart_sends: "apart (snd (send_message tx m r)) r"
  by (simp add: apart_def send_message_def)

lemma apart_static:
  "apart (cancel_static_response i r) r" "apart (cancel_static_responses_for_control tx r) r"
  "apart (cancel_static_response_for_control i tx r) r"
  "apart (snd (queue_recv q r)) r" "apart (queue_drop q r) r"
  by (simp_all add: apart_def cancel_static_response_def cancel_static_responses_for_control_def
      cancel_static_response_for_control_def queue_recv_def queue_drop_def Let_def split: option.split list.split)

lemma apart_request: "apart (snd (request_static_response i e req r)) r"
  by (simp add: apart_def request_static_response_def send_message_def cancel_static_response_def Let_def)

lemma apart_deliver: "apart (snd (deliver_static_response tx i d eof r)) r"
  by (simp add: apart_def deliver_static_response_def try_send_def cancel_static_response_for_control_def
      cancel_static_response_def Let_def split: option.split)

lemma apart_entries:
  "apart (report_health now n h r) r" "apart (record_traffic n a b r) r" "apart (snd (toggle_service n x r)) r"
  "apart (run_health_monitor now r) r" "apart (snd (get_group_service g r)) r"
  by (simp_all add: apart_def report_health_def record_traffic_def toggle_service_def update_entry_def monitor_store
      get_group_service_def Let_def split: option.split list.split)

lemma apart_sessions:
  "apart (register_listener p n l r) r" "apart (remove_listener_handle p n r) r" "apart (snd (release_control cid tx r)) r"
  "apart (r\<lparr>dead_channels := d\<rparr>) r"
  by (simp_all add: apart_def register_listener_def remove_listener_handle_def release_control_def split: option.split)

lemmas apart_rules = apart_register_services apart_remove_client_services apart_unregister apart_sends apart_static
  apart_request apart_deliver apart_entries apart_sessions apart_stop_listener

text \<open>A step of the registry is one of the four operations of a tunnel, or apart from all tunnels.\<close>

lemma tunnel_step_cases:
  assumes "registry_step P r r'"
  obtains (ask) i e src dst where "r' = snd (open_tunnel_begin i e src dst r)"
  | (wait_over) i n where "r' = snd (open_tunnel_end i n r)"
  | (complete) i t where "r' = snd (complete_tunnel i t r)"
  | (reject) i err where "r' = reject_tunnel i err r"
  | (apart) "apart r' r"
  using assms by (cases rule: registry_step.cases) (blast intro: apart_rules)+

section \<open>The registry implements the rendezvous\<close>

definition tunnels_wf :: "'s registry \<Rightarrow> bool" where
  "tunnels_wf r \<longleftrightarrow> hm_wf (pending_work r) \<and> rv_ok (tunnels r)"

lemma tunnels_sel [simp]:
  "waiting (tunnels r) = hm_get (pending_work r)" "answers (tunnels r) = map_of (work_results r)"
  "tickets (tunnels r) = {..<next_work r}"
  by (simp_all add: tunnels_def)

lemma tunnels_apart: "apart r' r \<Longrightarrow> tunnels r' = tunnels r"
  by (simp add: apart_def tunnels_def)

lemma tunnels_open:
  "tunnels (snd (open_tunnel_begin i e src dst r)) =
     (let a = rv_ask i (next_work r) (tunnels r) in if control_tx e \<in> dead_channels r then rv_cancel i a else a)"
  by (auto simp: tunnels_def open_tunnel_begin_def send_message_def cancel_pending_tunnel_def rv_ask_def rv_cancel_def
      Let_def fun_eq_iff lessThan_Suc)

lemma tunnels_cancel: "tunnels (cancel_pending_tunnel i r) = rv_cancel i (tunnels r)"
  by (simp add: tunnels_def cancel_pending_tunnel_def rv_cancel_def fun_eq_iff)

lemma tunnels_end:
  assumes "hm_wf (pending_work r)"
  shows "tunnels (snd (open_tunnel_end i n r)) =
     (if answers (tunnels r) n = None \<and> n \<in> ran (waiting (tunnels r)) then rv_cancel i (tunnels r) else tunnels r)"
proof -
  have "n \<in> snd ` set (pending_work r) \<longleftrightarrow> n \<in> ran (hm_get (pending_work r))"
    using assms by (force simp: ran_def hm_get_iff_set)
  then show ?thesis by (simp add: open_tunnel_end_def tunnels_cancel split: option.split sum.split)
qed

lemma tunnels_complete:
  assumes "rv_ok (tunnels r)"
  shows "tunnels (snd (complete_tunnel i t r)) = rv_answer i (Inr t) (tunnels r)"
    and "tunnels (reject_tunnel i err r) = rv_answer i (Inl err) (tunnels r)"
proof -
  have "map_of (work_results r @ [(n, v)]) = (map_of (work_results r))(n \<mapsto> v)"
    if "hm_get (pending_work r) i = Some n" for n v
    using assms that by (auto simp: rv_ok_def map_add_def fun_eq_iff split: option.split)
  then show "tunnels (snd (complete_tunnel i t r)) = rv_answer i (Inr t) (tunnels r)"
    "tunnels (reject_tunnel i err r) = rv_answer i (Inl err) (tunnels r)"
    by (auto simp: tunnels_def complete_tunnel_def reject_tunnel_def rv_answer_def fun_eq_iff split: option.split)
qed

lemma pending_wf_step: "registry_step P r r' \<Longrightarrow> hm_wf (pending_work r) \<Longrightarrow> hm_wf (pending_work r')"
  by (erule tunnel_step_cases)
    (auto simp: open_tunnel_begin_def send_message_def cancel_pending_tunnel_def open_tunnel_end_def complete_tunnel_def
       reject_tunnel_def apart_def Let_def split: option.splits sum.splits)

lemma registry_simulates:
  assumes "tunnels_wf r" "registry_step P r r'"
  shows "rv_step\<^sup>*\<^sup>* (tunnels r) (tunnels r')"
proof -
  have wf: "hm_wf (pending_work r)" "rv_ok (tunnels r)" using assms(1) by (simp_all add: tunnels_wf_def)
  have new: "rv_step (tunnels r) (rv_ask i (next_work r) (tunnels r))" for i by (rule ask) simp
  show ?thesis
    using assms(2)
  proof (cases rule: tunnel_step_cases)
    case (ask i e src dst)
    have "rv_step\<^sup>*\<^sup>* (tunnels r) (rv_cancel i (rv_ask i (next_work r) (tunnels r)))"
      using new[of i] cancel by (meson converse_rtranclp_into_rtranclp r_into_rtranclp)
    with new[of i] show ?thesis unfolding ask tunnels_open Let_def by auto
  next
    case (wait_over i n)
    then show ?thesis unfolding wait_over tunnels_end[OF wf(1)] by (auto intro: r_into_rtranclp cancel)
  qed (auto simp: tunnels_complete[OF wf(2)] tunnels_apart intro: r_into_rtranclp answer)
qed

interpretation tunnel_sim: simulation "registry_step P" rv_step tunnels tunnels_wf
proof
  fix r r' :: "'a registry"
  assume ok: "tunnels_wf r" and step: "registry_step P r r'"
  from registry_simulates[OF ok step] show sim: "rv_step\<^sup>*\<^sup>* (tunnels r) (tunnels r')" .
  from ok pending_wf_step[OF step] rv_steps(1)[OF sim] show "tunnels_wf r'" by (simp add: tunnels_wf_def)
qed

lemma reachable_rtranclp: "registry_reachable P r0 r \<longleftrightarrow> (registry_step P)\<^sup>*\<^sup>* r0 r"
proof
  show "registry_reachable P r0 r \<Longrightarrow> (registry_step P)\<^sup>*\<^sup>* r0 r"
    by (induction rule: registry_reachable.induct) (auto intro: rtranclp.rtrancl_into_rtrancl)
  show "(registry_step P)\<^sup>*\<^sup>* r0 r \<Longrightarrow> registry_reachable P r0 r"
    by (induction rule: rtranclp_induct) (auto intro: registry_reachable.intros)
qed

lemmas tunnel_run = tunnel_sim.run[folded reachable_rtranclp]

lemma tunnels_fresh [simp]: "tunnels (new_with_network_policy pmin pmax q b priv prot res) = rv_empty"
  by (simp add: tunnels_def rv_empty_def new_with_network_policy_def hm_get_def fun_eq_iff)

lemma tunnels_wf_fresh [simp]: "tunnels_wf (new_with_network_policy pmin pmax q b priv prot res)"
  by (simp add: tunnels_wf_def) (simp add: new_with_network_policy_def)

text \<open>\<^bold>\<open>C15\<close>: the registry is a rendezvous. Whatever the tasks of the server do, in any order, the tables of the registry
  take only steps that the specification allows: tickets are given out once, a ticket has one name and an answer is put under it
  once and for all. In each reachable registry the operations are those of the specification: attaching a stream succeeds exactly
  when somebody waits under the name and answers with that stream; a rejection answers with its reason; and the
  waiter reads the answer to its own ticket, or gives the name up when there is none.\<close>

theorem registry_refines_rendezvous:
  assumes "registry_reachable P (new_with_network_policy pmin pmax q b priv prot res) r"
  shows "rv_step\<^sup>*\<^sup>* rv_empty (tunnels r) \<and> rv_ok (tunnels r)
    \<and> fst (complete_tunnel i t r) = (waiting (tunnels r) i \<noteq> None)
    \<and> tunnels (snd (complete_tunnel i t r)) = rv_answer i (Inr t) (tunnels r)
    \<and> tunnels (reject_tunnel i err r) = rv_answer i (Inl err) (tunnels r)
    \<and> (\<forall>n r1. open_tunnel_begin i e src dst r = (Inr n, r1) \<longrightarrow>
          n \<notin> tickets (tunnels r) \<and> tunnels r1 = rv_ask i n (tunnels r))
    \<and> (case fst (open_tunnel_end i n r) of
         Inr u \<Rightarrow> answers (tunnels r) n = Some (Inr u) \<and> snd (open_tunnel_end i n r) = r
       | Inl _ \<Rightarrow> (\<forall>u. answers (tunnels r) n \<noteq> Some (Inr u))
           \<and> tunnels (snd (open_tunnel_end i n r)) \<in> {tunnels r, rv_cancel i (tunnels r)})"
proof -
  have wf: "tunnels_wf r" and run: "rv_step\<^sup>*\<^sup>* rv_empty (tunnels r)" using tunnel_run[OF assms] by simp_all
  then have ok: "hm_wf (pending_work r)" "rv_ok (tunnels r)" by (simp_all add: tunnels_wf_def)
  have "fst (complete_tunnel i t r) = (waiting (tunnels r) i \<noteq> None)"
    by (simp add: complete_tunnel_def split: option.split)
  moreover have "n \<notin> tickets (tunnels r) \<and> tunnels r1 = rv_ask i n (tunnels r)"
    if o: "open_tunnel_begin i e src dst r = (Inr n, r1)" for n r1
  proof -
    have "control_tx e \<notin> dead_channels r" "n = next_work r"
      using o by (auto simp: open_tunnel_begin_def send_message_def Let_def split: if_splits)
    with o tunnels_open[of i e src dst r] show ?thesis by simp
  qed
  moreover have "case fst (open_tunnel_end i n r) of
         Inr u \<Rightarrow> answers (tunnels r) n = Some (Inr u) \<and> snd (open_tunnel_end i n r) = r
       | Inl _ \<Rightarrow> (\<forall>u. answers (tunnels r) n \<noteq> Some (Inr u))
           \<and> tunnels (snd (open_tunnel_end i n r)) \<in> {tunnels r, rv_cancel i (tunnels r)}"
    by (auto simp: open_tunnel_end_def tunnels_cancel split: option.split sum.split)
  ultimately show ?thesis using run ok(2) tunnels_complete[OF ok(2)] by blast
qed

text \<open>A request on a fresh registry, and its completion.\<close>

theorem registry_refines_rendezvous_witness:
  "\<exists>r. registry_reachable (\<lambda>_. True) (demo :: nat registry) r \<and> rv_step\<^sup>*\<^sup>* rv_empty (tunnels r)
     \<and> waiting (tunnels r) ''id'' = Some 0 \<and> answers (tunnels (snd (complete_tunnel ''id'' 42 r))) 0 = Some (Inr 42)"
proof -
  define e where "e = new_entry (tcp_service ''a'' 9000) ''c'' 1 0"
  define r where "r = snd (open_tunnel_begin ''id'' e None None (demo :: nat registry))"
  have reach: "registry_reachable (\<lambda>_. True) demo r"
    unfolding r_def by (rule reach_next[OF reach_init step_open])
  have w: "waiting (tunnels r) ''id'' = Some 0"
    by (simp add: r_def open_tunnel_begin_def send_message_def demo_def new_with_network_policy_def Let_def)
  have "rv_step\<^sup>*\<^sup>* rv_empty (tunnels r)" "tunnels (snd (complete_tunnel ''id'' 42 r)) = rv_answer ''id'' (Inr 42) (tunnels r)"
    using registry_refines_rendezvous[OF reach[unfolded demo_def], of "''id''" 42 "[]" e None None 0] by blast+
  with reach w show ?thesis by (intro exI[of _ r]) (simp add: rv_answer_def)
qed

section \<open>A stream goes to the connection that asked for it\<close>

text \<open>While the request is pending the waiter holds its ticket.\<close>

lemma open_tunnel_pending:
  assumes "open_tunnel_begin i e src dst r = (Inr n, r1)"
  shows "hm_get (pending_work r1) i = Some n" "n = next_work r" "registry_step P r r1"
    "sent_messages r1 = sent_messages r @ [(control_tx e, new_open i (show_opt_addr src) (show_opt_addr dst) (config e))]"
    "work_results r1 = work_results r" "control_tx e \<notin> dead_channels r"
proof -
  show "registry_step P r r1" using step_open[of P r i e src dst] by (simp add: assms)
qed (use assms in \<open>auto simp: open_tunnel_begin_def send_message_def Let_def split: if_splits\<close>)

lemma holds_pending: "tunnels_wf r \<Longrightarrow> hm_get (pending_work r) i = Some n \<Longrightarrow> holds (tunnels r) i n"
  unfolding tunnels_wf_def rv_ok_def holds_def tunnels_sel by blast

text \<open>Where the answer to a ticket comes from.\<close>

lemma answered_step:
  assumes "registry_step P r r'" "map_of (work_results r') n = Some (Inr t)" "map_of (work_results r) n \<noteq> Some (Inr t)"
  shows "\<exists>j. hm_get (pending_work r) j = Some n \<and> r' = snd (complete_tunnel j t r)"
  using assms(1)
proof (cases rule: tunnel_step_cases)
  case (ask i e src dst)
  with assms(2,3) show ?thesis by (simp add: open_tunnel_begin_def send_message_def cancel_pending_tunnel_def Let_def split: if_splits)
next
  case (wait_over i k)
  with assms(2,3) show ?thesis by (simp add: open_tunnel_end_def cancel_pending_tunnel_def split: option.splits sum.splits if_splits)
next
  case (complete i u)
  show ?thesis
  proof (cases "hm_get (pending_work r) i")
    case None
    with complete assms(2,3) show ?thesis by (simp add: complete_tunnel_def)
  next
    case (Some m)
    with complete have "work_results r' = work_results r @ [(m, Inr u)]" by (simp add: complete_tunnel_def)
    with assms(2,3) have "m = n" "u = t" by (simp_all add: map_add_def split: option.splits if_splits)
    with Some complete show ?thesis by blast
  qed
next
  case (reject i err)
  have "work_results r' = work_results r \<or> (\<exists>m. work_results r' = work_results r @ [(m, Inl err)])"
    by (auto simp: reject reject_tunnel_def split: option.split)
  with assms(2,3) show ?thesis by (auto simp: map_add_def split: option.splits if_splits)
next
  case apart
  with assms(2,3) show ?thesis by (simp add: apart_def)
qed

lemma answer_origin:
  assumes "registry_reachable P r1 r2" "tunnels_wf r1" "holds (tunnels r1) i n"
    and "map_of (work_results r1) n = None" "map_of (work_results r2) n = Some (Inr t)"
  shows "\<exists>ra. registry_reachable P r1 ra \<and> hm_get (pending_work ra) i = Some n
    \<and> registry_reachable P (snd (complete_tunnel i t ra)) r2"
  using assms
proof (induction rule: registry_reachable.induct)
  case (reach_next r r')
  have run: "tunnels_wf r" "holds (tunnels r) i n"
    using tunnel_run[OF reach_next(1,4)] rv_steps(2) reach_next(5) by blast+
  show ?case
  proof (cases "map_of (work_results r) n = Some (Inr t)")
    case True
    with reach_next obtain ra where "registry_reachable P r1 ra" "hm_get (pending_work ra) i = Some n"
      "registry_reachable P (snd (complete_tunnel i t ra)) r" by blast
    with reach_next(2) show ?thesis by (blast intro: registry_reachable.reach_next)
  next
    case False
    with run(2) answered_step[OF reach_next(2,7)]
    have "hm_get (pending_work r) i = Some n" "r' = snd (complete_tunnel i t r)" by (auto simp: holds_def)
    with reach_next(1) show ?thesis by (blast intro: reach_init)
  qed
qed simp

text \<open>\<^bold>\<open>C8\<close>: no stream goes astray. A connection that was given a stream asked for it: between its request and the end of its
  wait the stream was attached under the identifier of this very request, while this request was the
  one pending; whatever other requests, answers, time-outs and registrations came before, between and after.\<close>

theorem tunnel_handover:
  assumes "registry_reachable P (new_with_network_policy pmin pmax q b priv prot res) r"
    and "open_tunnel_begin i e src dst r = (Inr n, r1)" "registry_reachable P r1 r2"
    and "open_tunnel_end i n r2 = (Inr t, r3)"
  shows "\<exists>ra. registry_reachable P r1 ra \<and> hm_get (pending_work ra) i = Some n
    \<and> registry_reachable P (snd (complete_tunnel i t ra)) r2"
proof (rule answer_origin[OF assms(3)])
  note o = open_tunnel_pending[OF assms(2)]
  have wf: "tunnels_wf r" using tunnel_run[OF assms(1)] by simp
  show wf1: "tunnels_wf r1" by (rule tunnel_sim.keeps[OF wf o(3)])
  show "holds (tunnels r1) i n" by (rule holds_pending[OF wf1 o(1)])
  show "map_of (work_results r1) n = None" using wf1 o(1) by (simp add: tunnels_wf_def rv_ok_def)
  show "map_of (work_results r2) n = Some (Inr t)"
    using assms(4) by (auto simp: open_tunnel_end_def split: option.splits sum.splits if_splits)
qed

text \<open>Two requests that overlap, with the second answered first: each waiter gets the stream of its own request.\<close>

theorem tunnel_handover_witness:
  "\<exists>(r1 :: nat registry) r2 ra. open_tunnel_begin ''x'' (new_entry (tcp_service ''a'' 9000) ''c'' 1 0) None None demo = (Inr 0, r1)
     \<and> open_tunnel_end ''x'' 0 r2 = (Inr 7, r2) \<and> open_tunnel_end ''y'' 1 r2 = (Inr 8, r2)
     \<and> registry_reachable (\<lambda>_. True) r1 ra \<and> hm_get (pending_work ra) ''x'' = Some 0
     \<and> registry_reachable (\<lambda>_. True) (snd (complete_tunnel ''x'' 7 ra)) r2"
proof -
  define e where "e = new_entry (tcp_service ''a'' 9000) ''c'' 1 0"
  define r1 where "r1 = snd (open_tunnel_begin ''x'' e None None (demo :: nat registry))"
  define ry where "ry = snd (open_tunnel_begin ''y'' e None None r1)"
  define r2 where "r2 = snd (complete_tunnel ''x'' 7 (snd (complete_tunnel ''y'' 8 ry)))"
  have reach: "registry_reachable (\<lambda>_. True) r1 r2"
    unfolding r2_def ry_def by (blast intro: registry_reachable.intros step_open step_complete)
  note ev = open_tunnel_begin_def send_message_def demo_def new_with_network_policy_def Let_def hm_insert_def hm_get_def hm_remove_def
  have o: "open_tunnel_begin ''x'' e None None (demo :: nat registry) = (Inr 0, r1)" by (simp add: r1_def ev)
  have x: "open_tunnel_end ''x'' 0 r2 = (Inr 7, r2)" "open_tunnel_end ''y'' 1 r2 = (Inr 8, r2)"
    by (simp_all add: r2_def ry_def r1_def complete_tunnel_def open_tunnel_end_def ev)
  from tunnel_handover[OF reach_init o[unfolded demo_def] reach x(1)] o x show ?thesis unfolding e_def by blast
qed

section \<open>A connection from end to end\<close>

text \<open>The identifier of a request: sixteen random bytes, which are the argument, in hexadecimal. Two requests have
  the same identifier only if they drew the same bytes.\<close>

definition random_id :: "nat list \<Rightarrow> string" where
  "random_id bs = hex_encode bs"

lemma random_id_nonempty: "bs \<noteq> [] \<Longrightarrow> random_id bs \<noteq> []"
  by (cases bs) (simp_all add: random_id_def hex_encode_def)

lemma hex_lower_inj:
  assumes "d < 16" "e < 16" "hex_lower d = hex_lower e"
  shows "d = e"
proof -
  have v: "of_char (hex_lower x) = (if x < 10 then 48 + x else 87 + x)" if "x < 16" for x :: nat
    using that by (simp add: hex_lower_def)
  have "(if d < 10 then 48 + d else 87 + d) = (if e < 10 then 48 + e else 87 + e)"
    using v[OF assms(1)] v[OF assms(2)] assms(3) by metis
  then show ?thesis using assms(1,2) by (simp split: if_splits)
qed

lemma random_id_inj:
  assumes "list_all (\<lambda>b. b < 256) bs" "list_all (\<lambda>b. b < 256) cs" "random_id bs = random_id cs"
  shows "bs = cs"
  using assms
proof (induction bs arbitrary: cs)
  case Nil
  then show ?case by (cases cs) (simp_all add: random_id_def hex_encode_def)
next
  case (Cons b bs)
  then obtain c cs' where cs: "cs = c # cs'" by (cases cs) (simp_all add: random_id_def hex_encode_def)
  have eq: "hex_lower (b div 16) = hex_lower (c div 16)" "hex_lower (b mod 16) = hex_lower (c mod 16)" "random_id bs = random_id cs'"
    using Cons.prems(3) by (simp_all add: cs random_id_def hex_encode_def)
  have "b div 16 < 16" "c div 16 < 16" using Cons.prems(1,2) by (auto simp: cs)
  then have "b div 16 = c div 16" "b mod 16 = c mod 16" using eq by (simp_all add: hex_lower_inj)
  then have "b = c" by (metis div_mult_mod_eq)
  with Cons cs eq(3) show ?case by simp
qed

text \<open>So requests that drew different bytes leave each other alone: whatever is asked, answered, rejected or given up under one identifier,
  the other request stays pending.\<close>

theorem other_requests_stay:
  assumes "bs \<noteq> cs" "list_all (\<lambda>b. b < 256) bs" "list_all (\<lambda>b. b < 256) cs"
    and "hm_get (pending_work r) (random_id bs) = Some n"
  shows "hm_get (pending_work (snd (open_tunnel_begin (random_id cs) e src dst r))) (random_id bs) = Some n
    \<and> hm_get (pending_work (snd (open_tunnel_end (random_id cs) k r))) (random_id bs) = Some n
    \<and> hm_get (pending_work (snd (complete_tunnel (random_id cs) t r))) (random_id bs) = Some n
    \<and> hm_get (pending_work (reject_tunnel (random_id cs) err r)) (random_id bs) = Some n"
proof -
  have "random_id bs \<noteq> random_id cs" using random_id_inj[OF assms(2,3)] assms(1) by blast
  with assms(4) show ?thesis
    by (simp add: open_tunnel_begin_def open_tunnel_end_def complete_tunnel_def reject_tunnel_def send_message_def
        cancel_pending_tunnel_def Let_def split: option.split sum.split)
qed

text \<open>What was sent stays sent, and an answer stays.\<close>

lemma sent_reachable: "registry_reachable P r r' \<Longrightarrow> prefix (sent_messages r) (sent_messages r')"
proof (induction rule: registry_reachable.induct)
  case (reach_next r1 r2)
  from reach_next(2) have "prefix (sent_messages r1) (sent_messages r2)"
    by (cases rule: tunnel_step_cases)
      (simp_all add: open_tunnel_begin_def send_message_def cancel_pending_tunnel_def open_tunnel_end_def complete_tunnel_def
        reject_tunnel_def apart_def Let_def split: option.split sum.split)
  with reach_next(3) show ?case by (rule prefix_order.trans)
qed simp

lemma completed_stays:
  assumes "tunnels_wf r" "hm_get (pending_work r) i = Some n" "registry_reachable P (snd (complete_tunnel i t r)) r'"
  shows "open_tunnel_end i n r' = (Inr t, r')"
proof -
  have wf: "tunnels_wf (snd (complete_tunnel i t r))" by (rule tunnel_sim.keeps[OF assms(1) step_complete])
  have "answers (tunnels (snd (complete_tunnel i t r))) n = Some (Inr t)"
    using assms(1,2) tunnels_complete(1)[of r i t] by (simp add: tunnels_wf_def rv_answer_def)
  moreover have "rv_step\<^sup>*\<^sup>* (tunnels (snd (complete_tunnel i t r))) (tunnels r')" using tunnel_run[OF assms(3) wf] by blast
  ultimately have "answers (tunnels r') n = Some (Inr t)" using rv_steps(3) wf unfolding tunnels_wf_def by blast
  then show ?thesis by (simp add: open_tunnel_end_def)
qed

text \<open>What the client makes of the request, and the two messages with which its tunnel presents itself.\<close>

lemma open_message_taken:
  "client_message now (new_open i addr laddr svc) s =
     Go (s\<lparr>last_pong := now, opened := opened s @ [(i, addr, svc)]\<rparr>)"
  by (simp add: client_message_def new_open_def opt_str_def Let_def)

lemma connect_tunnel_messages:
  assumes "connect_transport net tk addr qport = Inr endpoint" "name_ok net sname" "tls_ok net"
    and "got_challenge net = Some (new_challenge x)" "got_reply net = Some (new_ready [] 0 0)"
  shows "connect_tunnel mac net tk addr qport sname key tid
    = ([new_tunnel_hello tid, new_auth (mac key (proof_message ''tunnel'' [] tid x))], Inr endpoint)"
proof -
  have "m_nonce (new_challenge x) = Some x" by (simp add: new_challenge_def default_message_def)
  with assms show ?thesis
    by (simp add: connect_tunnel_def authenticate_tunnel_def answer_challenge_def compute_proof_def opt_str_def Let_def)
qed

text \<open>\<^bold>\<open>C4\<close>: a public connection reaches the client and comes back. The server asks for a tunnel while its tasks go on in any order;
  the request is among the messages for the client's control channel, and the client takes it as the task of
  connecting this very service to a tunnel of this identifier. If the waiter has not given up and the client, which knows the key,
  can reach the server, the two messages it sends on the new connection are all that the server needs: it answers that the tunnel is ready,
  and whatever happens in the meantime the public connection wakes up with this stream, writes what precedes the
  data to it, and its copy is accounted to the service.\<close>

theorem connection_end_to_end:
  fixes st :: "'s control"
  assumes "registry_reachable P (new_with_network_policy pmin pmax q b priv prot res) r"
    and asked: "open_tunnel_begin tid e (Some src) dst r = (Inr n, r1)" "tid = random_id bs" "length bs = 16"
    and wait: "registry_reachable P r1 (reg st)" "hm_get (pending_work (reg st)) tid = Some n"
    and server: "hm_wf (pending (auth st))" "t_cleanup en - t_insert en < secs 60" "\<forall>m. io m" "hmac_key (auth st) = key"
    and client: "connect_transport net tk addr qport = Inr endpoint" "name_ok net sname" "tls_ok net"
      "got_challenge net = Some (new_challenge (nonce en))" "got_reply net = Some (new_ready [] 0 0)"
  shows "\<exists>st' hello am. new_open tid (show_socket_addr src) (show_opt_addr dst) (config e) \<in> set (outgoing (control_tx e) 0 (reg st))
    \<and> client_message now (new_open tid (show_socket_addr src) (show_opt_addr dst) (config e)) s
        = Go (s\<lparr>last_pong := now, opened := opened s @ [(tid, show_socket_addr src, config e)]\<rparr>)
    \<and> connect_tunnel mac net tk addr qport sname key tid = ([hello, am], Inr endpoint)
    \<and> handle_connection mac parse kept sys io en now tx h qp qtp stream hello (Some am) evs st
        = ([new_challenge (nonce en), new_ready [] 0 0], Inr (), st')
    \<and> (\<forall>r2. registry_reachable P (reg st') r2 \<longrightarrow>
        open_tunnel_end tid n r2 = (Inr stream, r2)
        \<and> (wr (tunnel_preamble e src dst rep) \<longrightarrow>
            relay_inbound_tunnel tid (\<lambda>_. r2) wr (Some (a, c)) name e src dst rep r
              = (Inr (), tunnel_preamble e src dst rep, record_traffic name a c r2)))"
proof -
  note o = open_tunnel_pending[OF asked(1)]
  have tid: "tid \<noteq> []" unfolding asked(2) by (rule random_id_nonempty) (use asked(3) in auto)
  have "tunnels_wf r1" using tunnel_run[OF assms(1)] tunnel_sim.keeps[OF _ o(3)] by simp
  then have wf: "tunnels_wf (reg st)" using tunnel_run[OF wait(1)] by blast
  have sent: "new_open tid (show_socket_addr src) (show_opt_addr dst) (config e) \<in> set (outgoing (control_tx e) 0 (reg st))"
    using set_mono_prefix[OF sent_reachable[OF wait(1)]] o(4) by (force simp: outgoing_def show_opt_addr_def)
  define am where "am = new_auth (mac key (proof_message ''tunnel'' [] tid (nonce en)))"
  obtain st' where hc: "handle_connection mac parse kept sys io en now tx h qp qtp stream (new_tunnel_hello tid) (Some am) evs st
      = ([new_challenge (nonce en), new_ready [] 0 0], Inr (), st')" and st': "reg st' = snd (complete_tunnel tid stream (reg st))"
    using tunnel_outcome[OF server(1,2) tid server(3), of mac stream] wait(2) server(4)
    by (auto simp: am_def handle_connection_def new_tunnel_hello_def default_message_def)
  have woken: "open_tunnel_end tid n r2 = (Inr stream, r2)" if "registry_reachable P (reg st') r2" for r2
    using completed_stays[OF wf wait(2)] that by (simp add: st')
  have "relay_inbound_tunnel tid (\<lambda>_. r2) wr (Some (a, c)) name e src dst rep r
      = (Inr (), tunnel_preamble e src dst rep, record_traffic name a c r2)"
    if "registry_reachable P (reg st') r2" "wr (tunnel_preamble e src dst rep)" for r2
    using woken[OF that(1)] that(2) asked(1) by (simp add: relay_inbound_tunnel_def Let_def)
  with sent hc woken connect_tunnel_messages[OF client, of mac key tid, folded am_def] open_message_taken show ?thesis by blast
qed

text \<open>A connection from port 5 of a peer to a service of a client that dials over TCP.\<close>

theorem connection_end_to_end_witness:
  "\<exists>st hello am st' r2. connect_tunnel demo_mac \<lparr>tcp_connects = (\<lambda>_. True), nodelay_ok = True, lookup_host = (\<lambda>_ _. None), qcp_dials = (\<lambda>_. False),
        name_ok = (\<lambda>_. True), tls_ok = True, got_challenge = Some (new_challenge demo_nonce), got_reply = Some (new_ready [] 0 0)\<rparr>
        Tcp ''s:1'' 0 ''s'' ''k'' (random_id (replicate 16 0)) = ([hello, am], Inr ''s:1'')
     \<and> handle_connection demo_mac (\<lambda>_. None) (\<lambda>_. []) demo_os (\<lambda>_. True) demo_entropy 0 1 0 0 0 (7 :: nat) hello (Some am) [] st
        = ([new_challenge demo_nonce, new_ready [] 0 0], Inr (), st')
     \<and> relay_inbound_tunnel (random_id (replicate 16 0)) (\<lambda>_. r2) (\<lambda>_. True) (Some (10, 20)) ''a'' (new_entry (tcp_service ''a'' 9000) ''c'' 1 0)
          \<lparr>ip = V4 1 2 3 4, port = 5\<rparr> None [65] demo = (Inr (), [65], record_traffic ''a'' 10 20 r2)"
proof -
  define net where "net = \<lparr>tcp_connects = (\<lambda>_. True), nodelay_ok = True, lookup_host = (\<lambda>_ _. None), qcp_dials = (\<lambda>_. False),
        name_ok = (\<lambda>_. True), tls_ok = True, got_challenge = Some (new_challenge demo_nonce), got_reply = Some (new_ready [] 0 0)\<rparr>"
  define e where "e = new_entry (tcp_service ''a'' 9000) ''c'' 1 0"
  define src where "src = \<lparr>ip = V4 1 2 3 4, port = 5\<rparr>"
  define r1 where "r1 = snd (open_tunnel_begin (random_id (replicate 16 0)) e (Some src) None (demo :: nat registry))"
  define st where "st = demo_control\<lparr>reg := r1\<rparr>"
  have o: "open_tunnel_begin (random_id (replicate 16 0)) e (Some src) None (demo :: nat registry) = (Inr 0, r1)" "hm_get (pending_work (reg st)) (random_id (replicate 16 0)) = Some 0"
    by (simp_all add: st_def r1_def open_tunnel_begin_def send_message_def demo_def new_with_network_policy_def Let_def hm_get_def hm_insert_def)
  have srv: "hm_wf (pending (auth st))" "t_cleanup demo_entropy - t_insert demo_entropy < secs 60" "\<forall>m :: message. (\<lambda>_. True) m"
    "hmac_key (auth st) = ''k''" "reg st = r1"
    by (simp_all add: st_def demo_control_def new_auth_state_def demo_entropy_def secs_def)
  have cl: "connect_transport net Tcp ''s:1'' 0 = Inr ''s:1''" "name_ok net ''s''" "tls_ok net"
    "got_challenge net = Some (new_challenge (nonce demo_entropy))" "got_reply net = Some (new_ready [] 0 0)"
    by (simp_all add: net_def connect_transport_def demo_entropy_def)
  have pre: "tunnel_preamble e src None [65] = [65]" "nonce demo_entropy = demo_nonce"
    by (simp_all add: tunnel_preamble_def e_def new_entry_def tcp_service_def default_service_def demo_entropy_def)
  have "registry_reachable (\<lambda>_. True) r1 (reg st)" unfolding srv(5) by (rule reach_init)
  from connection_end_to_end[OF reach_init o(1)[unfolded demo_def] refl _ this o(2) srv(1-4) cl, folded demo_def,
      of 0 "demo_session []" demo_mac "\<lambda>_. None" "\<lambda>_. []" demo_os 1 0 0 0 7 "[]" "\<lambda>_. True" "[65]" 10 20 "''a''"]
  obtain st' hello am where
    "connect_tunnel demo_mac net Tcp ''s:1'' 0 ''s'' ''k'' (random_id (replicate 16 0)) = ([hello, am], Inr ''s:1'')"
    "handle_connection demo_mac (\<lambda>_. None) (\<lambda>_. []) demo_os (\<lambda>_. True) demo_entropy 0 1 0 0 0 (7 :: nat) hello (Some am) [] st
        = ([new_challenge demo_nonce, new_ready [] 0 0], Inr (), st')"
    "relay_inbound_tunnel (random_id (replicate 16 0)) (\<lambda>_. reg st') (\<lambda>_. True) (Some (10, 20)) ''a'' e src None [65] demo
      = (Inr (), [65], record_traffic ''a'' 10 20 (reg st'))"
    unfolding pre by (auto dest: spec[of _ "reg st'" for st'] intro: reach_init)
  then show ?thesis unfolding net_def e_def src_def by blast
qed

section \<open>The address of the public peer\<close>



end
