(* ===== verification/Bandwidth.thy ===== *)
theory Bandwidth
  imports Prelude Complex_Main
begin

text \<open>
  The bandwidth limiter (\<^verbatim>\<open>cross233-server/src/bandwidth.rs\<close>), a token bucket that several tasks share. Times are in
  nanoseconds of a clock that does not go back; tokens are real numbers, so the rounding of the floating-point numbers of the code is not
  modelled, and overflow of the unsigned integers wraps around.
\<close>

section \<open>The bucket\<close>

definition as_f64 :: "u64 \<Rightarrow> real" where
  "as_f64 n = real (unat n)"

record bandwidth_inner =
  bytes_per_second :: u64
  tokens :: real
  last_refill :: nat
  capacity :: real

definition new_limiter :: "u64 \<Rightarrow> nat \<Rightarrow> bandwidth_inner" where
  "new_limiter bps now =
     (let cap = as_f64 (max bps 1)
      in \<lparr>bytes_per_second = bps, tokens = cap, last_refill = now, capacity = cap\<rparr>)"

definition new_kbps :: "u64 \<Rightarrow> nat \<Rightarrow> bandwidth_inner" where
  "new_kbps kbps now = new_limiter (kbps * 1024 div 8) now"

definition rate :: "bandwidth_inner \<Rightarrow> real" where
  "rate b = as_f64 (bytes_per_second b)"

text \<open>The critical section: the bucket is refilled for the time that has passed, and the tokens are taken or the seconds to
  wait are computed. A division by zero is infinite, and there is no duration of that length.\<close>

datatype attempt = Granted | Wait real | Panicked

definition refill :: "nat \<Rightarrow> bandwidth_inner \<Rightarrow> bandwidth_inner" where
  "refill now b = b\<lparr>tokens := min (tokens b + real (now - last_refill b) / 10 ^ 9 * rate b) (capacity b), last_refill := now\<rparr>"

definition try_acquire :: "nat \<Rightarrow> u64 \<Rightarrow> bandwidth_inner \<Rightarrow> attempt \<times> bandwidth_inner" where
  "try_acquire now n b0 =
     (let b = refill now b0
      in if tokens b \<ge> as_f64 n then (Granted, b\<lparr>tokens := tokens b - as_f64 n\<rparr>)
         else if bytes_per_second b = 0 then (Panicked, b)
         else (Wait (max ((as_f64 n - tokens b) / rate b) (1 / 1000)), b))"

text \<open>The loop of one task, over the times at which it gets the lock: how it ends, or that it still waits after these. Between two of its turns the
  other tasks use the bucket: \<open>meanwhile\<close>.\<close>

datatype acquired = Done | Waiting | Panic

fun acquire :: "(bandwidth_inner \<Rightarrow> bandwidth_inner) \<Rightarrow> u64 \<Rightarrow> nat list \<Rightarrow> bandwidth_inner \<Rightarrow> acquired \<times> bandwidth_inner" where
  "acquire meanwhile n ts b =
     (if n = 0 then (Done, b)
      else case ts of
        [] \<Rightarrow> (Waiting, b)
      | t # rest \<Rightarrow>
          (case try_acquire t n b of
             (Granted, b1) \<Rightarrow> (Done, b1)
           | (Panicked, b1) \<Rightarrow> (Panic, b1)
           | (Wait _, b1) \<Rightarrow> acquire meanwhile n rest (meanwhile b1)))"

declare acquire.simps [simp del]

text \<open>The bucket under the turns of all tasks, in the order in which they get the lock: the bytes that were granted.\<close>

fun turns :: "(nat \<times> u64) list \<Rightarrow> bandwidth_inner \<Rightarrow> nat \<times> bandwidth_inner" where
  "turns [] b = (0, b)"
| "turns ((t, n) # xs) b =
     (case try_acquire t n b of
        (res, b1) \<Rightarrow> (case turns xs b1 of (g, b2) \<Rightarrow> ((if res = Granted then unat n else 0) + g, b2)))"

section \<open>What it bounds\<close>

definition bucket_ok :: "bandwidth_inner \<Rightarrow> bool" where
  "bucket_ok b \<longleftrightarrow> 0 \<le> tokens b \<and> tokens b \<le> capacity b \<and> capacity b = as_f64 (max (bytes_per_second b) 1)"

lemma as_f64_nonneg [simp]: "0 \<le> as_f64 n"
  by (simp add: as_f64_def del: of_nat_unat)

lemma as_f64_mono: "n \<le> m \<Longrightarrow> as_f64 n \<le> as_f64 m"
  by (simp add: as_f64_def word_le_nat_alt del: of_nat_unat)

lemma bucket_ok_new: "bucket_ok (new_limiter bps now)"
  by (simp add: bucket_ok_def new_limiter_def Let_def)

lemma refill_sel [simp]:
  "capacity (refill now b) = capacity b" "bytes_per_second (refill now b) = bytes_per_second b"
  "rate (refill now b) = rate b" "last_refill (refill now b) = now"
  by (simp_all add: refill_def rate_def)

lemma refill_bounds:
  assumes "bucket_ok b"
  shows "bucket_ok (refill now b)" "tokens b \<le> tokens (refill now b)"
    "tokens (refill now b) \<le> tokens b + real (now - last_refill b) / 10 ^ 9 * rate b"
proof -
  have "0 \<le> real (now - last_refill b) / 10 ^ 9 * rate b" by (simp add: rate_def)
  with assms show "bucket_ok (refill now b)" "tokens b \<le> tokens (refill now b)"
    "tokens (refill now b) \<le> tokens b + real (now - last_refill b) / 10 ^ 9 * rate b"
    by (simp_all add: bucket_ok_def refill_def)
qed

text \<open>One turn: the sizes are kept, and what was granted has been paid with tokens.\<close>

lemma try_acquire_effect:
  assumes "bucket_ok b" "try_acquire t n b = (res, b')"
  shows "bucket_ok b'" "rate b' = rate b" "bytes_per_second b' = bytes_per_second b" "capacity b' = capacity b" "last_refill b' = t"
    "tokens b' = tokens (refill t b) - (if res = Granted then as_f64 n else 0)"
  using assms(2) refill_bounds[OF assms(1), of t] as_f64_nonneg[of n]
  by (auto simp: try_acquire_def bucket_ok_def rate_def Let_def simp del: as_f64_nonneg split: if_splits)

lemma turns_paid:
  assumes "bucket_ok b" "sorted (last_refill b # map fst xs)" "turns xs b = (g, b')"
  shows "real g + tokens b' \<le> tokens b + real (last_refill b' - last_refill b) / 10 ^ 9 * rate b
    \<and> bucket_ok b' \<and> bytes_per_second b' = bytes_per_second b
    \<and> last_refill b' = last (last_refill b # map fst xs) \<and> last_refill b \<le> last_refill b'"
  using assms
proof (induction xs arbitrary: b g)
  case (Cons x xs)
  obtain t n where x: "x = (t, n)" by (cases x)
  obtain res b1 where a: "try_acquire t n b = (res, b1)" by (cases "try_acquire t n b")
  obtain g1 where r: "turns xs b1 = (g1, b')" "g = (if res = Granted then unat n else 0) + g1"
    using Cons.prems(3) a by (auto simp: x split: prod.splits)
  note e = try_acquire_effect[OF Cons.prems(1) a]
  have s: "sorted (last_refill b1 # map fst xs)" "last_refill b \<le> t" using Cons.prems(2) by (simp_all add: x e(5))
  note ih = Cons.IH[OF e(1) s(1) r(1), unfolded e(2,3,5)]
  have split: "real (last_refill b' - t) / 10 ^ 9 * rate b + real (t - last_refill b) / 10 ^ 9 * rate b
      = real (last_refill b' - last_refill b) / 10 ^ 9 * rate b"
    using ih s(2) by (simp add: of_nat_diff field_simps)
  have "real g = (if res = Granted then as_f64 n else 0) + real g1" by (simp add: r(2) as_f64_def del: of_nat_unat)
  with ih e(6) split refill_bounds(3)[OF Cons.prems(1), of t]
  have "real g + tokens b' \<le> tokens b + real (last_refill b' - last_refill b) / 10 ^ 9 * rate b" by linarith
  with ih s(2) show ?case by (auto simp: x)
qed simp

text \<open>The limiter limits. Whatever the tasks that share a limiter ask for and however their turns interleave, the bytes
  granted between any turn and a later one are at most what one second allows, at least one byte, and the
  rate times the time in between.\<close>

theorem bandwidth_bounded:
  assumes "sorted (now # map fst (xs @ ys))" "turns xs (new_limiter bps now) = (g, b)" "turns ys b = (g', b')"
  shows "real g' \<le> as_f64 (max bps 1) + real (last_refill b' - last_refill b) / 10 ^ 9 * as_f64 bps"
proof -
  have new: "last_refill (new_limiter bps now) = now" "bytes_per_second (new_limiter bps now) = bps"
    by (simp_all add: new_limiter_def Let_def)
  have s: "sorted (now # map fst xs)" "sorted (last (now # map fst xs) # map fst ys)"
    using assms(1) last_in_set[of "map fst xs"] by (auto simp: sorted_append) (metis fst_conv)
  then have x: "bucket_ok b" "bytes_per_second b = bps" "last_refill b = last (now # map fst xs)"
    using turns_paid[OF bucket_ok_new _ assms(2)] by (simp_all add: new)
  have "real g' + tokens b' \<le> tokens b + real (last_refill b' - last_refill b) / 10 ^ 9 * rate b \<and> bucket_ok b'"
    using turns_paid[OF x(1) s(2)[folded x(3)] assms(3)] by blast
  with x(1,2) show ?thesis by (simp add: bucket_ok_def rate_def)
qed

text \<open>Of three requests for 600 bytes at a rate of a thousand, at once and after half a second, the second is refused.\<close>

theorem bandwidth_bounded_witness:
  "fst (turns [(0, 600), (0, 600), (500000000, 600)] (new_limiter 1000 0)) = 1200
   \<and> real (fst (turns [(0, 600), (0, 600), (500000000, 600)] (new_limiter 1000 0))) \<le> 1000 + 1 / 2 * 1000"
proof -
  let ?ys = "[(0, 600), (0, 600), (500000000, 600)] :: (nat \<times> u64) list" and ?b = "new_limiter 1000 0"
  have u: "as_f64 600 = 600" "as_f64 1000 = 1000" by (simp_all add: as_f64_def)
  have m: "max 1000 1 = (1000 :: u64)" by (simp add: max_def word_le_nat_alt)
  have v: "turns ?ys ?b = (1200, \<lparr>bytes_per_second = 1000, tokens = 300, last_refill = 500000000, capacity = 1000\<rparr>)"
    by (simp add: try_acquire_def refill_def rate_def new_limiter_def Let_def m u)
  have "real 1200 \<le> as_f64 (max 1000 1) + real (500000000 - last_refill ?b) / 10 ^ 9 * as_f64 1000"
    using bandwidth_bounded[OF _ _ v, of 0 "[]" 1000 0] by simp
  with v show ?thesis by simp
qed

section \<open>When it returns\<close>

text \<open>A request of no more than the capacity is granted at the second turn at the latest, if nobody takes
  tokens in between and the task sleeps as long as it is told to.\<close>

theorem acquire_returns:
  assumes "bucket_ok b" "bytes_per_second b \<noteq> 0" "as_f64 n \<le> capacity b"
    and "\<And>w b1. try_acquire t n b = (Wait w, b1) \<Longrightarrow> w \<le> real (t' - t) / 10 ^ 9"
  shows "fst (acquire id n (t # t' # ts) b) = Done"
proof (cases "n = 0")
  case False
  obtain res b1 where a: "try_acquire t n b = (res, b1)" by (cases "try_acquire t n b")
  note e = try_acquire_effect[OF assms(1) a]
  have pos: "0 < rate b" using assms(2) by (simp add: rate_def as_f64_def unat_gt_0 del: of_nat_unat)
  show ?thesis
  proof (cases res)
    case (Wait w)
    then have "w = max ((as_f64 n - tokens b1) / rate b) (1 / 1000)"
      using a by (auto simp: try_acquire_def Let_def split: if_splits)
    then have "(as_f64 n - tokens b1) / rate b \<le> real (t' - t) / 10 ^ 9" using assms(4)[OF a[unfolded Wait]] by linarith
    then have "as_f64 n - tokens b1 \<le> real (t' - t) / 10 ^ 9 * rate b" using pos by (simp only: pos_divide_le_eq)
    then have "as_f64 n \<le> tokens (refill t' b1)" using assms(3) e by (simp add: refill_def)
    then have "fst (try_acquire t' n b1) = Granted" by (simp add: try_acquire_def Let_def)
    with a Wait False show ?thesis by (auto simp: acquire.simps[of _ _ "_ # _"] split: prod.split attempt.split)
  next
    case Panicked
    with a assms(2) show ?thesis by (auto simp: try_acquire_def Let_def split: if_splits)
  qed (use a False in \<open>simp add: acquire.simps\<close>)
qed (simp add: acquire.simps)

text \<open>A request for more than the capacity is never granted, however long the task tries and whatever the others do.\<close>

theorem acquire_above_capacity:
  assumes "0 \<le> capacity b" "capacity b < as_f64 n" "\<And>b. capacity (meanwhile b) = capacity b"
  shows "fst (acquire meanwhile n ts b) \<noteq> Done"
  using assms(1,2)
proof (induction ts arbitrary: b)
  case Nil
  then show ?case by (subst acquire.simps) (auto simp: as_f64_def)
next
  case (Cons t ts)
  obtain res b1 where a: "try_acquire t n b = (res, b1)" by (cases "try_acquire t n b")
  have "tokens (refill t b) \<le> capacity b" by (simp add: refill_def)
  with Cons.prems a have "res \<noteq> Granted" "capacity b1 = capacity b" "n \<noteq> 0"
    by (auto simp: try_acquire_def Let_def as_f64_def split: if_splits)
  with Cons a assms(3) show ?case by (subst acquire.simps) (auto split: attempt.split)
qed

text \<open>Without a rate a task that has to wait panics.\<close>

theorem zero_rate_panics:
  assumes "bucket_ok b" "bytes_per_second b = 0" "tokens b < as_f64 n" "ts \<noteq> []"
  shows "fst (acquire meanwhile n ts b) = Panic"
proof -
  obtain t rest where ts: "ts = t # rest" using assms(4) by (cases ts) auto
  have "tokens (refill t b) \<le> tokens b" using refill_bounds(3)[OF assms(1), of t] assms(2) by (simp add: rate_def as_f64_def)
  then have "try_acquire t n b = (Panicked, refill t b)" using assms(2,3) by (simp add: try_acquire_def Let_def)
  moreover have "n \<noteq> 0" using assms(1,3) by (auto simp: bucket_ok_def as_f64_def)
  ultimately show ?thesis by (simp add: ts acquire.simps)
qed

end
