(* ===== verification/Build_Script.thy ===== *)
theory Build_Script
  imports Prelude "HOL-Library.Sublist"
begin

text \<open>
  The build script of the server (\<^verbatim>\<open>cross233-server/build.rs\<close>), which puts the built web page where the server embeds it from, or a
  page of its own where there is none. The disk is a function from paths; which operations succeed is an argument.
\<close>

section \<open>Directories\<close>

datatype node = D | F string

type_synonym path = "string list"
type_synonym tree = "path \<rightharpoonup> node"

text \<open>What listing the source gives: the entries with their names, or an error.\<close>

datatype listing = Listing "(string \<times> item) list" | Unlisted
  and item = SubDir listing | Plain string | BadEntry

record build_io =
  can_create :: "path \<Rightarrow> bool"
  can_write :: "path \<Rightarrow> bool"

text \<open>A file in the way of a directory is an error too.\<close>

definition create_dir_all :: "build_io \<Rightarrow> path \<Rightarrow> tree \<Rightarrow> bool \<times> tree" where
  "create_dir_all io p d =
     (if can_create io p \<and> list_all (\<lambda>q. d q = None \<or> d q = Some D) (prefixes p)
      then (True, \<lambda>q. if prefix q p then Some D else d q)
      else (False, d))"

fun copy_dir :: "build_io \<Rightarrow> listing \<Rightarrow> path \<Rightarrow> tree \<Rightarrow> bool \<times> tree"
  and copy_entries :: "build_io \<Rightarrow> (string \<times> item) list \<Rightarrow> path \<Rightarrow> tree \<Rightarrow> bool \<times> tree" where
  "copy_dir io Unlisted dst d = (case create_dir_all io dst d of (_, d1) \<Rightarrow> (False, d1))"
| "copy_dir io (Listing es) dst d =
     (case create_dir_all io dst d of
        (False, d1) \<Rightarrow> (False, d1)
      | (True, d1) \<Rightarrow> copy_entries io es dst d1)"
| "copy_entries io [] dst d = (True, d)"
| "copy_entries io ((n, BadEntry) # es) dst d = (False, d)"
| "copy_entries io ((n, SubDir l) # es) dst d =
     (case copy_dir io l (dst @ [n]) d of
        (False, d1) \<Rightarrow> (False, d1)
      | (True, d1) \<Rightarrow> copy_entries io es dst d1)"
| "copy_entries io ((n, Plain c) # es) dst d =
     (if can_write io (dst @ [n]) \<and> d (dst @ [n]) \<noteq> Some D then copy_entries io es dst (d(dst @ [n] \<mapsto> F c)) else (False, d))"

section \<open>The script\<close>

definition fallback_page :: string where
  "fallback_page = ''<!doctype html><meta charset=\"utf-8\"><title>cross233</title><h1>cross233-server is running</h1><p>Build <code>web/</code> before Rust to include the full dashboard.</p>''"

text \<open>The source is there or not; \<open>cleared\<close> is what removing the old directory does, whose errors are ignored, like those
  of the copy. The result is the disk, or a panic.\<close>

definition build_main :: "build_io \<Rightarrow> (tree \<Rightarrow> tree) \<Rightarrow> path \<Rightarrow> listing option \<Rightarrow> tree \<Rightarrow> string + tree" where
  "build_main io cleared manifest_dir src d =
     (let dst = manifest_dir @ [''webroot''] in
      case src of
        Some l \<Rightarrow> Inr (snd (copy_dir io l dst (cleared d)))
      | None \<Rightarrow>
          (case create_dir_all io dst d of
             (False, _) \<Rightarrow> Inl ''create fallback webroot''
           | (True, d1) \<Rightarrow>
               let index = dst @ [''index.html''] in
               if d1 index \<noteq> None then Inr d1
               else if can_write io index then Inr (d1(index \<mapsto> F fallback_page))
               else Inl ''write fallback dashboard''))"

section \<open>What is embedded\<close>

text \<open>What a listing has at a path.\<close>

fun find_in :: "listing \<Rightarrow> path \<Rightarrow> node option" and find_item :: "item \<Rightarrow> path \<Rightarrow> node option" where
  "find_in Unlisted p = None"
| "find_in (Listing es) [] = Some D"
| "find_in (Listing es) (n # p) = (case map_of es n of None \<Rightarrow> None | Some i \<Rightarrow> find_item i p)"
| "find_item (SubDir l) p = find_in l p"
| "find_item (Plain c) p = (if p = [] then Some (F c) else None)"
| "find_item BadEntry p = None"

text \<open>No directory has two entries of one name.\<close>

fun well_named :: "listing \<Rightarrow> bool" and well_items :: "(string \<times> item) list \<Rightarrow> bool" where
  "well_named Unlisted = True"
| "well_named (Listing es) = well_items es"
| "well_items [] = True"
| "well_items ((n, SubDir l) # es) = (n \<notin> fst ` set es \<and> well_named l \<and> well_items es)"
| "well_items ((n, i) # es) = (n \<notin> fst ` set es \<and> well_items es)"

text \<open>A directory that is ready to be filled: it and those above it are there, and nothing has the names of the entries.\<close>

definition ready :: "(string \<times> item) list \<Rightarrow> path \<Rightarrow> tree \<Rightarrow> bool" where
  "ready es dst d \<longleftrightarrow> (\<forall>q. prefix q dst \<longrightarrow> d q = Some D) \<and> (\<forall>n \<in> fst ` set es. \<forall>p. d (dst @ n # p) = None)"

definition filled :: "(string \<times> item) list \<Rightarrow> path \<Rightarrow> tree \<Rightarrow> tree \<Rightarrow> bool" where
  "filled es dst d d' \<longleftrightarrow> (\<forall>n p i. map_of es n = Some i \<longrightarrow> d' (dst @ n # p) = find_item i p)
     \<and> (\<forall>q. (\<forall>n p. n \<in> fst ` set es \<longrightarrow> q \<noteq> dst @ n # p) \<longrightarrow> d' q = d q)"

lemma filled_other: "filled es dst d d' \<Longrightarrow> n \<notin> fst ` set es \<Longrightarrow> d' (dst @ n # p) = d (dst @ n # p)"
  unfolding filled_def by (metis append_same_eq list.inject same_append_eq)

lemma filled_Cons:
  assumes "n \<notin> fst ` set es" "\<And>p. d1 (dst @ n # p) = find_item i p" "\<And>q. (\<And>p. q \<noteq> dst @ n # p) \<Longrightarrow> d1 q = d q"
    and "filled es dst d1 d'"
  shows "filled ((n, i) # es) dst d d'"
  unfolding filled_def
proof (intro conjI allI impI)
  fix m p j assume m: "map_of ((n, i) # es) m = Some j"
  show "d' (dst @ m # p) = find_item j p"
  proof (cases "m = n")
    case True
    with assms(1) have "d' (dst @ m # p) = d1 (dst @ m # p)" using filled_other[OF assms(4)] by simp
    with True m assms(2) show ?thesis by simp
  next
    case False
    with m assms(4) show ?thesis unfolding filled_def by auto
  qed
next
  fix q assume q: "\<forall>m p. m \<in> fst ` set ((n, i) # es) \<longrightarrow> q \<noteq> dst @ m # p"
  then have "d' q = d1 q" using assms(4) unfolding filled_def by auto
  with q assms(3) show "d' q = d q" by auto
qed

lemma ready_Cons:
  assumes "ready ((n, i) # es) dst d" "n \<notin> fst ` set es" "\<And>q. (\<And>p. q \<noteq> dst @ n # p) \<Longrightarrow> d1 q = d q"
  shows "ready es dst d1"
proof -
  have "d1 q = d q" if "prefix q dst \<or> (\<exists>m \<in> fst ` set es. \<exists>p. q = dst @ m # p)" for q
    by (rule assms(3)) (use that assms(2) in \<open>auto simp: prefix_def\<close>)
  then show ?thesis using assms(1) unfolding ready_def by (auto simp: image_iff)
qed

text \<open>A directory that has been created and filled is the listing.\<close>

lemma filled_directory:
  assumes "filled es dst (\<lambda>q. if prefix q dst then Some D else d q) d'" "\<forall>p. d (dst @ p) = None" "\<forall>q. strict_prefix q dst \<longrightarrow> d q = Some D"
  shows "(\<forall>p. d' (dst @ p) = find_in (Listing es) p) \<and> (\<forall>q. \<not> prefix dst q \<longrightarrow> d' q = d q)"
proof (intro conjI allI impI)
  fix p
  show "d' (dst @ p) = find_in (Listing es) p"
  proof (cases p)
    case Nil
    with assms(1) show ?thesis unfolding filled_def by (auto dest: spec[of _ dst])
  next
    case (Cons n q)
    show ?thesis
    proof (cases "map_of es n")
      case None
      then have "n \<notin> fst ` set es" by (simp add: map_of_eq_None_iff)
      with filled_other[OF assms(1), of n q] None Cons assms(2) show ?thesis by simp
    qed (use assms(1) Cons in \<open>auto simp: filled_def\<close>)
  qed
next
  fix q assume q: "\<not> prefix dst q"
  then have "d' q = (if prefix q dst then Some D else d q)" using assms(1) unfolding filled_def by (auto simp: prefix_def)
  with assms(3) q show "d' q = d q" by (auto simp: strict_prefix_def)
qed

lemma copy_exact:
  "copy_dir io l dst d = (True, d') \<Longrightarrow> well_named l \<Longrightarrow> \<forall>p. d (dst @ p) = None \<Longrightarrow> \<forall>q. strict_prefix q dst \<longrightarrow> d q = Some D
    \<Longrightarrow> (\<forall>p. d' (dst @ p) = find_in l p) \<and> (\<forall>q. \<not> prefix dst q \<longrightarrow> d' q = d q)"
  "copy_entries io es dst d = (True, d') \<Longrightarrow> well_items es \<Longrightarrow> ready es dst d \<Longrightarrow> filled es dst d d'"
proof (induction io l dst d and io es dst d arbitrary: d' and d' rule: copy_dir_copy_entries.induct)
  case (2 io es dst d)
  let ?d1 = "\<lambda>q. if prefix q dst then Some D else d q"
  have d1: "create_dir_all io dst d = (True, ?d1)" and c: "copy_entries io es dst ?d1 = (True, d')"
    using 2(2) by (auto simp: create_dir_all_def split: if_splits)
  have "ready es dst ?d1" using 2(4) by (auto simp: ready_def)
  then have "filled es dst ?d1 d'" using 2(1)[OF d1[symmetric] refl c] 2(3) by simp
  then show ?case by (rule filled_directory[OF _ 2(4,5)])
next
  case (5 io n l es dst d)
  obtain d1 where c: "copy_dir io l (dst @ [n]) d = (True, d1)" "copy_entries io es dst d1 = (True, d')"
    using 5(3) by (auto split: prod.splits bool.splits)
  have r: "\<forall>p. d ((dst @ [n]) @ p) = None" "\<forall>q. strict_prefix q (dst @ [n]) \<longrightarrow> d q = Some D"
    using 5(5) by (auto simp: ready_def strict_prefix_def)
  have d1: "d1 (dst @ n # p) = find_item (SubDir l) p" "(\<And>p. q \<noteq> dst @ n # p) \<Longrightarrow> d1 q = d q" for p q
    using 5(1)[OF c(1) _ r] 5(4) by (auto simp: prefix_def)
  have nin: "n \<notin> fst ` set es" using 5(4) by simp
  have f: "filled es dst d1 d'"
    by (rule 5(2)[OF c(1)[symmetric] refl c(2)]) (use 5(4) ready_Cons[OF 5(5) nin d1(2)] in auto)
  show ?case by (rule filled_Cons[OF nin d1(1) d1(2) f])
next
  case (6 io n c es dst d)
  let ?d1 = "d(dst @ [n] \<mapsto> F c)"
  have c: "can_write io (dst @ [n]) \<and> d (dst @ [n]) \<noteq> Some D" "copy_entries io es dst ?d1 = (True, d')"
    using 6(2) by (auto split: if_splits)
  have nin: "n \<notin> fst ` set es" using 6(3) by simp
  have d1: "?d1 (dst @ n # p) = find_item (Plain c) p" "(\<And>p. q \<noteq> dst @ n # p) \<Longrightarrow> ?d1 q = d q" for p q
    using 6(4) by (auto simp: ready_def)
  have f: "filled es dst ?d1 d'"
    by (rule 6(1)[OF c]) (use 6(3) ready_Cons[OF 6(4) nin d1(2)] in auto)
  show ?case by (rule filled_Cons[OF nin d1(1) d1(2) f])
qed (auto simp: filled_def split: prod.splits)

text \<open>When the copy succeeds into a directory that has been removed, what is embedded is the built page, file by file, and nothing else
  on the disk has changed.\<close>

theorem build_embeds_page:
  assumes "copy_dir io l (manifest_dir @ [''webroot'']) (cleared d) = (True, d')" "well_named l"
    and "\<forall>p. cleared d (manifest_dir @ ''webroot'' # p) = None" "\<forall>q. prefix q manifest_dir \<longrightarrow> cleared d q = Some D"
  shows "build_main io cleared manifest_dir (Some l) d = Inr d'
    \<and> (\<forall>p. d' (manifest_dir @ ''webroot'' # p) = find_in l p) \<and> (\<forall>q. \<not> prefix (manifest_dir @ [''webroot'']) q \<longrightarrow> d' q = cleared d q)"
proof -
  have "\<forall>q. strict_prefix q (manifest_dir @ [''webroot'']) \<longrightarrow> cleared d q = Some D"
    using assms(4) by (auto simp: strict_prefix_def)
  with copy_exact(1)[OF assms(1,2)] assms(1,3) show ?thesis by (simp add: build_main_def Let_def)
qed

text \<open>Without a built page an index that is there already is kept, and else there is the fallback.\<close>

theorem build_fallback:
  assumes "build_main io cleared m None d = Inr d'"
  shows "d' (m @ [''webroot'', ''index.html'']) = (case d (m @ [''webroot'', ''index.html'']) of None \<Rightarrow> Some (F fallback_page) | Some x \<Rightarrow> Some x)"
  using assms by (auto simp: build_main_def create_dir_all_def Let_def prefix_def split: if_splits prod.splits option.splits)

end
