(* ===== verification/Qcp_Sockets.thy ===== *)
theory Qcp_Sockets
  imports Qcp_Link Addr_Roundtrip
begin

text \<open>
  The entry points of QCP, which take addresses as text (\<^verbatim>\<open>bind_udp\<close>, \<^verbatim>\<open>listen\<close>, \<^verbatim>\<open>dial\<close> in \<^verbatim>\<open>cross233-qcp/src/lib.rs\<close>). Creating and
  binding the socket is an argument: its local address, or the error of the operating system, which does not mind failures to enlarge its buffers.
\<close>

datatype domain = IPV4 | IPV6

type_synonym bind_os = "domain \<Rightarrow> socket_addr \<Rightarrow> string + socket_addr"

definition bind_udp :: "bind_os \<Rightarrow> string \<Rightarrow> string + socket_addr" where
  "bind_udp sys addr =
     (case parse_socket_addr addr of
        None \<Rightarrow> Inl ''invalid socket address syntax''
      | Some a \<Rightarrow> sys (if is_ipv4 (ip a) then IPV4 else IPV6) a)"

definition listen :: "bind_os \<Rightarrow> string \<Rightarrow> qcp_error + (socket_addr \<times> socket_addr listener)" where
  "listen sys addr =
     (case bind_udp sys addr of
        Inl e \<Rightarrow> Inl (Io e)
      | Inr l \<Rightarrow> Inr (l, new_listener))"

definition dial :: "bind_os \<Rightarrow> instant \<Rightarrow> string \<Rightarrow> (nat \<Rightarrow> socket_addr dial_wait) \<Rightarrow> qcp_error + core" where
  "dial sys now addr waits =
     (case bind_udp sys ''0.0.0.0:0'' of
        Inl e \<Rightarrow> Inl (Io e)
      | Inr _ \<Rightarrow>
          (case parse_socket_addr addr of
             None \<Rightarrow> Inl (Handshake ''bad address'')
           | Some peer \<Rightarrow> fst (dial_transport now peer waits)))"

text \<open>The address to which the socket of a dialer is bound.\<close>

lemma any_address: "''0.0.0.0:0'' = show_socket_addr \<lparr>ip = V4 0 0 0 0, port = 0\<rparr>"
  by (simp add: show_socket_addr_def is_ipv4_def show_ipv4_def show_nat.simps digit_char_def char_of_def bit_0)

text \<open>Whoever dials the address that a listener reports, as text, exchanges its datagrams with that address; the dialer's own socket
  is always one of IPv4.\<close>

theorem dial_listener:
  assumes "listen sys addr = Inr (l, lst)" "sys' IPV4 \<lparr>ip = V4 0 0 0 0, port = 0\<rparr> = Inr own"
  shows "dial sys' now (show_socket_addr l) waits = fst (dial_transport now l waits) \<and> lst = new_listener
    \<and> (\<exists>a. parse_socket_addr addr = Some a \<and> sys (if is_ipv4 (ip a) then IPV4 else IPV6) a = Inr l)"
proof -
  have "bind_udp sys' ''0.0.0.0:0'' = Inr own"
    using assms(2) by (simp only: bind_udp_def any_address socket_addr_roundtrip) (simp add: is_ipv4_def)
  then show ?thesis
    using assms(1) by (auto simp: dial_def socket_addr_roundtrip listen_def bind_udp_def split: option.splits sum.splits)
qed

text \<open>A text that is no address is refused before anything is sent.\<close>

theorem dial_bad_address:
  "parse_socket_addr addr = None \<Longrightarrow> dial sys now addr waits \<in> {Inl (Handshake ''bad address'')} \<union> range (\<lambda>e. Inl (Io e))"
  by (auto simp: dial_def split: sum.splits)

end
