(* ===== verification/Spec2Isabelle.thy ===== *)
theory Spec2Isabelle
  imports Qcp_Limits Qcp_Stream Static_Relay Vhost_Http Qcp_Service Health_Theorems Web_Theorems Client_Main Server_Start Listeners
    Tunnel_Flow Bandwidth Build_Script Qcp_Sockets
begin

text \<open>
  A verification of cross233, a tunnel for exposing local services through a public server. All paths
  below are relative to \<^verbatim>\<open>src/\<close>.

  \<^bold>\<open>The program.\<close> Clients (\<^verbatim>\<open>cross233-client\<close>) connect to a server (\<^verbatim>\<open>cross233-server\<close>), prove that they know a
  shared key, and register services. The server opens a public port or a virtual host for each service. When a
  public peer connects, the server asks the client over its control channel to open a tunnel, the client connects
  back and to the local service, and the bytes are copied in both directions. Requests to a static service may be answered
  over the control channel instead, with the tunnel as fall-back. Tunnels run over TCP or over QCP
  (\<^verbatim>\<open>cross233-qcp\<close>), a reliable protocol on UDP. Messages and cryptographic helpers are shared in
  \<^verbatim>\<open>cross233-protocol\<close>.

  \<^bold>\<open>Foundations.\<close> \<open>Prelude\<close> has the machine integers, byte encodings and generic lemmas; \<open>Hash_Map\<close> the hash map as an
  association list without repeated keys; \<open>Rust_Strings\<close> UTF-8, trimming, splitting, case and numbers; \<open>Net_Addr\<close> IP and socket
  addresses with their text, \<open>Addr_Roundtrip\<close> that they are read back from it; \<open>Bounded_Log\<close> queues that keep the last entries, as a locale with an interpretation for each
  of the two ways the code bounds them.

  \<^bold>\<open>QCP\<close> (\<^verbatim>\<open>cross233-qcp/src/lib.rs\<close>). \<open>Qcp_Wire\<close>: packets, \<^verbatim>\<open>encode\<close>, \<^verbatim>\<open>decode\<close> and their round trip. \<open>Qcp_Core\<close>: the state of a
  connection, \<^verbatim>\<open>handle_packet\<close>, sending, acknowledgements, the window, retransmission. \<open>Qcp_Invariant\<close>: the bounds of this
  state. \<open>Qcp_Reassembly\<close>: fragments in any order, with repetitions, give the message exactly once. \<open>Qcp_Flow\<close>: reachable states, the
  window, giving up. \<open>Qcp_Link\<close>: sender, unreliable network and receiver together; listener and dialer. \<open>Qcp_Stream\<close>: the
  byte stream as a refinement of a queue of bytes. \<open>Qcp_Sockets\<close>: the entry points, with addresses as text. \<open>Qcp_Limits\<close>: where these guarantees end.

  \<^bold>\<open>Protocol.\<close> \<open>Message\<close>: messages, services and their predicates (\<^verbatim>\<open>cross233-protocol/src/msg.rs\<close>). \<open>Ndjson\<close>: messages
  as lines, with the writers and the three readers. \<open>Auth\<close>: challenges and proofs (\<^verbatim>\<open>cross233-server/src/auth.rs\<close>, \<^verbatim>\<open>crypto.rs\<close>) as a transition system
  whose every accepted proof was made for this role and nonce. \<open>Key_Files\<close>: the key and the certificate on disk.
  \<open>Proxy_Protocol\<close>: the headers of the PROXY protocol.

  \<^bold>\<open>Server\<close> (\<^verbatim>\<open>cross233-server/src\<close>). \<open>Server_Config\<close>: configuration and validation. \<open>Service_Registry\<close>: the shared state of
  \<^verbatim>\<open>service.rs\<close>, every operation of it. \<open>Registry_Steps\<close> makes these operations the steps of a transition system;
  \<open>Registry_Ports\<close>, \<open>Registry_Theorems\<close>, \<open>Registry_Relay\<close> and \<open>Registry_Types\<close> prove its invariants: who owns a port, that sessions leave
  nothing, the bounds of the static relay, and that no table refers to an entry that is not there. \<open>Udp_Manager\<close>: UDP services.
  \<open>Control_Session\<close> and \<open>Control_Theorems\<close>: connections of clients, tunnels and visitors (\<^verbatim>\<open>control.rs\<close>). \<open>Listeners\<close>: accept loops.
  \<open>Inbound\<close> and \<open>Static_Relay\<close>: connections of public peers, and static responses from the file to the peer. \<open>Vhost_Http\<close>, \<open>Vhost_Tls\<close>:
  virtual hosts, the multiplexer and the parser of TLS server names, with every access to a buffer checked. \<open>Qcp_Service\<close>:
  public QCP and tunnels over QCP. \<open>Health_Monitor\<close>, \<open>Health_Theorems\<close>: the health of services, together with the reports of clients.
  \<open>Metrics\<close>: histories as refinements of unbounded ones. \<open>Web_Api\<close>, \<open>Web_Theorems\<close>: the web interface and who may use it.
  \<open>Server_Start\<close>: from the command line to running tasks. \<open>Bandwidth\<close>: the token bucket (\<^verbatim>\<open>bandwidth.rs\<close>), which the program does not
  use. \<open>Build_Script\<close>: how the web page gets into the server (\<^verbatim>\<open>build.rs\<close>).

  \<^bold>\<open>Tunnels.\<close> \<open>Rendezvous\<close> is the abstract specification of how a connection that waits and a stream that arrives find each other: tickets
  that are given out once, belong to one name and are answered once. \<open>Tunnel_Flow\<close> shows that the registry implements it under all of its
  operations in any order (a simulation, as a locale), that no stream goes to another connection than the one that asked, and that a
  public connection is carried from the server's request through the client's session and back; also what the PROXY protocol tells
  the local service.

  \<^bold>\<open>Client\<close> (\<^verbatim>\<open>cross233-client/src\<close>). \<open>Client_Config\<close>: configuration files, includes, command line. \<open>Static_Files\<close>: the file server and
  that it stays below its root. \<open>Transport\<close>: the choice between TCP and QCP and its cache. \<open>Client_Session\<close>, \<open>Client_Tasks\<close>,
  \<open>Client_Open\<close>: handshakes, messages of the server, health checks, tunnels. \<open>Client_Run\<close>: TLS, reconnection, the status page.
  \<open>Client_Main\<close>: a session as a whole, and what the program starts.

  \<^bold>\<open>This theory\<close> has the properties that span components: no client ever gets a port of the server
  under the server's configuration; a configured client comes online on a validated server, from the handshake to its status page;
  the handshakes of both ends fit; and what the two ends do with datagrams and visitors.

  \<^bold>\<open>How code becomes definitions.\<close> Structs are records and enums datatypes, with a prefix where Isabelle's
  names clash. Integers keep their width where the code computes with them. Shared state is passed and returned; entries of the registry, which
  the code shares by reference, are in a store and referred to by index. Channels, sockets and tasks are named by numbers,
  and what was sent on them is a list. Fallible functions return a sum whose left side is the error; panics are
  results of their own. Asynchronous loops are recursive functions over the list of events they wait for, so they
  need no fuel: a loop that would wait for ever is one whose list of events has ended, and theorems that something
  happens say which events lead to it. Where other tasks may run while one waits, what they do is an argument
  (\<open>meanwhile\<close>, \<open>mw1\<close>, \<open>before\<close>). Bounded retries are recursions on the number of attempts.

  \<^bold>\<open>Parameters.\<close> HMAC (\<open>mac\<close>), JSON (\<open>parse\<close>, \<open>to_json\<close>), TOML and YAML (\<open>formats\<close>), base64, file systems, PEM and rustls (\<open>pem\<close>), certificates that are
  generated, clocks and random bytes (\<open>entropy\<close>), what can be bound or connected (\<open>os\<close>, \<open>dial_env\<close>, \<open>network\<close>), which writes succeed (\<open>io\<close>), what the
  asynchronous runtime keeps of a cancelled read (\<open>kept\<close>), and the division of floating-point numbers in rates. What a
  theorem needs of them is among its assumptions, and its witness has a concrete instance.

  \<^bold>\<open>Not modelled.\<close> The HTTP framework of the web interface (requests come with the route they matched), TLS and
  the JSON encoding themselves; the copying of bytes between two streams, which is tokio's and whose counts are arguments;
  log output; time-outs other than as events; the rounding of floating-point numbers in round-trip times and in the token bucket. The wrappers of the
  compression library only pass their arguments on, and are used nowhere in the program. Sums of counters wrap, as in a release build. The lossy
  variant of the UDP transport is there for the tests of the code only; the verifier that accepts any certificate is a constant, and appears as
  the case \<open>NoVerifier\<close> of the set-up. Bytes that travel through a tunnel are followed up to its two ends: that a tunnel over QCP is a
  byte stream holds under the conditions of \<open>Qcp_Stream\<close> and not without them, as \<open>Qcp_Limits\<close> shows.
\<close>

section \<open>The server's registry under its configuration\<close>

text \<open>How the server builds its registry from a configuration (\<^verbatim>\<open>cross233-server/src/server.rs\<close>).\<close>

definition server_registry :: "server_config \<Rightarrow> 's registry" where
  "server_registry cfg = new_with_network_policy (cfg_port_min cfg) (cfg_port_max cfg)
     (cfg_qcp_port cfg) (effective_proxy_bind cfg) (cfg_allow_privileged_ports cfg)
     (effective_protected_ports cfg) (reserved_ports cfg)"

lemma server_registry_policy:
  "validate_explicit_port (server_registry cfg) p = Inr () \<longleftrightarrow> p \<noteq> 0 \<and> assignable cfg p"
  by (auto simp: server_registry_def new_with_network_policy_def validate_explicit_port_def assignable_def not_less)

text \<open>\<^bold>\<open>C6\<close>: clients never get a port of the server. Whatever services clients register, in whatever
  order and from whatever sessions, no service that is reached directly on a public port ever has the
  SSH port, a port of one of the server's own listeners, a port that the configuration protects,
  or, unless the configuration allows it, a privileged port.\<close>

theorem server_ports_safe:
  fixes r :: "'s registry"
  assumes "registry_reachable P (server_registry cfg) r"
    and "entry_at r n = Some e" "uses_direct_public_port (config e)"
  shows "remote_port (config e) \<noteq> 22 \<and> remote_port (config e) \<notin> set (listener_ports cfg)
    \<and> remote_port (config e) \<notin> set (cfg_protected_ports cfg)
    \<and> (remote_port (config e) < 1024 \<longrightarrow> cfg_allow_privileged_ports cfg)"
proof -
  have "registry_ok (server_registry cfg :: 's registry)" by (simp add: server_registry_def fresh_registry)
  then have ok: "registry_ok r" and pol: "same_policy r (server_registry cfg)"
    using registry_ok_reachable[OF assms(1)] by simp_all
  from ok assms(2,3) have "validate_explicit_port r (remote_port (config e)) = Inr ()"
    by (simp add: registry_ok_def)
  then have "remote_port (config e) \<noteq> 0 \<and> assignable cfg (remote_port (config e))"
    by (simp add: same_policy_validate[OF pol] server_registry_policy)
  then show ?thesis
    by (auto simp: assignable_def reserved_ports_def effective_protected_ports_def not_less)
qed

theorem server_ports_safe_witness:
  "\<exists>r e. registry_reachable (\<lambda>s. True) (server_registry default_config) (r :: nat registry)
     \<and> entry_at r ''a'' = Some e \<and> uses_direct_public_port (config e) \<and> remote_port (config e) \<noteq> 22"
proof -
  let ?s = "tcp_service ''a'' 9000" and ?r0 = "server_registry default_config :: nat registry"
  let ?r1 = "(enter_session ''c'' 1 ?r0)\<lparr>allocated_ports := hm_insert 9000 ''a'' (allocated_ports ?r0)\<rparr>"
  have v: "validate_explicit_port ?r0 9000 = Inr ()"
    by (simp add: server_registry_policy assignable_def reserved_ports_def listener_ports_def
        effective_protected_ports_def default_config_def)
  have f: "entry_at ?r0 m = None" "allocated_ports ?r0 = []" "names_valid ?r0" for m
    by (simp_all add: server_registry_def new_with_network_policy_def entry_at_def names_valid_def)
  have reg: "register_services 0 ''c'' 1 [?s] ?r0 = ([?s], publish 0 ''c'' 1 ?s ?r1)"
    using register_explicit[of ?s ?r0 0 "''c''" 1] v by (simp add: uses_direct_public_port_def f)
  define r where "r = publish 0 ''c'' 1 ?s ?r1"
  have reach: "registry_reachable (\<lambda>s. True) ?r0 r"
    unfolding r_def by (rule reach_next[OF reach_init step_register[OF _ reg]]) simp
  have nv: "names_valid ?r1" using f(3) by (simp add: names_valid_def enter_session_frame)
  have at: "entry_at r ''a'' = Some (new_entry ?s ''c'' 1 0)"
    unfolding r_def entry_at_publish[OF nv] by simp
  have d: "uses_direct_public_port (config (new_entry ?s ''c'' 1 0))"
    by (simp add: uses_direct_public_port_def)
  from server_ports_safe[OF reach at d] reach at d show ?thesis by blast
qed

text \<open>A validated configuration serves its first client. When validation accepts the
  configuration, the first service that asks for an automatic port on a new server is registered, on
  a port of the configured range that is assignable.\<close>

theorem validated_config_serves:
  fixes r :: "'s registry"
  assumes "validate cfg = Inr ()" "is_enabled svc" "uses_auto_port svc"
    and "register_services now cid tx [svc] (server_registry cfg) = (as, r)"
  shows "\<exists>p. as = [svc\<lparr>remote_port := p\<rparr>] \<and> cfg_port_min cfg \<le> p \<and> p \<le> cfg_port_max cfg
    \<and> assignable cfg p \<and> hm_get (allocated_ports r) p = Some (svc_name svc)"
proof -
  let ?r0 = "server_registry cfg :: 's registry"
  let ?r1 = "enter_session cid tx ?r0"
  have range: "cfg_port_min cfg \<noteq> 0" "cfg_port_min cfg \<le> cfg_port_max cfg"
    and ex: "\<exists>p. cfg_port_min cfg \<le> p \<and> p \<le> cfg_port_max cfg \<and> assignable cfg p"
    using validate_range[OF assms(1)] by simp_all
  have s: "port_min ?r1 = cfg_port_min cfg" "port_max ?r1 = cfg_port_max cfg"
    "next_port ?r1 = ucast (cfg_port_min cfg)" "entry_at ?r1 n = None" "allocated_ports ?r1 = []" for n
    by (simp_all add: enter_session_def server_registry_def new_with_network_policy_def entry_at_def Let_def)
  have v: "validate_explicit_port ?r1 p = Inr () \<longleftrightarrow> p \<noteq> 0 \<and> assignable cfg p" for p
    unfolding same_policy_validate[OF enter_session_frame(4)] by (rule server_registry_policy)
  obtain res r2 where al: "allocate_port (svc_name svc) ?r1 = (res, r2)"
    by (cases "allocate_port (svc_name svc) ?r1")
  have u16: "unat (x :: u16) < 2 ^ 16" for x by (rule order_less_le_trans[OF unsigned_less]) simp
  have small: "unat (next_port ?r1) + unat (port_count ?r1) \<le> 2 ^ 64"
  proof -
    have "unat (next_port ?r1) < 2 ^ 16" unfolding s
      using u16[of "cfg_port_min cfg"] by (simp add: unsigned_ucast_eq take_bit_nat_eq_self)
    with u16[of "port_count ?r1"] show ?thesis by simp
  qed
  have res: "case res of
      Some p \<Rightarrow> port_min ?r1 \<le> p \<and> p \<le> port_max ?r1 \<and> good_port ?r1 p
    | None \<Rightarrow> \<forall>p. port_min ?r1 \<le> p \<and> p \<le> port_max ?r1 \<longrightarrow> \<not> good_port ?r1 p"
    by (rule allocate_port_spec[OF _ _ small al]) (use range s in simp_all)
  obtain p where p: "res = Some p" "cfg_port_min cfg \<le> p" "p \<le> cfg_port_max cfg" "assignable cfg p"
  proof (cases res)
    case None
    obtain p where "cfg_port_min cfg \<le> p" "p \<le> cfg_port_max cfg" "assignable cfg p" using ex by blast
    moreover from this range have "p \<noteq> 0" by (auto simp: word_le_nat_alt unat_eq_0)
    ultimately show ?thesis using res by (auto simp: None s v good_port_def)
  next
    case (Some p)
    with res that[of p] show ?thesis by (simp add: s v good_port_def)
  qed
  have as: "as = [svc\<lparr>remote_port := p\<rparr>]" "r = publish now cid tx (svc\<lparr>remote_port := p\<rparr>) r2"
    using assms(2-4) al p(1)
    by (simp_all add: register_services_def register_one_def assign_port_def s Let_def)
  have "hm_get (allocated_ports r) p = Some (svc_name svc)"
    using allocate_port_Some[OF al[unfolded p(1)]] by (simp add: as)
  with p as show ?thesis by blast
qed

theorem validated_config_serves_witness:
  "\<exists>p r. register_services 0 ''c'' 1 [tcp_service ''a'' 0] (server_registry default_config :: nat registry)
       = ([tcp_service ''a'' p], r) \<and> 7712 \<le> p \<and> p \<le> 7720"
proof -
  let ?s = "tcp_service ''a'' 0"
  obtain as r where reg: "register_services 0 ''c'' 1 [?s] (server_registry default_config :: nat registry) = (as, r)"
    by (cases "register_services 0 ''c'' 1 [?s] (server_registry default_config :: nat registry)")
  have auto_port: "uses_auto_port ?s" by (simp add: uses_auto_port_def)
  have port: "?s\<lparr>remote_port := p\<rparr> = tcp_service ''a'' p" for p by (simp add: tcp_service_def)
  from validated_config_serves[OF default_config_valid _ auto_port reg]
  obtain p where "as = [?s\<lparr>remote_port := p\<rparr>]" "cfg_port_min default_config \<le> p" "p \<le> cfg_port_max default_config"
    by auto
  with reg show ?thesis
    by (intro exI[of _ p] exI[of _ r]) (simp add: port, simp add: default_config_def)
qed

section \<open>Client and server together\<close>

text \<open>The two ends of the handshakes fit. A client and a server that share the key and
  whose messages arrive within the minute always come to an agreement: the server accepts what the
  client's session sends in answer to the server's challenge, and the client takes the server's
  ready message for what it is; the same holds for a tunnel that the server has asked for, whose stream is
  handed to the waiting request.\<close>

theorem handshakes_interoperate:
  fixes st :: "'s control"
  assumes "hm_wf (pending (auth st))" "t_cleanup en - t_insert en < secs 60" "\<forall>m. io m" "cid \<noteq> []" "tid \<noteq> []"
    and "key = hmac_key (auth st)" "hm_get (pending_work (reg st)) tid = Some n"
  shows "(\<exists>hello am st1. session_handshake mac key cid svcs (Some (new_challenge (nonce en))) (Some (new_ready as qp qtp))
        = ([hello, am], Inr (new_ready as qp qtp))
      \<and> control_handshake mac io en hello (Some am) st = ([new_challenge (nonce en)], Inr (), st1) \<and> reg st1 = reg st)
    \<and> (\<exists>hello am st1. authenticate_tunnel mac key tid (Some (new_challenge (nonce en))) (Some (new_ready [] 0 0))
        = ([hello, am], Inr ())
      \<and> handle_tunnel_connection mac io en stream hello (Some am) st
        = ([new_challenge (nonce en), new_ready [] 0 0], Inr (), st1)
      \<and> reg st1 = snd (complete_tunnel tid stream (reg st)))"
proof -
  have ch: "m_nonce (new_challenge x) = Some x" for x by (simp add: new_challenge_def default_message_def)
  have "session_handshake mac key cid svcs (Some (new_challenge (nonce en))) (Some (new_ready as qp qtp))
      = ([new_client_hello cid svcs, new_auth (mac key (role_message (ClientRole cid) (nonce en)))], Inr (new_ready as qp qtp))"
    by (simp add: session_handshake_def answer_challenge_def compute_proof_def opt_str_def ch Let_def)
  moreover have "authenticate_tunnel mac key tid (Some (new_challenge (nonce en))) (Some (new_ready [] 0 0))
      = ([new_tunnel_hello tid, new_auth (mac key (proof_message ''tunnel'' [] tid (nonce en)))], Inr ())"
    by (simp add: authenticate_tunnel_def answer_challenge_def compute_proof_def opt_str_def ch Let_def)
  moreover obtain a where "control_handshake mac io en (new_client_hello cid svcs)
      (Some (new_auth (mac key (role_message (ClientRole cid) (nonce en))))) st = ([new_challenge (nonce en)], Inr (), st\<lparr>auth := a\<rparr>)"
    using control_handshake_ok[OF assms(1,2,4,3)] assms(6) by blast
  moreover obtain b where "handle_tunnel_connection mac io en stream (new_tunnel_hello tid)
      (Some (new_auth (mac key (proof_message ''tunnel'' [] tid (nonce en))))) st
      = ([new_challenge (nonce en), new_ready [] 0 0], Inr (), st\<lparr>auth := b, reg := snd (complete_tunnel tid stream (reg st))\<rparr>)"
    using tunnel_outcome[OF assms(1,2,5,3), of mac stream] assms(6,7) by auto
  ultimately show ?thesis by auto
qed

theorem handshakes_interoperate_witness:
  "\<exists>hello am st1. authenticate_tunnel demo_mac ''k'' ''t'' (Some (new_challenge demo_nonce)) (Some (new_ready [] 0 0)) = ([hello, am], Inr ())
     \<and> handle_tunnel_connection demo_mac (\<lambda>_. True) demo_entropy 7 hello (Some am) (demo_control\<lparr>reg := demo\<lparr>pending_work := [(''t'', 0)]\<rparr>\<rparr>)
       = ([new_challenge demo_nonce, new_ready [] 0 0], Inr (), st1)"
proof -
  let ?st = "demo_control\<lparr>reg := demo\<lparr>pending_work := [(''t'', 0)]\<rparr>\<rparr>"
  have h: "hm_wf (pending (auth ?st))" "t_cleanup demo_entropy - t_insert demo_entropy < secs 60" "\<forall>m :: message. (\<lambda>_. True) m"
    "''c'' \<noteq> []" "''t'' \<noteq> []" "''k'' = hmac_key (auth ?st)" "hm_get (pending_work (reg ?st)) ''t'' = Some 0" "nonce demo_entropy = demo_nonce"
    by (simp_all add: demo_control_def new_auth_state_def demo_entropy_def secs_def hm_get_def)
  from handshakes_interoperate[OF h(1-7), THEN conjunct2, of demo_mac 7] h(8) show ?thesis by auto
qed



text \<open>Visitors are authenticated and then turned away. When a client's visitor connects and
  proves the key in time, the server accepts the proof, and that is all: it writes nothing after the
  challenge, hands the connection to nobody and drops it, so the visitor, which waits for the answer,
  fails. A secret service can be registered but never be reached.\<close>

theorem visitors_never_served:
  fixes st :: "'s control"
  assumes "hm_wf (pending (auth st))" "t_cleanup en - t_insert en < secs 60" "\<forall>m. io m" "key = hmac_key (auth st)"
    and "handle_stcp_conn mac key cid svc vid (Some (new_challenge (nonce en))) None = ([hello, am], r)"
    and "handle_connection mac parse kept sys io en now tx h qp qtp stream hello (Some am) evs st = (out, res, st')"
  shows "res = Inr () \<and> out = [new_challenge (nonce en)] \<and> reg st' = reg st \<and> udp_mgr st' = udp_mgr st \<and> r = Inl VHandshake"
proof -
  have ch: "m_ty (new_challenge x) = ''challenge''" "m_nonce (new_challenge x) = Some x" for x
    by (simp_all add: new_challenge_def default_message_def)
  have c: "hello = new_visitor_hello cid svc (Some vid)" "am = new_auth (mac key (proof_message ''visitor'' cid vid (nonce en)))"
    "r = Inl VHandshake"
    using assms(5) by (auto simp: handle_stcp_conn_def answer_challenge_def compute_proof_def opt_str_def ch Let_def)
  define k where "k = ''visitor:'' @ vid"
  note k = k_def[simplified, symmetric]
  define a1 where "a1 = snd (create_challenge (nonce en) (t_insert en) (t_cleanup en) k (auth st))"
  have "hm_get (pending a1) k = Some \<lparr>pa_nonce = nonce en, created_at = t_insert en\<rparr>"
    unfolding a1_def by (rule create_challenge_get[OF assms(1,2)])
  moreover have "hmac_key a1 = hmac_key (auth st)" by (simp add: a1_def create_challenge_def)
  ultimately have v: "verify mac k ''visitor'' cid vid (mac key (proof_message ''visitor'' cid vid (nonce en))) a1
      = (True, a1\<lparr>pending := hm_remove k (pending a1)\<rparr>)"
    using assms(4) by (simp add: verify_def verify_proof_def compute_proof_def)
  have "handle_connection mac parse kept sys io en now tx h qp qtp stream hello (Some am) evs st
      = ([new_challenge (nonce en)], Inr (), st\<lparr>auth := a1\<lparr>pending := hm_remove k (pending a1)\<rparr>\<rparr>)"
    using assms(3) by (simp add: handle_connection_def handle_visitor_connection_def c new_visitor_hello_def new_auth_def
        default_message_def default_str_def Let_def k v flip: a1_def)
  with assms(6) c(3) show ?thesis by auto
qed

theorem visitors_never_served_witness:
  "\<exists>st'. handle_connection demo_mac (\<lambda>_. None) (\<lambda>_. []) demo_os (\<lambda>_. True) demo_entropy 0 1 0 0 0 7
       (new_visitor_hello ''c'' ''s'' (Some ''v'')) (Some (new_auth (demo_mac ''k'' (proof_message ''visitor'' ''c'' ''v'' demo_nonce)))) []
       demo_control = ([new_challenge demo_nonce], Inr (), st')
     \<and> snd (handle_stcp_conn demo_mac ''k'' ''c'' ''s'' ''v'' (Some (new_challenge demo_nonce)) None) = Inl VHandshake"
proof -
  let ?hello = "new_visitor_hello ''c'' ''s'' (Some ''v'')"
  let ?am = "new_auth (demo_mac ''k'' (proof_message ''visitor'' ''c'' ''v'' demo_nonce))"
  have n: "nonce demo_entropy = demo_nonce" by (simp add: demo_entropy_def)
  have h: "hm_wf (pending (auth demo_control))" "t_cleanup demo_entropy - t_insert demo_entropy < secs 60" "\<forall>m :: message. (\<lambda>_. True) m"
    "''k'' = hmac_key (auth demo_control)"
    by (simp_all add: demo_control_def new_auth_state_def demo_entropy_def secs_def)
  have c: "handle_stcp_conn demo_mac ''k'' ''c'' ''s'' ''v'' (Some (new_challenge (nonce demo_entropy))) None
      = ([?hello, ?am], Inl VHandshake)"
    by (simp add: handle_stcp_conn_def answer_challenge_def compute_proof_def opt_str_def new_challenge_def default_message_def n Let_def)
  obtain out res st' where "handle_connection demo_mac (\<lambda>_. None) (\<lambda>_. []) demo_os (\<lambda>_. True) demo_entropy 0 1 0 0 0 7
      ?hello (Some ?am) [] demo_control = (out, res, st')" by (metis prod.exhaust)
  from visitors_never_served[OF h c this] this c n show ?thesis by auto
qed

section \<open>From configuration to public port\<close>

text \<open>\<^bold>\<open>C5\<close>: a configured client comes online. On a new server with a validated configuration, whose ports can be
  bound, a client with the same key that offers one TCP or static service without a port gets through: the server accepts
  the proof that the client's session sends, registers and exposes the service on a port of its range that is
  assignable, and owned by no other service; and the client, on the server's answer, starts its session
  and shows on its status page that it is connected and under which port its service is reached.\<close>

theorem client_comes_online:
  fixes st :: "'s control"
  assumes server: "validate cfg = Inr ()" "reg st = server_registry cfg" "hm_wf (pending (auth st))"
      "t_cleanup en - t_insert en < secs 60" "\<forall>m. io m" "\<forall>p. tcp_bind sys p"
    and client: "cc_client_id ccfg \<noteq> []" "cc_auth_key ccfg = hmac_key (auth st)" "parse_mode (cc_transport ccfg) = Inr mode"
    and svc: "enabled_services ccfg = [svc]" "uses_auto_port svc" "effective_type svc \<in> {''tcp'', ''static'', []}"
    and net: "tcp_connects net (cc_server ccfg)" "nodelay_ok net" "name_ok net (cc_server_name ccfg)" "tls_ok net"
  shows "\<exists>hello am st1 ready st2 su w' p.
    control_handshake mac io en hello (Some am) st = ([new_challenge (nonce en)], Inr (), st1)
    \<and> begin_session sys io now tx h qport qtport hello st1 = ([ready], Inr (), st2)
    \<and> session_begin mac (net\<lparr>got_challenge := Some (new_challenge (nonce en)), got_reply := Some ready\<rparr>) bind_ok t ccfg w
        = ([hello, am], Inr (su, w'))
    \<and> connected w' \<and> w_services w' = [svc\<lparr>remote_port := p\<rparr>] \<and> cfg_port_min cfg \<le> p \<and> p \<le> cfg_port_max cfg \<and> assignable cfg p
    \<and> hm_get (allocated_ports (reg st2)) p = Some (svc_name svc) \<and> is_listener_active p (reg st2)"
proof -
  let ?cid = "cc_client_id ccfg" and ?key = "hmac_key (auth st)"
  let ?hello = "new_client_hello ?cid [svc]" and ?am = "new_auth (mac ?key (role_message (ClientRole ?cid) (nonce en)))"
  obtain a where hs: "control_handshake mac io en ?hello (Some ?am) st = ([new_challenge (nonce en)], Inr (), st\<lparr>auth := a\<rparr>)"
    using control_handshake_ok[OF server(3,4) client(1) server(5)] by blast
  have "svc \<in> set (enabled_services ccfg)" using svc(1) by simp
  then have en: "is_enabled svc" by (simp add: enabled_services_def)
  obtain as r where reg: "register_services now ?cid tx [svc] (server_registry cfg) = (as, r :: 's registry)" by fastforce
  from validated_config_serves[OF server(1) en svc(2) reg] obtain p where
    p: "as = [svc\<lparr>remote_port := p\<rparr>]" "cfg_port_min cfg \<le> p" "p \<le> cfg_port_max cfg" "assignable cfg p"
      "hm_get (allocated_ports r) p = Some (svc_name svc)" by blast
  have p0: "p \<noteq> 0" using validate_range[OF server(1)] p(2) by (auto simp: word_le_nat_alt unat_eq_0)
  have ty: "effective_type (svc\<lparr>remote_port := p\<rparr>) = effective_type svc" by (simp add: effective_type_def)
  define r2 where "r2 = (if is_listener_active p r then r else register_listener p (svc_name svc) h r)"
  have expose: "expose_services sys h as (st\<lparr>auth := a, reg := r\<rparr>) = (Inr (), st\<lparr>auth := a, reg := r2\<rparr>)"
    using svc(3) p0 server(6)
    by (auto simp: p(1) expose_service_def start_tcp_listener_for_service_def is_vhost_def ty r2_def)
  have b: "begin_session sys io now tx h qport qtport ?hello (st\<lparr>auth := a\<rparr>)
      = ([new_ready as qport qtport], Inr (), st\<lparr>auth := a, reg := r2\<rparr>)"
    using reg expose server(2,5) by (simp add: begin_session_def new_client_hello_def default_message_def default_str_def Let_def)
  have hsk: "session_handshake mac ?key ?cid [svc] (Some (new_challenge (nonce en))) (Some (new_ready as qport qtport))
      = ([?hello, ?am], Inr (new_ready as qport qtport))"
    by (simp add: session_handshake_def answer_challenge_def compute_proof_def opt_str_def new_challenge_def default_message_def Let_def)
  define w1 where "w1 = note_ready (new_ready as qport qtport) (cc_qcp_port ccfg) (cc_qcp_tunnel_port ccfg)
      (cc_transport ccfg) (cc_transport_cache_file ccfg) w"
  have w1: "connected w1 \<and> w_services w1 = [svc\<lparr>remote_port := p\<rparr>]"
    by (simp add: w1_def note_ready_def new_ready_def default_message_def p(1))
  have s: "\<exists>su. session_begin mac (net\<lparr>got_challenge := Some (new_challenge (nonce en)), got_reply := Some (new_ready as qport qtport)\<rparr>)
      bind_ok t ccfg w = ([?hello, ?am], Inr (su, w1))"
    using client svc(1) net hsk by (simp add: session_begin_def w1_def Let_def)
  have "hm_get (allocated_ports r2) p = Some (svc_name svc)" "is_listener_active p r2"
    using p(5) by (auto simp: r2_def register_listener_def is_listener_active_def hm_contains_def)
  then have "hm_get (allocated_ports (reg (st\<lparr>auth := a, reg := r2\<rparr>))) p = Some (svc_name svc) \<and> is_listener_active p (reg (st\<lparr>auth := a, reg := r2\<rparr>))"
    by simp
  with hs b s w1 p(2-4) show ?thesis by blast
qed

definition demo_dial :: dial_env where
  "demo_dial = \<lparr>tcp_connects = \<lambda>_. True, nodelay_ok = True, lookup_host = \<lambda>_ _. None, qcp_dials = \<lambda>_. False, name_ok = \<lambda>_. True,
     tls_ok = True, got_challenge = None, got_reply = None\<rparr>"

definition demo_client :: client_config where
  "demo_client = (default_client_config ''c'')\<lparr>cc_auth_key := ''k'', cc_services := [tcp_service ''a'' 0]\<rparr>"

theorem client_comes_online_witness:
  "\<exists>out ready su w' p. session_begin demo_mac (demo_dial\<lparr>got_challenge := Some (new_challenge (nonce demo_entropy)), got_reply := Some ready\<rparr>)
       (\<lambda>_. True) 0 demo_client new_state = (out, Inr (su, w'))
     \<and> connected w' \<and> w_services w' = [tcp_service ''a'' p] \<and> 7712 \<le> p \<and> p \<le> 7720"
proof -
  let ?st = "demo_control\<lparr>reg := server_registry default_config\<rparr> :: nat control"
  let ?os = "demo_os\<lparr>tcp_bind := (\<lambda>_. True)\<rparr>"
  have port: "(tcp_service ''a'' 0)\<lparr>remote_port := p\<rparr> = tcp_service ''a'' p" for p by (simp add: tcp_service_def)
  have mode: "parse_mode ''tcp'' = Inr TcpMode" by code_simp
  have ports: "cfg_port_min default_config = 7712" "cfg_port_max default_config = 7720" by (simp_all add: default_config_def)
  have h: "reg ?st = server_registry default_config" "hm_wf (pending (auth ?st))"
      "t_cleanup demo_entropy - t_insert demo_entropy < secs 60" "\<forall>m :: message. (\<lambda>_. True) m" "\<forall>p. tcp_bind ?os p"
      "cc_client_id demo_client \<noteq> []" "cc_auth_key demo_client = hmac_key (auth ?st)"
      "parse_mode (cc_transport demo_client) = Inr TcpMode"
      "enabled_services demo_client = [tcp_service ''a'' 0]" "uses_auto_port (tcp_service ''a'' 0)"
      "effective_type (tcp_service ''a'' 0) \<in> {''tcp'', ''static'', []}"
      "tcp_connects demo_dial (cc_server demo_client)" "nodelay_ok demo_dial" "name_ok demo_dial (cc_server_name demo_client)" "tls_ok demo_dial"
    by (simp_all add: demo_control_def new_auth_state_def demo_entropy_def secs_def demo_client_def default_client_config_def mode
        enabled_services_def uses_auto_port_def demo_dial_def)
  from client_comes_online[where io = "\<lambda>_. True", OF default_config_valid h(1-3) _ h(5-15), of demo_mac 0 1 0 0 0 "\<lambda>_. True" 0 new_state]
  show ?thesis unfolding port ports by blast
qed

end
